(* ===== verification/Prelude.thy ===== *)
theory Prelude
  imports Main "HOL-Library.Word" "HOL-Library.AList" "HOL-Library.Multiset"
begin

section \<open>Shared vocabulary of the development\<close>

text \<open>
  What every component theory uses: Python exceptions as values, the state-and-exception
  monad in which stateful methods are written (an exception keeps the mutations made before
  it was raised, as in Python), Python slices, ordered dictionaries, bytes, and the
  big- and little-endian fields of the \<open>struct\<close> module. The generic lemmas about them
  are declared \<open>[simp]\<close> or collected in the named theorem lists below.
\<close>

unbundle bit_operations_syntax

named_theorems io_simps \<open>unfolding rules of the state-and-exception monad\<close>
named_theorems struct_simps \<open>reading back packed fields\<close>
named_theorems wp_simps \<open>weakest preconditions of the combinators\<close>
named_theorems hoare_rules \<open>rules for triples over the state-and-exception monad\<close>

subsection \<open>Exceptions and results\<close>

datatype py_error =
    ValueError | KeyError | IndexError | TypeError | MemoryError | OSError
  | FileNotFoundError | FileExistsError | IsADirectoryError | NotADirectoryError
  | NotImplementedError | RuntimeError | AttributeError | StructError | InvalidStateError
  | CancelledError | TimeoutError | QueueEmpty | QueueFull
  | ConnectionRefusedError | ZeroDivisionError | EOFError | EdError string | OtherError nat

type_synonym 'a res = "py_error + 'a"

type_synonym ('s, 'a) io = "'s \<Rightarrow> 'a res \<times> 's"

definition ret :: "'a \<Rightarrow> ('s, 'a) io" where
  "ret x = (\<lambda>s. (Inr x, s))"

definition raise :: "py_error \<Rightarrow> ('s, 'a) io" where
  "raise e = (\<lambda>s. (Inl e, s))"

definition bind :: "('s, 'a) io \<Rightarrow> ('a \<Rightarrow> ('s, 'b) io) \<Rightarrow> ('s, 'b) io" where
  "bind m f = (\<lambda>s. case m s of (Inl e, s') \<Rightarrow> (Inl e, s') | (Inr x, s') \<Rightarrow> f x s')"

definition gets :: "('s \<Rightarrow> 'a) \<Rightarrow> ('s, 'a) io" where
  "gets f = (\<lambda>s. (Inr (f s), s))"

definition modify :: "('s \<Rightarrow> 's) \<Rightarrow> ('s, unit) io" where
  "modify f = (\<lambda>s. (Inr (), f s))"

definition lift_res :: "'a res \<Rightarrow> ('s, 'a) io" where
  "lift_res r = (\<lambda>s. (r, s))"

definition catch :: "('s, 'a) io \<Rightarrow> (py_error \<Rightarrow> ('s, 'a) io) \<Rightarrow> ('s, 'a) io" where
  "catch m h = (\<lambda>s. case m s of (Inl e, s') \<Rightarrow> h e s' | (Inr x, s') \<Rightarrow> (Inr x, s'))"

fun for_each :: "'a list \<Rightarrow> ('a \<Rightarrow> ('s, unit) io) \<Rightarrow> ('s, unit) io" where
  "for_each [] f = ret ()"
| "for_each (x # xs) f = bind (f x) (\<lambda>_. for_each xs f)"

fun replicate_io :: "nat \<Rightarrow> ('s, 'a) io \<Rightarrow> ('s, 'a list) io" where
  "replicate_io 0 m = ret []"
| "replicate_io (Suc n) m = bind m (\<lambda>x. bind (replicate_io n m) (\<lambda>xs. ret (x # xs)))"

fun fold_io :: "('a \<Rightarrow> 'b \<Rightarrow> ('s, 'b) io) \<Rightarrow> 'a list \<Rightarrow> 'b \<Rightarrow> ('s, 'b) io" where
  "fold_io f [] acc = ret acc"
| "fold_io f (x # xs) acc = bind (f x acc) (fold_io f xs)"

fun map_io :: "('a \<Rightarrow> ('s, 'b) io) \<Rightarrow> 'a list \<Rightarrow> ('s, 'b list) io" where
  "map_io f [] = ret []"
| "map_io f (x # xs) = bind (f x) (\<lambda>y. bind (map_io f xs) (\<lambda>ys. ret (y # ys)))"

lemma ret_apply [simp, io_simps]: "ret x s = (Inr x, s)"
  by (simp add: ret_def)

lemma raise_apply [simp, io_simps]: "raise e s = (Inl e, s)"
  by (simp add: raise_def)

lemma gets_apply [simp, io_simps]: "gets f s = (Inr (f s), s)"
  by (simp add: gets_def)

lemma modify_apply [simp, io_simps]: "modify f s = (Inr (), f s)"
  by (simp add: modify_def)

lemma lift_res_apply [simp, io_simps]: "lift_res r s = (r, s)"
  by (simp add: lift_res_def)

lemma bind_Inr [io_simps]: "m s = (Inr x, s') \<Longrightarrow> bind m f s = f x s'"
  by (simp add: bind_def)

lemma bind_Inl [io_simps]: "m s = (Inl e, s') \<Longrightarrow> bind m f s = (Inl e, s')"
  by (simp add: bind_def)

lemma catch_Inr [io_simps]: "m s = (Inr x, s') \<Longrightarrow> catch m h s = (Inr x, s')"
  by (simp add: catch_def)

lemma catch_Inl [io_simps]: "m s = (Inl e, s') \<Longrightarrow> catch m h s = h e s'"
  by (simp add: catch_def)

lemma bind_ret_left [simp]: "bind (ret x) f = f x"
  by (simp add: bind_def ret_def)

lemma bind_raise [simp]: "bind (raise e) f = raise e"
  by (simp add: bind_def raise_def)

lemma bind_gets [simp, io_simps]: "bind (gets g) f s = f (g s) s"
  by (simp add: bind_def)

lemma bind_modify [simp, io_simps]: "bind (modify g) f s = f () (g s)"
  by (simp add: bind_def)

lemma bind_assoc: "bind (bind m f) g = bind m (\<lambda>x. bind (f x) g)"
  by (auto simp: bind_def fun_eq_iff split: sum.splits prod.splits)

lemma bind_eq_InrE:
  assumes "bind m f s = (Inr y, t)"
  obtains x s' where "m s = (Inr x, s')" and "f x s' = (Inr y, t)"
  using assms by (auto simp: bind_def split: sum.splits prod.splits)

lemma replicate_io_length:
  "replicate_io n m s = (Inr xs, t) \<Longrightarrow> length xs = n"
  by (induction n arbitrary: s xs t) (auto elim!: bind_eq_InrE)

subsection \<open>Triples\<close>

text \<open>
  \<open>triple P m Q E\<close>: from a state satisfying \<open>P\<close>, a normal return satisfies \<open>Q\<close>
  and an exceptional one satisfies \<open>E\<close>. Every method is a total function, so there is no
  separate termination obligation.
\<close>

definition triple ::
  "('s \<Rightarrow> bool) \<Rightarrow> ('s, 'a) io \<Rightarrow> ('a \<Rightarrow> 's \<Rightarrow> bool) \<Rightarrow> (py_error \<Rightarrow> 's \<Rightarrow> bool) \<Rightarrow> bool" where
  "triple P m Q E \<longleftrightarrow>
     (\<forall>s. P s \<longrightarrow> (case m s of (Inr x, t) \<Rightarrow> Q x t | (Inl e, t) \<Rightarrow> E e t))"

lemma tripleI:
  "(\<And>s. P s \<Longrightarrow> (case m s of (Inr x, t) \<Rightarrow> Q x t | (Inl e, t) \<Rightarrow> E e t)) \<Longrightarrow> triple P m Q E"
  by (simp add: triple_def)

lemma triple_InrD: "triple P m Q E \<Longrightarrow> P s \<Longrightarrow> m s = (Inr x, t) \<Longrightarrow> Q x t"
  unfolding triple_def by force

lemma triple_InlD: "triple P m Q E \<Longrightarrow> P s \<Longrightarrow> m s = (Inl e, t) \<Longrightarrow> E e t"
  unfolding triple_def by force

lemma triple_weaken:
  assumes "triple P m Q E"
    and "\<And>s. P' s \<Longrightarrow> P s" and "\<And>x s. Q x s \<Longrightarrow> Q' x s" and "\<And>e s. E e s \<Longrightarrow> E' e s"
  shows "triple P' m Q' E'"
  using assms unfolding triple_def by (fastforce split: sum.splits prod.splits)

lemma triple_ret [hoare_rules]: "triple (Q x) (ret x) Q E"
  by (simp add: triple_def)

lemma triple_raise [hoare_rules]: "triple (E e) (raise e) Q E"
  by (simp add: triple_def)

lemma triple_bind [hoare_rules]:
  assumes "triple P m R E" and "\<And>x. triple (R x) (f x) Q E"
  shows "triple P (bind m f) Q E"
proof (rule tripleI)
  fix s
  assume "P s"
  obtain r s' where m: "m s = (r, s')" by fastforce
  show "case bind m f s of (Inr x, t) \<Rightarrow> Q x t | (Inl e, t) \<Rightarrow> E e t"
  proof (cases r)
    case (Inl e)
    then show ?thesis
      using m \<open>P s\<close> triple_InlD [OF assms(1)] by (simp add: bind_def)
  next
    case (Inr x)
    then have "R x s'"
      using m \<open>P s\<close> triple_InrD [OF assms(1)] by blast
    then show ?thesis
      using m Inr assms(2) [of x] by (simp add: bind_def triple_def)
  qed
qed

lemma triple_for_each [hoare_rules]:
  assumes "\<And>x. x \<in> set xs \<Longrightarrow> triple I (f x) (\<lambda>_. I) E"
  shows "triple I (for_each xs f) (\<lambda>_. I) E"
  using assms
proof (induction xs)
  case Nil
  then show ?case by (simp add: triple_def)
next
  case (Cons x xs)
  have "triple I (f x) (\<lambda>_. I) E" using Cons.prems by simp
  moreover have "triple I (for_each xs f) (\<lambda>_. I) E"
    using Cons.prems by (intro Cons.IH) simp
  ultimately show ?case by (auto intro: triple_bind)
qed

subsection \<open>Weakest preconditions\<close>

text \<open>
  The same contracts read backwards: \<open>wp m Q E s\<close> says that running \<open>m\<close> from \<open>s\<close>
  ends in \<open>Q\<close>, or in \<open>E\<close> when it raises. The rules \<open>wp_simps\<close> compute it over the
  combinators; \<open>wp_mono\<close> uses the contract proved for a called operation.
\<close>

definition wp :: "('s, 'a) io \<Rightarrow> ('a \<Rightarrow> 's \<Rightarrow> bool) \<Rightarrow> (py_error \<Rightarrow> 's \<Rightarrow> bool) \<Rightarrow> 's \<Rightarrow> bool" where
  "wp m Q E s = (case m s of (Inr x, t) \<Rightarrow> Q x t | (Inl e, t) \<Rightarrow> E e t)"

lemma triple_wp: "triple P m Q E \<longleftrightarrow> (\<forall>s. P s \<longrightarrow> wp m Q E s)"
  by (simp add: triple_def wp_def)

lemma wp_bind [wp_simps]: "wp (bind m f) Q E = wp m (\<lambda>x. wp (f x) Q E) E"
  by (auto simp: wp_def bind_def fun_eq_iff split: prod.splits sum.splits)

lemma wp_catch [wp_simps]: "wp (catch m h) Q E = wp m Q (\<lambda>e. wp (h e) Q E)"
  by (auto simp: wp_def catch_def fun_eq_iff split: prod.splits sum.splits)

lemma wp_ret [wp_simps]: "wp (ret x) Q E = Q x"
  by (simp add: wp_def fun_eq_iff)

lemma wp_raise [wp_simps]: "wp (raise e) Q E = E e"
  by (simp add: wp_def fun_eq_iff)

lemma wp_gets [wp_simps]: "wp (gets f) Q E = (\<lambda>s. Q (f s) s)"
  by (simp add: wp_def fun_eq_iff)

lemma wp_modify [wp_simps]: "wp (modify g) Q E = (\<lambda>s. Q () (g s))"
  by (simp add: wp_def fun_eq_iff)

lemma wp_lift_res [wp_simps]:
  "wp (lift_res r) Q E = (\<lambda>s. case r of Inr y \<Rightarrow> Q y s | Inl e \<Rightarrow> E e s)"
  by (simp add: wp_def fun_eq_iff split: sum.splits)

lemma wp_if [wp_simps]: "wp (if b then m else m') Q E s = (if b then wp m Q E s else wp m' Q E s)"
  by simp

lemma wp_mono:
  assumes "wp m Q E s" "\<And>x t. Q x t \<Longrightarrow> Q' x t" "\<And>e t. E e t \<Longrightarrow> E' e t"
  shows "wp m Q' E' s"
  using assms by (auto simp: wp_def split: prod.splits sum.splits)

lemma wp_conj:
  assumes "wp m Q E s" "wp m Q' E' s"
  shows "wp m (\<lambda>x t. Q x t \<and> Q' x t) (\<lambda>e t. E e t \<and> E' e t) s"
  using assms by (auto simp: wp_def split: prod.splits sum.splits)

lemma wp_snd: "wp m (\<lambda>_. Q) (\<lambda>_. Q) s \<longleftrightarrow> Q (snd (m s))"
  by (auto simp: wp_def split: prod.splits sum.splits)

lemma wp_InrD: "wp m Q E s \<Longrightarrow> m s = (Inr x, t) \<Longrightarrow> Q x t"
  by (simp add: wp_def)

lemma wp_totalE:
  assumes "wp m Q (\<lambda>_ _. False) s"
  obtains x t where "m s = (Inr x, t)" "Q x t"
  using assms by (cases "m s") (auto simp: wp_def split: sum.splits)

subsection \<open>Bit masks on unbounded integers\<close>

text \<open>Python integers are unbounded; masking keeps a residue, \<open>& ~mask\<close> rounds down.\<close>

lemma and_mask_mod:
  fixes x :: int
  shows "x AND 0xFF = x mod 256"
    and "x AND 0xFFFF = x mod 65536"
    and "x AND 0xFFFFFFFF = x mod 4294967296"
  using take_bit_eq_mask [of 8 x] take_bit_eq_mask [of 16 x] take_bit_eq_mask [of 32 x]
  by (simp_all add: take_bit_eq_mod mask_eq_exp_minus_1)

lemma and_not_mask:
  fixes x :: int
  shows "x AND NOT (mask n) = x - x mod 2 ^ n"
proof -
  have "x AND NOT (mask n) = push_bit n (drop_bit n x)"
    by (rule bit_eqI) (auto simp: bit_simps)
  then show ?thesis
    using bits_ident [of n x] by (simp add: take_bit_eq_mod)
qed

subsection \<open>Ordered dictionaries\<close>

text \<open>A dictionary that is iterated, or shared by key, is an association list with distinct keys.\<close>

lemma alist_update_mem: "x \<in> set (AList.update k v al) \<Longrightarrow> x = (k, v) \<or> x \<in> set al"
  by (induction al) (auto split: if_splits)

lemma alist_update_mem_iff:
  "distinct (map fst al) \<Longrightarrow>
     x \<in> set (AList.update k v al) \<longleftrightarrow> x = (k, v) \<or> (x \<in> set al \<and> fst x \<noteq> k)"
  by (induction al) force+

lemma alist_delete_mem [simp]: "x \<in> set (AList.delete k al) \<longleftrightarrow> x \<in> set al \<and> fst x \<noteq> k"
  by (auto simp: AList.delete_eq)

subsection \<open>Slices\<close>

text \<open>
  \<open>xs[i:j]\<close>: both bounds are clamped to the list, negative ones count from the end, and
  an empty range gives the empty list. \<open>xs[i:j] = ys\<close> replaces that range.
\<close>

definition clamp_index :: "nat \<Rightarrow> int \<Rightarrow> nat" where
  "clamp_index n i = nat (if i < 0 then max 0 (int n + i) else min i (int n))"

definition slice :: "'a list \<Rightarrow> int \<Rightarrow> int \<Rightarrow> 'a list" where
  "slice xs i j =
     (let a = clamp_index (length xs) i; b = clamp_index (length xs) j
      in take (b - a) (drop a xs))"

definition slice_from :: "'a list \<Rightarrow> int \<Rightarrow> 'a list" where
  "slice_from xs i = drop (clamp_index (length xs) i) xs"

definition slice_assign :: "'a list \<Rightarrow> int \<Rightarrow> int \<Rightarrow> 'a list \<Rightarrow> 'a list" where
  "slice_assign xs i j ys =
     (let a = clamp_index (length xs) i; b = clamp_index (length xs) j
      in take a xs @ ys @ drop (max a b) xs)"

lemma drop_split: "drop a xs = take b (drop a xs) @ drop (a + b) xs"
  by (metis append_take_drop_id drop_drop add.commute)

lemma slice_int:
  "slice xs (int a) (int b) = take (b - a) (drop a xs)"
proof (cases "a \<le> length xs")
  case True
  then show ?thesis
    by (simp add: slice_def clamp_index_def Let_def min_def nat_diff_distrib')
next
  case False
  then show ?thesis by (simp add: slice_def clamp_index_def Let_def min_def)
qed

lemma slice_nat:
  assumes "0 \<le> i" and "0 \<le> j"
  shows "slice xs i j = take (nat j - nat i) (drop (nat i) xs)"
  using slice_int [of xs "nat i" "nat j"] assms by simp

lemma slice_from_nat: "0 \<le> i \<Longrightarrow> slice_from xs i = drop (nat i) xs"
  by (simp add: slice_from_def clamp_index_def min_def)

lemma slice_assign_nat:
  assumes "0 \<le> i" "i \<le> j" "j \<le> int (length xs)"
  shows "slice_assign xs i j ys = take (nat i) xs @ ys @ drop (nat j) xs"
  using assms
  by (simp add: slice_assign_def clamp_index_def Let_def max_def nat_le_iff)

lemma length_slice_le: "length (slice xs i j) \<le> length xs"
  by (simp add: slice_def Let_def)

subsection \<open>Bytes and the fields of the \<open>struct\<close> module\<close>

type_synonym byte = "8 word"

primrec le_bytes :: "nat \<Rightarrow> int \<Rightarrow> byte list" where
  "le_bytes 0 v = []"
| "le_bytes (Suc n) v = word_of_int v # le_bytes n (v div 256)"

primrec le_val :: "byte list \<Rightarrow> int" where
  "le_val [] = 0"
| "le_val (b # bs) = uint b + 256 * le_val bs"

definition be_bytes :: "nat \<Rightarrow> int \<Rightarrow> byte list" where
  "be_bytes n v = rev (le_bytes n v)"

definition be_val :: "byte list \<Rightarrow> int" where
  "be_val bs = le_val (rev bs)"

text \<open>
  \<open>struct.pack\<close> raises \<open>struct.error\<close> for a value that does not fit the field, and
  \<open>struct.unpack\<close> for a buffer of another length; \<open>unpack_from\<close> and
  \<open>pack_into\<close> work at an offset and raise when the buffer is too short.
\<close>

definition pack_be :: "nat \<Rightarrow> int \<Rightarrow> byte list res" where
  "pack_be n v = (if 0 \<le> v \<and> v < 256 ^ n then Inr (be_bytes n v) else Inl StructError)"

definition unpack_be :: "nat \<Rightarrow> byte list \<Rightarrow> int res" where
  "unpack_be n bs = (if length bs = n then Inr (be_val bs) else Inl StructError)"

definition struct_offset :: "nat \<Rightarrow> byte list \<Rightarrow> int \<Rightarrow> nat option" where
  "struct_offset n bs off =
     (let k = (if off < 0 then off + int (length bs) else off)
      in if 0 \<le> k \<and> k + int n \<le> int (length bs) then Some (nat k) else None)"

definition unpack_le_from :: "nat \<Rightarrow> byte list \<Rightarrow> int \<Rightarrow> int res" where
  "unpack_le_from n bs off =
     (case struct_offset n bs off of None \<Rightarrow> Inl StructError | Some k \<Rightarrow> Inr (le_val (take n (drop k bs))))"

definition pack_le_into :: "nat \<Rightarrow> byte list \<Rightarrow> int \<Rightarrow> int \<Rightarrow> byte list res" where
  "pack_le_into n bs off v =
     (case struct_offset n bs off of
        None \<Rightarrow> Inl StructError
      | Some k \<Rightarrow> if 0 \<le> v \<and> v < 256 ^ n then Inr (take k bs @ le_bytes n v @ drop (k + n) bs)
                  else Inl StructError)"

text \<open>\<open>xs[i]\<close> and \<open>xs[i] = v\<close>: a negative index counts from the end, and one out of range raises.\<close>

definition py_index :: "'a list \<Rightarrow> int \<Rightarrow> nat option" where
  "py_index xs i = (let k = (if i < 0 then i + int (length xs) else i)
     in if 0 \<le> k \<and> k < int (length xs) then Some (nat k) else None)"

definition py_nth :: "'a list \<Rightarrow> int \<Rightarrow> 'a res" where
  "py_nth xs i = (case py_index xs i of None \<Rightarrow> Inl IndexError | Some k \<Rightarrow> Inr (xs ! k))"

definition py_set :: "'a list \<Rightarrow> int \<Rightarrow> 'a \<Rightarrow> 'a list res" where
  "py_set xs i v = (case py_index xs i of None \<Rightarrow> Inl IndexError | Some k \<Rightarrow> Inr (xs[k := v]))"

lemma length_le_bytes [simp]: "length (le_bytes n v) = n"
  by (induction n arbitrary: v) auto

lemma length_be_bytes [simp]: "length (be_bytes n v) = n"
  by (simp add: be_bytes_def)

lemma be_bytes_1 [simp]: "be_bytes (Suc 0) v = [word_of_int v]"
  by (simp add: be_bytes_def)

lemma uint_byte_of_int [simp]: "uint (word_of_int v :: byte) = v mod 256"
  by (simp add: uint_word_of_int)

lemma le_val_bytes [struct_simps]: "le_val (le_bytes n v) = v mod 256 ^ n"
proof (induction n arbitrary: v)
  case (Suc n)
  then show ?case by (simp add: mod_mult2_eq' zmod_zmult2_eq)
qed simp

lemma be_val_bytes [struct_simps]: "be_val (be_bytes n v) = v mod 256 ^ n"
  by (simp add: be_val_def be_bytes_def le_val_bytes)

lemma le_val_bounds: "0 \<le> le_val bs \<and> le_val bs < 256 ^ length bs"
proof (induction bs)
  case (Cons b bs)
  have "0 \<le> uint b" "uint b < 256" using uint_bounded [of b] by simp_all
  then show ?case using Cons by simp
qed simp

lemma be_val_bounds: "0 \<le> be_val bs \<and> be_val bs < 256 ^ length bs"
  using le_val_bounds [of "rev bs"] by (simp add: be_val_def)

lemma le_bytes_val [struct_simps]: "le_bytes (length bs) (le_val bs) = bs"
proof (induction bs)
  case (Cons b bs)
  have "0 \<le> uint b" "uint b < 256" using uint_bounded [of b] by simp_all
  then have d: "(uint b + 256 * le_val bs) div 256 = le_val bs" by simp
  have "(word_of_int (uint b + 256 * le_val bs) :: byte) = b"
  proof (rule word_uint_eq_iff [THEN iffD2])
    have "(uint b + 256 * le_val bs) mod 256 = uint b"
      using \<open>0 \<le> uint b\<close> \<open>uint b < 256\<close> by simp
    then show "uint (word_of_int (uint b + 256 * le_val bs) :: byte) = uint b"
      by (simp only: uint_byte_of_int)
  qed
  with d Cons show ?case by simp
qed simp

lemma be_bytes_val [struct_simps]: "length bs = n \<Longrightarrow> be_bytes n (be_val bs) = bs"
  using le_bytes_val [of "rev bs"] by (auto simp: be_bytes_def be_val_def)

lemma pack_be_Inr_iff: "pack_be n v = Inr bs \<longleftrightarrow> 0 \<le> v \<and> v < 256 ^ n \<and> bs = be_bytes n v"
  by (auto simp: pack_be_def)

lemma unpack_pack_be [struct_simps]:
  "pack_be n v = Inr bs \<Longrightarrow> unpack_be n bs = Inr v"
  by (auto simp: pack_be_Inr_iff unpack_be_def be_val_bytes)

lemma struct_offset_nat [simp]:
  "struct_offset n bs (int k) = (if k + n \<le> length bs then Some k else None)"
  by (simp add: struct_offset_def)

lemma struct_offset_Some: "struct_offset n bs off = Some k \<Longrightarrow> k + n \<le> length bs"
  by (auto simp: struct_offset_def Let_def split: if_splits)

lemma struct_offset_length: "length bs' = length bs \<Longrightarrow> struct_offset n bs' off = struct_offset n bs off"
  by (simp add: struct_offset_def)

lemma pack_le_into_length: "pack_le_into n bs off v = Inr bs' \<Longrightarrow> length bs' = length bs"
  by (auto simp: pack_le_into_def dest: struct_offset_Some split: option.splits if_splits)

lemma unpack_pack_le_into [struct_simps]:
  assumes "pack_le_into n bs off v = Inr bs'"
  shows "unpack_le_from n bs' off = Inr v"
proof -
  obtain k where k: "struct_offset n bs off = Some k" "0 \<le> v" "v < 256 ^ n" "bs' = take k bs @ le_bytes n v @ drop (k + n) bs"
    using assms by (auto simp: pack_le_into_def split: option.splits if_splits)
  have "struct_offset n bs' off = Some k"
    using k(1) struct_offset_length [OF pack_le_into_length [OF assms]] by simp
  then show ?thesis
    using struct_offset_Some [OF k(1)] k(2-4) by (simp add: unpack_le_from_def le_val_bytes)
qed

text \<open>Fields that do not overlap do not interfere.\<close>

lemma take_drop_patch:
  assumes "k + length ys \<le> length xs" "j + m \<le> k \<or> k + length ys \<le> j"
  shows "take m (drop j (take k xs @ ys @ drop (k + length ys) xs)) = take m (drop j xs)"
  using assms(2)
proof
  assume "j + m \<le> k"
  then show ?thesis using assms(1) by (simp add: drop_take)
next
  assume "k + length ys \<le> j"
  then show ?thesis using assms(1) by (simp add: min_def)
qed

lemma unpack_pack_other [struct_simps]:
  assumes "pack_le_into n bs (int k) v = Inr bs'" "j + m \<le> k \<or> k + n \<le> j"
  shows "unpack_le_from m bs' (int j) = unpack_le_from m bs (int j)"
proof -
  have "bs' = take k bs @ le_bytes n v @ drop (k + n) bs" "k + n \<le> length bs"
    using assms(1) by (auto simp: pack_le_into_def split: if_splits)
  then show ?thesis
    using take_drop_patch [of k "le_bytes n v" bs j m] assms(2) pack_le_into_length [OF assms(1)]
    by (simp add: unpack_le_from_def)
qed

lemma unpack_le_bounds:
  assumes "unpack_le_from n bs off = Inr v"
  shows "0 \<le> v \<and> v < 256 ^ n"
proof -
  obtain k where "struct_offset n bs off = Some k" "v = le_val (take n (drop k bs))"
    using assms by (auto simp: unpack_le_from_def split: option.splits)
  then show ?thesis
    using le_val_bounds [of "take n (drop k bs)"] struct_offset_Some [of n bs off k]
    by (simp add: min_absorb2)
qed

lemma py_nth_nat [simp]: "py_nth xs (int k) = (if k < length xs then Inr (xs ! k) else Inl IndexError)"
  by (simp add: py_nth_def py_index_def)

lemma py_set_nat [simp]: "py_set xs (int k) v = (if k < length xs then Inr (xs[k := v]) else Inl IndexError)"
  by (simp add: py_set_def py_index_def)

end
