(* ===== verification/PyString.thy ===== *)
theory PyString
  imports Prelude
begin

section \<open>String operations of the source language\<close>

text \<open>
  The methods of \<open>str\<close> the kernel uses, on strings of one-byte characters:
  \<open>split\<close>, \<open>join\<close>, \<open>strip\<close>, \<open>rstrip\<close>, \<open>startswith\<close>, decimal and hexadecimal
  formatting and \<open>int()\<close>.
\<close>

subsection \<open>Splitting and joining\<close>

fun split_on :: "char \<Rightarrow> string \<Rightarrow> string list" where
  "split_on c [] = [[]]"
| "split_on c (x # xs) =
     (if x = c then [] # split_on c xs
      else case split_on c xs of [] \<Rightarrow> [[x]] | w # ws \<Rightarrow> (x # w) # ws)"

fun join_with :: "string \<Rightarrow> string list \<Rightarrow> string" where
  "join_with sep [] = []"
| "join_with sep [w] = w"
| "join_with sep (w # ws) = w @ sep @ join_with sep ws"

definition rstrip :: "char \<Rightarrow> string \<Rightarrow> string" where
  "rstrip c s = rev (dropWhile (\<lambda>x. x = c) (rev s))"

definition strip :: "char \<Rightarrow> string \<Rightarrow> string" where
  "strip c s = rstrip c (dropWhile (\<lambda>x. x = c) s)"

fun starts_with :: "string \<Rightarrow> string \<Rightarrow> bool" where
  "starts_with s [] = True"
| "starts_with [] (p # ps) = False"
| "starts_with (x # xs) (p # ps) = (x = p \<and> starts_with xs ps)"

lemma split_on_nonempty [simp]: "split_on c s \<noteq> []"
  by (cases s) (auto split: list.splits)

lemma split_on_no_sep: "c \<notin> set s \<Longrightarrow> split_on c s = [s]"
  by (induction s) auto

lemma split_on_append:
  "c \<notin> set w \<Longrightarrow> split_on c (w @ c # s) = w # split_on c s"
  by (induction w) auto

lemma split_on_join:
  assumes "ws \<noteq> []" "\<forall>w \<in> set ws. c \<notin> set w"
  shows "split_on c (join_with [c] ws) = ws"
  using assms
proof (induction "[c]" ws rule: join_with.induct)
  case (2 w)
  then show ?case by (simp add: split_on_no_sep)
next
  case (3 w v ws)
  then show ?case by (simp add: split_on_append)
qed simp

lemma join_split_on: "join_with [c] (split_on c s) = s"
proof (induction c s rule: split_on.induct)
  case (2 c x xs)
  have join_Cons: "join_with [c] ((x # w) # ws) = x # join_with [c] (w # ws)" for w ws
    by (cases ws) auto
  obtain w ws where "split_on c xs = w # ws" by (cases "split_on c xs") auto
  then show ?case using 2 join_Cons by (cases ws) auto
qed simp

lemma split_on_parts_no_sep: "w \<in> set (split_on c s) \<Longrightarrow> c \<notin> set w"
proof (induction c s arbitrary: w rule: split_on.induct)
  case (2 c x xs)
  then show ?case by (cases "split_on c xs") (auto split: if_splits)
qed simp

lemma starts_with_iff: "starts_with s p \<longleftrightarrow> (\<exists>r. s = p @ r)"
  by (induction s p rule: starts_with.induct) auto

lemma rstrip_id: "s = [] \<or> last s \<noteq> c \<Longrightarrow> rstrip c s = s"
  by (cases s rule: rev_cases) (auto simp: rstrip_def)

lemma rstrip_last: "rstrip c s \<noteq> [] \<Longrightarrow> last (rstrip c s) \<noteq> c"
  using hd_dropWhile [of "\<lambda>x. x = c" "rev s"] by (auto simp: rstrip_def last_rev)

lemma rstrip_idem [simp]: "rstrip c (rstrip c s) = rstrip c s"
  using rstrip_id [of "rstrip c s" c] rstrip_last [of c s] by auto

subsection \<open>Numbers as text\<close>

definition digit_char :: "nat \<Rightarrow> char" where
  "digit_char d = char_of (if d < 10 then d + 48 else d + 87)"

definition is_digit :: "char \<Rightarrow> bool" where
  "is_digit c \<longleftrightarrow> 48 \<le> (of_char c :: nat) \<and> (of_char c :: nat) \<le> 57"

definition digit_val :: "char \<Rightarrow> nat" where
  "digit_val c = of_char c - 48"

fun dec_str :: "nat \<Rightarrow> string" where
  "dec_str n = (if n < 10 then [digit_char n] else dec_str (n div 10) @ [digit_char (n mod 10)])"

declare dec_str.simps [simp del]

definition hex2_str :: "byte \<Rightarrow> string" where
  "hex2_str b = [digit_char (unat b div 16), digit_char (unat b mod 16)]"

fun dec_digits :: "nat \<Rightarrow> string \<Rightarrow> nat option" where
  "dec_digits acc [] = None"
| "dec_digits acc [c] = (if is_digit c then Some (acc * 10 + digit_val c) else None)"
| "dec_digits acc (c # d # cs) =
     (if is_digit c then
        (if d = CHR ''_'' then dec_digits (acc * 10 + digit_val c) cs
         else dec_digits (acc * 10 + digit_val c) (d # cs))
      else None)"

definition is_space :: "char \<Rightarrow> bool" where
  "is_space c \<longleftrightarrow> (let n = of_char c :: nat in n = 32 \<or> (9 \<le> n \<and> n \<le> 13) \<or> (28 \<le> n \<and> n \<le> 31) \<or> n = 133 \<or> n = 160)"

definition trim :: "string \<Rightarrow> string" where
  "trim s = rev (dropWhile is_space (rev (dropWhile is_space s)))"

text \<open>\<open>int(s)\<close>: surrounding white space, one sign, digits with single underscores between.\<close>

definition py_int :: "string \<Rightarrow> int res" where
  "py_int s =
     (let t = trim s;
          (neg, ds) = (case t of [] \<Rightarrow> (False, []) | c # cs \<Rightarrow>
             if c = CHR ''-'' then (True, cs) else if c = CHR ''+'' then (False, cs) else (False, t))
      in case dec_digits 0 ds of
           None \<Rightarrow> Inl ValueError
         | Some n \<Rightarrow> Inr (if neg then - int n else int n))"

lemma digit_char_props:
  assumes "d < 10"
  shows "is_digit (digit_char d)" "digit_val (digit_char d) = d" "digit_char d \<noteq> CHR ''_''"
    "\<not> is_space (digit_char d)" "digit_char d \<noteq> CHR ''-''" "digit_char d \<noteq> CHR ''+''"
    "digit_char d \<noteq> CHR ''.''" "digit_char d \<noteq> CHR ''/''"
proof -
  have "d \<in> {0, 1, 2, 3, 4, 5, 6, 7, 8, 9}" using assms by auto
  then show "is_digit (digit_char d)" "digit_val (digit_char d) = d" "digit_char d \<noteq> CHR ''_''"
    "\<not> is_space (digit_char d)" "digit_char d \<noteq> CHR ''-''" "digit_char d \<noteq> CHR ''+''"
    "digit_char d \<noteq> CHR ''.''" "digit_char d \<noteq> CHR ''/''"
    by (auto simp: is_digit_def digit_val_def is_space_def digit_char_def Let_def of_char_of
        char_of_eq_iff)
qed

lemma dec_str_set: "c \<in> set (dec_str n) \<Longrightarrow> \<exists>d < 10. c = digit_char d"
proof (induction n rule: dec_str.induct)
  case (1 n)
  show ?case
  proof (cases "n < 10")
    case True
    then show ?thesis using "1.prems" by (subst (asm) dec_str.simps) auto
  next
    case False
    have m: "n mod 10 < 10" by simp
    have "c \<in> set (dec_str (n div 10)) \<or> c = digit_char (n mod 10)"
      using "1.prems" False dec_str.simps [of n] by auto
    then show ?thesis using "1.IH" [OF False] m by blast
  qed
qed

lemma dec_str_nonempty [simp]: "dec_str n \<noteq> []"
  by (subst dec_str.simps) simp

lemma dec_digits_snoc:
  "dec_digits a ds = Some m \<Longrightarrow> d < 10 \<Longrightarrow> dec_digits a (ds @ [digit_char d]) = Some (m * 10 + d)"
proof (induction a ds rule: dec_digits.induct)
  case (3 acc c e cs)
  then show ?case by (cases cs) (auto simp: digit_char_props split: if_splits)
qed (auto simp: digit_char_props split: if_splits)

lemma dec_digits_dec_str: "dec_digits 0 (dec_str n) = Some n"
proof (induction n rule: dec_str.induct)
  case (1 n)
  show ?case
  proof (cases "n < 10")
    case True
    then show ?thesis by (subst dec_str.simps) (simp add: digit_char_props)
  next
    case False
    then have "dec_digits 0 (dec_str (n div 10) @ [digit_char (n mod 10)]) = Some (n div 10 * 10 + n mod 10)"
      using 1 by (intro dec_digits_snoc) auto
    then show ?thesis using False by (subst dec_str.simps) simp
  qed
qed

lemma py_int_dec_str: "py_int (dec_str n) = Inr (int n)"
proof -
  have sp: "\<not> is_space c" if "c \<in> set (dec_str n)" for c
    using dec_str_set [OF that] digit_char_props(4) by blast
  have dw: "dropWhile is_space xs = xs" if "\<forall>c \<in> set xs. \<not> is_space c" for xs
    using that by (cases xs) auto
  have t: "trim (dec_str n) = dec_str n"
    unfolding trim_def using dw [of "dec_str n"] dw [of "rev (dec_str n)"] sp by simp
  obtain c cs where c: "dec_str n = c # cs" by (cases "dec_str n") auto
  then obtain d where "d < 10" "c = digit_char d" using dec_str_set [of c n] by auto
  then have "c \<noteq> CHR ''-''" "c \<noteq> CHR ''+''" using digit_char_props by auto
  then show ?thesis
    using dec_digits_dec_str [of n] t [unfolded c] c by (simp add: py_int_def Let_def)
qed

subsection \<open>UTF-8\<close>

text \<open>
  \<open>decode("utf-8", errors="replace")\<close> on strings of code points below 256: what does not decode
  to such a code point reads as a substitute character.
\<close>

definition utf8_char :: "char \<Rightarrow> byte list" where
  "utf8_char c = (let n = of_char c :: int in
     if n < 128 then [word_of_int n] else [word_of_int (0xC0 + n div 64), word_of_int (0x80 + n mod 64)])"

definition utf8_encode :: "string \<Rightarrow> byte list" where
  "utf8_encode s = concat (map utf8_char s)"

fun utf8_decode :: "byte list \<Rightarrow> string" where
  "utf8_decode [] = []"
| "utf8_decode [b] = [if uint b < 128 then char_of (uint b) else CHR 0x1A]"
| "utf8_decode (b # c # bs) =
     (if uint b < 128 then char_of (uint b) # utf8_decode (c # bs)
      else if (uint b = 0xC2 \<or> uint b = 0xC3) \<and> 0x80 \<le> uint c \<and> uint c < 0xC0
      then char_of ((uint b - 0xC0) * 64 + (uint c - 0x80)) # utf8_decode bs
      else CHR 0x1A # utf8_decode (c # bs))"

lemma utf8_decode_char:
  "utf8_decode (utf8_char c @ bs) = c # utf8_decode bs"
proof -
  define n :: int where "n = of_char c"
  have n: "0 \<le> n" "n < 256" by (simp_all add: n_def of_char_def horner_sum_nonnegative)
  have c: "char_of n = c" by (simp add: n_def)
  show ?thesis
  proof (cases "n < 128")
    case True
    then have u: "uint (word_of_int n :: byte) = n" using n by simp
    show ?thesis using True u c by (cases bs) (simp_all add: utf8_char_def n_def [symmetric])
  next
    case False
    then have q: "n div 64 = 2 \<or> n div 64 = 3" "0 \<le> n mod 64" "n mod 64 < 64" "n div 64 * 64 + n mod 64 = n" using n by auto
    have u1: "uint (word_of_int (0xC0 + n div 64) :: byte) = 0xC0 + n div 64"
      by (subst uint_byte_of_int) (use q(1) in auto)
    have u2: "uint (word_of_int (0x80 + n mod 64) :: byte) = 0x80 + n mod 64"
      by (subst uint_byte_of_int) (use q(2,3) in auto)
    have e: "utf8_char c = [word_of_int (0xC0 + n div 64), word_of_int (0x80 + n mod 64)]"
      using False by (simp only: utf8_char_def n_def [symmetric] Let_def if_False)
    show ?thesis
      unfolding e append_Cons append_Nil utf8_decode.simps u1 u2 using q c by auto
  qed
qed

lemma utf8_decode_encode: "utf8_decode (utf8_encode s) = s"
  by (induction s) (auto simp: utf8_encode_def utf8_decode_char)

end
