(* ===== verification/Packets.thy ===== *)
theory Packets
  imports PyString
begin

section \<open>Packet formats: Ethernet, IPv4, TCP\<close>

text \<open>
  Models the encoders and decoders of \<^verbatim>\<open>kernel/net/ethernet.py\<close>,
  \<^verbatim>\<open>kernel/net/ip.py\<close> and the segment class of \<^verbatim>\<open>kernel/net/tcp.py\<close>, with
  the Internet checksum. The round-trip law of an encoder and a decoder is the locale
  \<open>codec\<close>; each layer interprets it and the layers compose.
\<close>

subsection \<open>Packing a sequence of fields\<close>

fun pack_fields :: "(nat \<times> int) list \<Rightarrow> byte list res" where
  "pack_fields [] = Inr []"
| "pack_fields ((n, v) # fs) =
     (case pack_be n v of
        Inl e \<Rightarrow> Inl e
      | Inr b \<Rightarrow> (case pack_fields fs of Inl e \<Rightarrow> Inl e | Inr bs \<Rightarrow> Inr (b @ bs)))"

definition pack_s :: "nat \<Rightarrow> byte list \<Rightarrow> byte list" where
  "pack_s n bs = take n bs @ replicate (n - length bs) 0"

lemma pack_s_exact [simp]: "length bs = n \<Longrightarrow> pack_s n bs = bs"
  by (simp add: pack_s_def)

lemma length_pack_s [simp]: "length (pack_s n bs) = n"
  by (simp add: pack_s_def)

definition fields_ok :: "(nat \<times> int) list \<Rightarrow> bool" where
  "fields_ok fs \<longleftrightarrow> (\<forall>(n, v) \<in> set fs. 0 \<le> v \<and> v < 256 ^ n)"

definition field_bytes :: "(nat \<times> int) list \<Rightarrow> byte list" where
  "field_bytes fs = concat (map (\<lambda>(n, v). be_bytes n v) fs)"

lemma pack_fields_eq:
  "pack_fields fs = (if fields_ok fs then Inr (field_bytes fs) else Inl StructError)"
  by (induction fs rule: pack_fields.induct)
    (auto simp: fields_ok_def field_bytes_def pack_be_def split: sum.splits)

lemma length_field_bytes: "length (field_bytes fs) = sum_list (map fst fs)"
  by (induction fs) (auto simp: field_bytes_def)

subsection \<open>Ethernet frames\<close>

definition ETHERTYPE_IPv4 :: int where "ETHERTYPE_IPv4 = 0x0800"
definition ETHERTYPE_ARP :: int where "ETHERTYPE_ARP = 0x0806"
definition ETHERTYPE_IPv6 :: int where "ETHERTYPE_IPv6 = 0x86DD"
definition BROADCAST_MAC :: "byte list" where "BROADCAST_MAC = replicate 6 0xFF"
definition ZERO_MAC :: "byte list" where "ZERO_MAC = replicate 6 0"

record EtherFrame =
  eth_dst :: "byte list"
  eth_src :: "byte list"
  ethertype :: int
  eth_payload :: "byte list"

definition ether_decode :: "byte list \<Rightarrow> EtherFrame res" where
  "ether_decode raw =
     (if length raw < 14 then Inl ValueError
      else case unpack_be 2 (slice raw 12 14) of
             Inl e \<Rightarrow> Inl e
           | Inr t \<Rightarrow> Inr \<lparr>eth_dst = slice raw 0 6, eth_src = slice raw 6 12, ethertype = t,
                          eth_payload = slice_from raw 14\<rparr>)"

definition ether_encode :: "EtherFrame \<Rightarrow> byte list res" where
  "ether_encode f =
     (case pack_be 2 (ethertype f) of
        Inl e \<Rightarrow> Inl e
      | Inr t \<Rightarrow> Inr (eth_dst f @ eth_src f @ t @ eth_payload f))"

definition mac_str :: "byte list \<Rightarrow> string" where
  "mac_str mac = join_with '':'' (map hex2_str mac)"

subsection \<open>The Internet checksum\<close>

fun be16s :: "byte list \<Rightarrow> nat list" where
  "be16s (a # b # bs) = nat (be_val [a, b]) # be16s bs"
| "be16s bs = []"

lemma and_mask_nat: "s AND 0xFFFF = s mod 65536" for s :: nat
  using take_bit_eq_mask [of 16 s] by (simp add: take_bit_eq_mod mask_eq_exp_minus_1)

lemma fold_once:
  fixes s :: nat
  assumes "65536 \<le> s"
  shows "s mod 65536 + s div 65536 < s" "0 < s mod 65536 + s div 65536"
    "(s mod 65536 + s div 65536) mod 65535 = s mod 65535"
proof -
  define d m where "d = s div 65536" and "m = s mod 65536"
  have s: "s = 65536 * d + m" by (simp add: d_def m_def)
  have "0 < d" using assms by (simp add: d_def div_greater_zero_iff)
  then show "s mod 65536 + s div 65536 < s" "0 < s mod 65536 + s div 65536"
    unfolding d_def [symmetric] m_def [symmetric] by (simp_all add: s)
  have "s = m + d + 65535 * d" by (simp add: s)
  then have "s mod 65535 = (m + d) mod 65535" by (metis mod_mult_self2)
  then show "(s mod 65536 + s div 65536) mod 65535 = s mod 65535"
    unfolding d_def m_def by simp
qed

function fold16 :: "nat \<Rightarrow> nat" where
  "fold16 s = (if drop_bit 16 s \<noteq> 0 then fold16 ((s AND 0xFFFF) + drop_bit 16 s) else s)"
  by pat_completeness auto
termination
proof (relation "measure id")
  fix s :: nat
  assume "drop_bit 16 s \<noteq> 0"
  then have "65536 \<le> s" by (simp add: drop_bit_eq_div div_eq_0_iff)
  then show "((s AND 0xFFFF) + drop_bit 16 s, s) \<in> measure id"
    using fold_once(1) by (simp add: drop_bit_eq_div and_mask_nat)
qed simp

declare fold16.simps [simp del]

definition inet_cksum :: "byte list \<Rightarrow> int" where
  "inet_cksum data =
     (let data = (if length data mod 2 \<noteq> 0 then data @ [0] else data);
          s = sum_list (be16s data)
      in NOT (int (fold16 s)) AND 0xFFFF)"

subsection \<open>IPv4 packets\<close>

definition PROTO_ICMP :: int where "PROTO_ICMP = 1"
definition PROTO_TCP :: int where "PROTO_TCP = 6"
definition PROTO_UDP :: int where "PROTO_UDP = 17"

record IPv4Packet =
  ip_src :: "byte list"
  ip_dst :: "byte list"
  ip_proto :: int
  ip_ttl :: int
  ip_payload :: "byte list"
  ip_tos :: int
  ip_flags :: int

definition ipv4_decode :: "byte list \<Rightarrow> IPv4Packet res" where
  "ipv4_decode raw =
     (if length raw < 20 then Inl ValueError
      else let ihl = (uint (raw ! 0) AND 0x0F) * 4; tos = uint (raw ! 1)
           in case unpack_be 2 (slice raw 2 4) of
                Inl e \<Rightarrow> Inl e
              | Inr total_len \<Rightarrow>
                  (case unpack_be 2 (slice raw 6 8) of
                     Inl e \<Rightarrow> Inl e
                   | Inr flags_frag \<Rightarrow>
                       Inr \<lparr>ip_src = slice raw 12 16, ip_dst = slice raw 16 20,
                            ip_proto = uint (raw ! 9), ip_ttl = uint (raw ! 8),
                            ip_payload = slice raw ihl total_len, ip_tos = tos,
                            ip_flags = flags_frag\<rparr>))"

text \<open>The encoder runs over the module's packet counter \<open>_ip_id\<close>.\<close>

definition ipv4_encode :: "IPv4Packet \<Rightarrow> (int, byte list) io" where
  "ipv4_encode p ip_id =
     (let ip_id = (ip_id + 1) AND 0xFFFF;
          fields = pack_fields [(1, 0x45), (1, ip_tos p), (2, 20 + int (length (ip_payload p))),
            (2, ip_id), (2, ip_flags p), (1, ip_ttl p), (1, ip_proto p), (2, 0)]
      in case fields of
           Inl e \<Rightarrow> (Inl e, ip_id)
         | Inr bs \<Rightarrow>
             (let header = bs @ pack_s 4 (ip_src p) @ pack_s 4 (ip_dst p)
              in case pack_be 2 (inet_cksum header) of
                   Inl e \<Rightarrow> (Inl e, ip_id)
                 | Inr c \<Rightarrow> (Inr (slice header 0 10 @ c @ slice_from header 12 @ ip_payload p), ip_id)))"

definition ip_str :: "byte list \<Rightarrow> string" where
  "ip_str addr = join_with ''.'' (map (\<lambda>b. dec_str (unat b)) addr)"

fun bytes_of :: "int res list \<Rightarrow> byte list res" where
  "bytes_of [] = Inr []"
| "bytes_of (Inl e # rs) = Inl e"
| "bytes_of (Inr v # rs) =
     (if 0 \<le> v \<and> v < 256
      then (case bytes_of rs of Inl e \<Rightarrow> Inl e | Inr bs \<Rightarrow> Inr (word_of_int v # bs))
      else Inl ValueError)"

definition ip_from_str :: "string \<Rightarrow> byte list res" where
  "ip_from_str s = bytes_of (map py_int (split_on (CHR ''.'') s))"

subsection \<open>TCP segments\<close>

definition F_FIN :: int where "F_FIN = 0x01"
definition F_SYN :: int where "F_SYN = 0x02"
definition F_RST :: int where "F_RST = 0x04"
definition F_PSH :: int where "F_PSH = 0x08"
definition F_ACK :: int where "F_ACK = 0x10"
definition F_URG :: int where "F_URG = 0x20"

record TCPSegment =
  src_port :: int
  dst_port :: int
  seq :: int
  ack :: int
  flags :: int
  window :: int
  seg_payload :: "byte list"

definition tcp_decode :: "byte list \<Rightarrow> TCPSegment option" where
  "tcp_decode raw =
     (if length raw < 20 then None
      else let off_flags = be_val (slice raw 12 14)
           in Some \<lparr>src_port = be_val (slice raw 0 2), dst_port = be_val (slice raw 2 4),
                    seq = be_val (slice raw 4 8), ack = be_val (slice raw 8 12),
                    flags = off_flags AND 0x1FF, window = be_val (slice raw 14 16),
                    seg_payload = slice_from raw (drop_bit 12 off_flags * 4)\<rparr>)"

definition tcp_encode :: "TCPSegment \<Rightarrow> byte list \<Rightarrow> byte list \<Rightarrow> byte list res" where
  "tcp_encode s src_ip dst_ip =
     (case pack_fields [(1, 0), (1, PROTO_TCP), (4, 20 + int (length (seg_payload s)))] of
        Inl e \<Rightarrow> Inl e
      | Inr p \<Rightarrow>
          (case pack_fields [(2, src_port s), (2, dst_port s), (4, seq s), (4, ack s),
                  (2, push_bit 12 5 OR flags s), (2, window s), (2, 0), (2, 0), (2, 0)] of
             Inl e \<Rightarrow> Inl e
           | Inr h \<Rightarrow>
               (let pseudo = src_ip @ dst_ip @ p; header = slice h 0 20
                in case pack_be 2 (inet_cksum (pseudo @ header @ seg_payload s)) of
                     Inl e \<Rightarrow> Inl e
                   | Inr c \<Rightarrow> Inr (slice header 0 16 @ c @ slice_from header 18 @ seg_payload s))))"

subsection \<open>The checksum is one's-complement arithmetic\<close>

lemma fold16_step: "65536 \<le> s \<Longrightarrow> fold16 s = fold16 (s mod 65536 + s div 65536)"
  by (subst fold16.simps) (simp add: drop_bit_eq_div div_eq_0_iff and_mask_nat)

lemma fold16_stop: "s < 65536 \<Longrightarrow> fold16 s = s"
  by (subst fold16.simps) (simp add: drop_bit_eq_div)

lemma fold16_spec: "fold16 s < 65536 \<and> fold16 s mod 65535 = s mod 65535 \<and> (0 < s \<longrightarrow> 0 < fold16 s)"
proof (induction s rule: less_induct)
  case (less s)
  show ?case
  proof (cases "65536 \<le> s")
    case True
    then show ?thesis
      using less.IH [OF fold_once(1) [OF True]] fold_once [OF True] by (simp add: fold16_step)
  next
    case False
    then show ?thesis by (simp add: fold16_stop)
  qed
qed

definition sum16 :: "byte list \<Rightarrow> nat" where
  "sum16 data = sum_list (be16s (if length data mod 2 \<noteq> 0 then data @ [0] else data))"

lemma inet_cksum_eq: "inet_cksum data = 65535 - int (fold16 (sum16 data))"
proof -
  let ?f = "fold16 (sum16 data)"
  have "?f < 65536" using fold16_spec by simp
  then have "(65535 - int ?f) mod 65536 = 65535 - int ?f" by simp
  then have "(- int ?f - 1) mod 65536 = 65535 - int ?f"
    using mod_add_self2 [of "- int ?f - 1" 65536] by (simp add: algebra_simps)
  then show ?thesis
    by (simp add: inet_cksum_def sum16_def Let_def and_mask_mod not_eq_complement algebra_simps)
qed

lemma inet_cksum_bounds: "0 \<le> inet_cksum data \<and> inet_cksum data < 65536"
  using fold16_spec [of "sum16 data"] by (auto simp: inet_cksum_eq)

lemma inet_cksum_range [simp]: "0 \<le> inet_cksum data" "inet_cksum data < 65536"
  using inet_cksum_bounds by simp_all

lemma be16s_append: "even (length a) \<Longrightarrow> be16s (a @ b) = be16s a @ be16s b"
  by (induction a rule: be16s.induct) auto

lemma sum16_append: "even (length a) \<Longrightarrow> sum16 (a @ b) = sum16 a + sum16 b"
  by (auto simp: sum16_def be16s_append even_iff_mod_2_eq_zero)

lemma sum16_zero_word: "even (length a) \<Longrightarrow> sum16 (a @ [0, 0] @ b) = sum16 (a @ b)"
proof -
  assume "even (length a)"
  moreover have "sum16 [0, 0] = 0" by (simp add: sum16_def be_val_def)
  moreover have "even (length [0 :: byte, 0])" by simp
  ultimately show ?thesis by (metis sum16_append add_0)
qed

lemma sum16_field: "sum16 (be_bytes 2 v) = nat (v mod 65536)"
proof -
  obtain a b where ab: "be_bytes 2 v = [a, b]"
    by (metis (no_types) One_nat_def Suc_1 length_be_bytes length_Suc_conv length_0_conv)
  then have "be_val [a, b] = v mod 65536" using be_val_bytes [of 2 v] by simp
  with ab show ?thesis by (simp add: sum16_def)
qed

text \<open>Writing the checksum into its zeroed field makes the whole sum check out.\<close>

lemma cksum_verifies:
  assumes "even (length pre)"
  shows "inet_cksum (pre @ be_bytes 2 (inet_cksum (pre @ be_bytes 2 0 @ post)) @ post) = 0"
proof -
  let ?s = "sum16 (pre @ be_bytes 2 0 @ post)"
  let ?c = "inet_cksum (pre @ be_bytes 2 0 @ post)"
  have s: "?s = sum16 pre + sum16 post"
    using assms by (simp add: sum16_append sum16_field)
  have c: "0 \<le> ?c" "?c < 65536" "?c = 65535 - int (fold16 ?s)"
    using inet_cksum_bounds by (auto simp: inet_cksum_eq)
  have f: "fold16 ?s \<le> 65535" "fold16 ?s mod 65535 = ?s mod 65535" "0 < ?s \<longrightarrow> 0 < fold16 ?s"
    using fold16_spec [of ?s] by auto
  let ?t = "sum16 (pre @ be_bytes 2 ?c @ post)"
  have t: "?t = ?s + (65535 - fold16 ?s)"
    using assms c f(1) by (simp add: sum16_append sum16_field s nat_diff_distrib)
  have "?t mod 65535 = (fold16 ?s + (65535 - fold16 ?s)) mod 65535"
    unfolding t using f(2) by (metis mod_add_left_eq)
  then have "?t mod 65535 = 0" using f(1) by simp
  moreover have "0 < ?t"
    using f by (cases "?s = 0") (auto simp: t fold16_stop)
  ultimately have "fold16 ?t mod 65535 = 0" "0 < fold16 ?t" "fold16 ?t < 65536"
    using fold16_spec [of ?t] by auto
  then have "fold16 ?t = 65535"
    by (cases "fold16 ?t < 65535") auto
  then show ?thesis by (simp add: inet_cksum_eq)
qed

subsection \<open>Round trips\<close>

locale codec =
  fixes enc :: "'a \<Rightarrow> 'b res"
    and dec :: "'b \<Rightarrow> 'a res"
    and ok :: "'a \<Rightarrow> bool"
  assumes dec_enc: "ok x \<Longrightarrow> enc x = Inr b \<Longrightarrow> dec b = Inr x"
begin

lemma enc_injective: "ok x \<Longrightarrow> ok y \<Longrightarrow> enc x = Inr b \<Longrightarrow> enc y = Inr b \<Longrightarrow> x = y"
  using dec_enc by (metis sum.inject(2))

end

lemmas slice_take_drop = slice_nat slice_from_nat take_append drop_append

definition ether_ok :: "EtherFrame \<Rightarrow> bool" where
  "ether_ok f \<longleftrightarrow> length (eth_dst f) = 6 \<and> length (eth_src f) = 6"

definition ip_ok :: "IPv4Packet \<Rightarrow> bool" where
  "ip_ok p \<longleftrightarrow> length (ip_src p) = 4 \<and> length (ip_dst p) = 4"

definition tcp_ok :: "TCPSegment \<Rightarrow> bool" where
  "tcp_ok s \<longleftrightarrow> 0 \<le> flags s \<and> flags s < 512"

lemma ether_roundtrip: "ether_ok f \<Longrightarrow> ether_encode f = Inr raw \<Longrightarrow> ether_decode raw = Inr f"
  by (auto simp: ether_ok_def ether_encode_def ether_decode_def pack_be_def unpack_be_def
      slice_take_drop be_val_bytes split: if_splits)

lemma ether_encode_of_decode:
  assumes "ether_decode raw = Inr f"
  shows "ether_encode f = Inr raw" "ether_ok f"
proof -
  have n: "14 \<le> length raw" using assms by (auto simp: ether_decode_def split: if_splits)
  have f: "f = \<lparr>eth_dst = take 6 raw, eth_src = take 6 (drop 6 raw),
      ethertype = be_val (take 2 (drop 12 raw)), eth_payload = drop 14 raw\<rparr>"
    using assms n by (auto simp: ether_decode_def unpack_be_def slice_take_drop split: if_splits)
  let ?t = "take 2 (drop 12 raw)"
  have t: "length ?t = 2" using n by simp
  have "raw = take 6 raw @ take 6 (drop 6 raw) @ ?t @ drop 14 raw"
    using drop_split [of 6 raw 6] drop_split [of 12 raw 2] append_take_drop_id [of 6 raw] by simp
  then show "ether_encode f = Inr raw" "ether_ok f"
    using be_val_bounds [of ?t] t n be_bytes_val [OF t]
    by (simp_all add: f ether_encode_def pack_be_def ether_ok_def)
qed

interpretation eth: codec ether_encode ether_decode ether_ok
  by unfold_locales (rule ether_roundtrip)

lemma ipv4_encode_eq:
  assumes "ip_ok p" "ipv4_encode p ip_id = (Inr raw, ip_id')"
  defines "pre \<equiv> field_bytes [(1, 0x45), (1, ip_tos p), (2, 20 + int (length (ip_payload p))),
            (2, (ip_id + 1) mod 65536), (2, ip_flags p), (1, ip_ttl p), (1, ip_proto p)]"
    and "post \<equiv> ip_src p @ ip_dst p"
  shows "raw = (pre @ be_bytes 2 (inet_cksum (pre @ be_bytes 2 0 @ post)) @ post) @ ip_payload p"
    and "length pre = 10" and "length post = 8" and "ip_id' = (ip_id + 1) mod 65536"
    and "fields_ok [(1, ip_tos p), (2, 20 + int (length (ip_payload p))), (2, ip_flags p),
           (1, ip_ttl p), (1, ip_proto p)]"
proof -
  let ?fs = "[(1, 0x45), (1, ip_tos p), (2, 20 + int (length (ip_payload p))),
            (2, (ip_id + 1) mod 65536), (2, ip_flags p), (1, ip_ttl p), (1, ip_proto p), (2::nat, 0::int)]"
  have fo: "fields_ok ?fs" and id: "ip_id' = (ip_id + 1) mod 65536"
    using assms(2) unfolding ipv4_encode_def Let_def and_mask_mod
    by (auto simp: pack_fields_eq split: if_splits sum.splits)
  show "length pre = 10" "length post = 8"
    using assms(1) by (simp_all add: pre_def post_def length_field_bytes ip_ok_def)
  have hdr: "field_bytes ?fs = pre @ be_bytes 2 0" by (simp add: pre_def field_bytes_def)
  show "raw = (pre @ be_bytes 2 (inet_cksum (pre @ be_bytes 2 0 @ post)) @ post) @ ip_payload p"
    using assms(1,2) fo inet_cksum_bounds [of "pre @ be_bytes 2 0 @ post"] \<open>length pre = 10\<close>
    unfolding ipv4_encode_def Let_def and_mask_mod pack_fields_eq hdr
    by (auto simp: pack_be_def ip_ok_def post_def slice_take_drop split: if_splits)
  show "ip_id' = (ip_id + 1) mod 65536" by (fact id)
  show "fields_ok [(1, ip_tos p), (2, 20 + int (length (ip_payload p))), (2, ip_flags p),
           (1, ip_ttl p), (1, ip_proto p)]"
    using fo by (simp add: fields_ok_def)
qed

lemma ipv4_roundtrip:
  assumes "ip_ok p" "ipv4_encode p ip_id = (Inr raw, ip_id')"
  shows "ipv4_decode raw = Inr p"
proof -
  note e = ipv4_encode_eq [OF assms]
  show ?thesis
    using e(5) assms(1) unfolding e(1)
    by (simp add: ipv4_decode_def field_bytes_def fields_ok_def ip_ok_def slice_take_drop
        unpack_be_def be_val_bytes Let_def nat_add_distrib nth_append)
qed

lemma ipv4_header_checksum:
  assumes "ip_ok p" "ipv4_encode p ip_id = (Inr raw, ip_id')"
  shows "inet_cksum (take 20 raw) = 0"
proof -
  note e = ipv4_encode_eq [OF assms]
  show ?thesis
    unfolding e(1) using e(2,3) cksum_verifies by simp
qed

interpretation ip: codec "\<lambda>p. fst (ipv4_encode p ip_id)" ipv4_decode ip_ok for ip_id
  by unfold_locales (metis ipv4_roundtrip prod.collapse)

lemma offset_flags:
  fixes f :: int
  assumes "0 \<le> f" "f < 512"
  shows "push_bit 12 5 OR f = 20480 + f" "(20480 + f) AND 0x1FF = f" "drop_bit 12 (20480 + f) = 5"
proof -
  have f: "f = take_bit 12 f" using assms by (simp add: take_bit_eq_mod)
  have "push_bit 12 k AND take_bit 12 f = 0" for k :: int
    by (rule bit_eqI) (auto simp: bit_simps)
  then have "push_bit 12 (5::int) + f = push_bit 12 5 OR f"
    using disjunctive_add_eq_or [of "push_bit 12 5" "take_bit 12 f"] f by metis
  then show "push_bit 12 5 OR f = 20480 + f" by simp
  have "(20480 + f) AND mask 9 = take_bit 9 (20480 + f)" by (simp add: take_bit_eq_mask)
  then show "(20480 + f) AND 0x1FF = f"
    using assms mod_mult_self2 [of f 512 40]
    by (simp add: mask_eq_exp_minus_1 take_bit_eq_mod add.commute)
  show "drop_bit 12 (20480 + f) = 5" using assms by (simp add: drop_bit_eq_div)
qed

lemma tcp_encode_eq:
  assumes "tcp_ok s" "tcp_encode s src dst = Inr raw"
  defines "pre \<equiv> field_bytes [(2, src_port s), (2, dst_port s), (4, seq s), (4, ack s),
      (2, 20480 + flags s), (2, window s)]"
    and "pseudo \<equiv> src @ dst @ field_bytes [(1, 0), (1, 6), (4, 20 + int (length (seg_payload s)))]"
    and "post \<equiv> be_bytes 2 0 @ seg_payload s"
  shows "raw = pre @ be_bytes 2 (inet_cksum ((pseudo @ pre) @ be_bytes 2 0 @ post)) @ post"
    and "length pre = 16"
    and "fields_ok [(2, src_port s), (2, dst_port s), (4, seq s), (4, ack s),
      (2, 20480 + flags s), (2, window s)]"
proof -
  let ?fs = "[(2, src_port s), (2, dst_port s), (4, seq s), (4, ack s),
      (2, 20480 + flags s), (2, window s), (2::nat, 0::int), (2, 0), (2, 0)]"
  have fl: "push_bit 12 5 OR flags s = 20480 + flags s"
    using assms(1) offset_flags(1) by (simp add: tcp_ok_def)
  have fo: "fields_ok ?fs" and ps: "fields_ok [(1, 0), (1, 6), (4, 20 + int (length (seg_payload s)))]"
    using assms(2) unfolding tcp_encode_def fl pack_fields_eq PROTO_TCP_def
    by (auto split: if_splits sum.splits)
  show len: "length pre = 16" by (simp add: pre_def length_field_bytes)
  have hdr: "field_bytes ?fs = pre @ be_bytes 2 0 @ be_bytes 2 0 @ be_bytes 2 0"
    by (simp add: pre_def field_bytes_def)
  let ?c = "inet_cksum ((pseudo @ pre) @ be_bytes 2 0 @ post)"
  have "raw = pre @ be_bytes 2 ?c @ post"
    using assms(2) fo ps len inet_cksum_bounds [of "(pseudo @ pre) @ be_bytes 2 0 @ post"]
    unfolding tcp_encode_def fl pack_fields_eq hdr PROTO_TCP_def
    by (simp add: Let_def pack_be_def slice_take_drop pseudo_def post_def)
  then show "raw = pre @ be_bytes 2 ?c @ post" .
  show "fields_ok [(2, src_port s), (2, dst_port s), (4, seq s), (4, ack s),
      (2, 20480 + flags s), (2, window s)]"
    using fo by (simp add: fields_ok_def)
qed

lemma tcp_roundtrip:
  assumes "tcp_ok s" "tcp_encode s src dst = Inr raw"
  shows "tcp_decode raw = Some s"
proof -
  note e = tcp_encode_eq [OF assms]
  have fl: "(20480 + flags s) AND 0x1FF = flags s" "drop_bit 12 (20480 + flags s) = 5"
    using assms(1) offset_flags by (simp_all add: tcp_ok_def)
  show ?thesis
    using e(3) fl unfolding e(1)
    by (simp add: tcp_decode_def field_bytes_def fields_ok_def slice_take_drop be_val_bytes Let_def)
qed

interpretation tc: codec "\<lambda>s. tcp_encode s src dst"
    "\<lambda>raw. case tcp_decode raw of None \<Rightarrow> Inl ValueError | Some s \<Rightarrow> Inr s" tcp_ok for src dst
  by unfold_locales (simp add: tcp_roundtrip)

text \<open>
  The encoder packs the segment length of the pseudo header as a 32-bit field; for lengths
  that fit sixteen bits the sum is that of the standard twelve-byte pseudo header.
\<close>

lemma be_bytes_high_zero:
  assumes "0 \<le> v" "v < 65536"
  shows "be_bytes 4 v = [0, 0] @ be_bytes 2 v"
  using assms by (simp add: be_bytes_def numeral_eq_Suc)

lemma tcp_checksum:
  assumes "tcp_ok s" "tcp_encode s src dst = Inr raw" "length src = 4" "length dst = 4"
    "length raw < 65536"
  shows "inet_cksum (src @ dst @ [0, 6] @ be_bytes 2 (int (length raw)) @ raw) = 0"
proof -
  let ?pre = "field_bytes [(2, src_port s), (2, dst_port s), (4, seq s), (4, ack s),
      (2, 20480 + flags s), (2, window s)]"
  let ?post = "be_bytes 2 0 @ seg_payload s"
  let ?n = "20 + int (length (seg_payload s))"
  let ?p4 = "src @ dst @ field_bytes [(1, 0), (1, 6), (4, ?n)]"
  let ?p2 = "src @ dst @ [0, 6] @ be_bytes 2 ?n"
  note e = tcp_encode_eq [OF assms(1,2)]
  have n: "int (length raw) = ?n" unfolding e(1) using e(2) by simp
  have p4: "?p4 = (src @ dst @ [0, 6]) @ [0, 0] @ be_bytes 2 ?n"
    using n assms(5) be_bytes_high_zero [of ?n] by (simp add: field_bytes_def)
  have ev: "even (length (src @ dst @ [0, 6 :: byte]))" using assms(3,4) by simp
  have "sum16 (?p4 @ xs) = sum16 (?p2 @ xs)" for xs
    unfolding p4 append_assoc using sum16_zero_word [OF ev, of "be_bytes 2 ?n @ xs"] by simp
  then have eq: "inet_cksum (?p4 @ xs) = inet_cksum (?p2 @ xs)" for xs
    by (simp add: inet_cksum_eq)
  have "inet_cksum ((?p4 @ ?pre) @ be_bytes 2 (inet_cksum ((?p4 @ ?pre) @ be_bytes 2 0 @ ?post)) @ ?post) = 0"
    by (rule cksum_verifies) (use e(2) assms(3,4) in \<open>simp add: length_field_bytes\<close>)
  then have "inet_cksum (?p4 @ raw) = 0" unfolding e(1) by simp
  then show ?thesis using eq [of raw] n by simp
qed

subsection \<open>What the wire formats guarantee\<close>

text \<open>The ranges a segment or packet built by the kernel respects.\<close>

definition seg_fits :: "TCPSegment \<Rightarrow> bool" where
  "seg_fits s \<longleftrightarrow> 0 \<le> src_port s \<and> src_port s < 65536 \<and> 0 \<le> dst_port s \<and> dst_port s < 65536
     \<and> 0 \<le> seq s \<and> seq s < 2 ^ 32 \<and> 0 \<le> ack s \<and> ack s < 2 ^ 32
     \<and> 0 \<le> flags s \<and> flags s < 512 \<and> 0 \<le> window s \<and> window s < 65536
     \<and> length (seg_payload s) < 65516"

definition packet_fits :: "IPv4Packet \<Rightarrow> bool" where
  "packet_fits p \<longleftrightarrow> length (ip_src p) = 4 \<and> length (ip_dst p) = 4
     \<and> 0 \<le> ip_proto p \<and> ip_proto p < 256 \<and> 0 \<le> ip_ttl p \<and> ip_ttl p < 256
     \<and> 0 \<le> ip_tos p \<and> ip_tos p < 256 \<and> 0 \<le> ip_flags p \<and> ip_flags p < 65536
     \<and> length (ip_payload p) < 65516"

lemma tcp_encode_total:
  assumes "seg_fits s"
  shows "\<exists>raw. tcp_encode s src dst = Inr raw"
proof -
  have "push_bit 12 5 OR flags s = 20480 + flags s"
    using assms offset_flags(1) by (simp add: seg_fits_def)
  then show ?thesis
    using assms
    by (simp add: tcp_encode_def pack_fields_eq fields_ok_def seg_fits_def PROTO_TCP_def pack_be_def
        Let_def)
qed

lemma ipv4_encode_total:
  assumes "packet_fits p"
  shows "\<exists>raw. ipv4_encode p ip_id = (Inr raw, (ip_id + 1) mod 65536)"
  using assms
  by (simp add: ipv4_encode_def pack_fields_eq fields_ok_def packet_fits_def pack_be_def
      Let_def and_mask_mod)

text \<open>
  C13. Every TCP segment whose fields fit encodes to a twenty-byte header and its payload;
  decoding the bytes gives the segment back, and the checksum over the standard
  pseudo header and the bytes verifies.
\<close>

theorem tcp_segment_wire:
  assumes "seg_fits s" and "length src = 4" and "length dst = 4"
  shows "\<exists>raw. tcp_encode s src dst = Inr raw \<and> length raw = 20 + length (seg_payload s)
    \<and> tcp_decode raw = Some s
    \<and> inet_cksum (src @ dst @ [0, 6] @ be_bytes 2 (int (length raw)) @ raw) = 0"
proof -
  obtain raw where raw: "tcp_encode s src dst = Inr raw" using tcp_encode_total [OF assms(1)] by blast
  have ok: "tcp_ok s" using assms(1) by (simp add: tcp_ok_def seg_fits_def)
  have len: "length raw = 20 + length (seg_payload s)"
    using tcp_encode_eq(1,2) [OF ok raw] by simp
  then have "length raw < 65536" using assms(1) by (simp add: seg_fits_def)
  then show ?thesis
    using raw len tcp_roundtrip [OF ok raw] tcp_checksum [OF ok raw assms(2,3)] by blast
qed

theorem tcp_segment_wire_witness:
  "\<exists>raw. tcp_encode \<lparr>src_port = 5000, dst_port = 49152, seq = 7, ack = 9, flags = 0x18,
      window = 65535, seg_payload = [1, 2, 3]\<rparr> [10, 0, 2, 15] [10, 0, 2, 2] = Inr raw \<and> length raw = 23
    \<and> tcp_decode raw = Some \<lparr>src_port = 5000, dst_port = 49152, seq = 7, ack = 9, flags = 0x18,
      window = 65535, seg_payload = [1, 2, 3]\<rparr>"
  using tcp_segment_wire [of "\<lparr>src_port = 5000, dst_port = 49152, seq = 7, ack = 9, flags = 0x18,
      window = 65535, seg_payload = [1, 2, 3]\<rparr>" "[10, 0, 2, 15]" "[10, 0, 2, 2]"]
  by (auto simp: seg_fits_def)

text \<open>
  C14. Every IPv4 packet whose fields fit encodes, advancing the identification counter by one
  modulo 65536; decoding the bytes gives the packet back and its header checksum verifies.
\<close>

theorem ipv4_packet_wire:
  assumes "packet_fits p"
  shows "\<exists>raw. ipv4_encode p ip_id = (Inr raw, (ip_id + 1) mod 65536)
    \<and> length raw = 20 + length (ip_payload p) \<and> ipv4_decode raw = Inr p
    \<and> inet_cksum (take 20 raw) = 0"
proof -
  obtain raw where raw: "ipv4_encode p ip_id = (Inr raw, (ip_id + 1) mod 65536)"
    using ipv4_encode_total [OF assms] by blast
  have ok: "ip_ok p" using assms by (simp add: ip_ok_def packet_fits_def)
  have "length raw = 20 + length (ip_payload p)"
    using ipv4_encode_eq(1,2,3) [OF ok raw] by simp
  then show ?thesis using raw ipv4_roundtrip [OF ok raw] ipv4_header_checksum [OF ok raw] by blast
qed

theorem ipv4_packet_wire_witness:
  "\<exists>raw. ipv4_encode \<lparr>ip_src = [10, 0, 2, 15], ip_dst = [10, 0, 2, 2], ip_proto = 6, ip_ttl = 64,
      ip_payload = [1, 2, 3], ip_tos = 0, ip_flags = 0x4000\<rparr> 65535 = (Inr raw, 0) \<and> length raw = 23"
  using ipv4_packet_wire [of "\<lparr>ip_src = [10, 0, 2, 15], ip_dst = [10, 0, 2, 2], ip_proto = 6, ip_ttl = 64,
      ip_payload = [1, 2, 3], ip_tos = 0, ip_flags = 0x4000\<rparr>" 65535]
  by (auto simp: packet_fits_def)

text \<open>
  C15. Decoding an Ethernet frame is the exact inverse of encoding one with six-byte
  addresses, and only frames shorter than a header are refused.
\<close>

theorem ether_codec_exact:
  "(ether_decode raw = Inr f) = (ether_encode f = Inr raw \<and> ether_ok f)
   \<and> (length raw < 14) = (ether_decode raw = Inl ValueError)
   \<and> (14 \<le> length raw) = (\<exists>g. ether_decode raw = Inr g)"
proof (intro conjI)
  show "(ether_decode raw = Inr f) = (ether_encode f = Inr raw \<and> ether_ok f)"
    using ether_roundtrip ether_encode_of_decode by blast
  show "(length raw < 14) = (ether_decode raw = Inl ValueError)"
    and "(14 \<le> length raw) = (\<exists>g. ether_decode raw = Inr g)"
    by (simp_all add: ether_decode_def unpack_be_def slice_take_drop)
qed

text \<open>C19. Printing an IPv4 address in dotted form and parsing it gives the address back.\<close>

theorem ip_str_roundtrip:
  assumes "addr \<noteq> []"
  shows "ip_from_str (ip_str addr) = Inr addr"
proof -
  let ?ws = "map (\<lambda>b. dec_str (unat b)) addr"
  have "\<forall>w \<in> set ?ws. CHR ''.'' \<notin> set w"
    using dec_str_set digit_char_props(7) by fastforce
  then have sp: "split_on (CHR ''.'') (ip_str addr) = ?ws"
    unfolding ip_str_def using assms by (intro split_on_join) auto
  have "bytes_of (map (\<lambda>b. Inr (int (unat b))) bs) = Inr bs" for bs :: "byte list"
  proof (induction bs)
    case (Cons b bs)
    have "uint b < 2 ^ LENGTH(8)" by (rule uint_lt2p)
    with Cons show ?case by simp
  qed simp
  then show ?thesis by (simp add: ip_from_str_def sp comp_def py_int_dec_str)
qed

theorem ip_str_roundtrip_witness: "ip_from_str (ip_str [10, 0, 2, 15]) = Inr [10, 0, 2, 15]"
  using ip_str_roundtrip [of "[10, 0, 2, 15]"] by simp

end
