(* ===== verification/Arp.thy ===== *)
theory Arp
  imports Packets
begin

section \<open>Address resolution\<close>

text \<open>
  Models the \<open>ARPTable\<close> of \<^verbatim>\<open>kernel/net/arp.py\<close>. The two dictionaries are
  association lists; the futures a resolver waits on live in a heap of their own and are named
  by their position in it. \<open>resolve\<close> is a coroutine and is split where it awaits: \<open>arp_resolve\<close>
  runs up to the await, \<open>arp_resolve_resume\<close> from there, and \<open>arp_resolve_timeout\<close> is the
  branch taken when \<open>wait_for\<close> raises. What a client of the table relies on is the locale
  \<open>neighbour_cache\<close>.
\<close>

definition ARP_REQUEST :: int where "ARP_REQUEST = 1"
definition ARP_REPLY :: int where "ARP_REPLY = 2"

datatype 'a fut = FutPending | FutResult 'a | FutError py_error

record ARPTable =
  arp_map :: "(byte list \<times> byte list) list"
  arp_pending :: "(byte list \<times> nat) list"
  arp_futs :: "byte list fut list"

definition arp_empty :: ARPTable where
  "arp_empty = \<lparr>arp_map = [], arp_pending = [], arp_futs = []\<rparr>"

definition arp_learn :: "byte list \<Rightarrow> byte list \<Rightarrow> ARPTable \<Rightarrow> ARPTable" where
  "arp_learn ip mac t =
     (let t = t\<lparr>arp_map := AList.update ip mac (arp_map t)\<rparr>
      in case map_of (arp_pending t) ip of
           None \<Rightarrow> t
         | Some f \<Rightarrow>
             (let t = t\<lparr>arp_pending := AList.delete ip (arp_pending t)\<rparr>
              in if arp_futs t ! f = FutPending
                 then t\<lparr>arp_futs := (arp_futs t)[f := FutResult mac]\<rparr> else t))"

definition arp_lookup :: "ARPTable \<Rightarrow> byte list \<Rightarrow> byte list option" where
  "arp_lookup t ip = map_of (arp_map t) ip"

text \<open>A resolver either has its answer at once or waits on a future.\<close>

datatype arp_wait = ArpFound "byte list" | ArpAwait nat

definition arp_resolve :: "byte list \<Rightarrow> ARPTable \<Rightarrow> arp_wait \<times> ARPTable" where
  "arp_resolve ip t =
     (case map_of (arp_map t) ip of
        Some mac \<Rightarrow>
          if mac \<noteq> [] then (ArpFound mac, t)
          else (ArpAwait (length (arp_futs t)),
                t\<lparr>arp_futs := arp_futs t @ [FutPending],
                  arp_pending := AList.update ip (length (arp_futs t)) (arp_pending t)\<rparr>)
      | None \<Rightarrow>
          (ArpAwait (length (arp_futs t)),
           t\<lparr>arp_futs := arp_futs t @ [FutPending],
             arp_pending := AList.update ip (length (arp_futs t)) (arp_pending t)\<rparr>))"

definition arp_resolve_resume :: "nat \<Rightarrow> ARPTable \<Rightarrow> byte list option" where
  "arp_resolve_resume f t =
     (case arp_futs t ! f of FutResult mac \<Rightarrow> Some mac | _ \<Rightarrow> None)"

text \<open>
  On a timeout \<open>wait_for\<close> has cancelled the future unless it was done, and the entry of the
  address is dropped.
\<close>

definition arp_resolve_timeout :: "byte list \<Rightarrow> nat \<Rightarrow> ARPTable \<Rightarrow> byte list option \<times> ARPTable" where
  "arp_resolve_timeout ip f t =
     (None, t\<lparr>arp_futs := (if arp_futs t ! f = FutPending
                            then (arp_futs t)[f := FutError CancelledError] else arp_futs t),
              arp_pending := AList.delete ip (arp_pending t)\<rparr>)"

definition arp_packet :: "int \<Rightarrow> byte list \<Rightarrow> byte list \<Rightarrow> byte list \<Rightarrow> byte list \<Rightarrow> byte list res" where
  "arp_packet op sender_mac sender_ip target_mac target_ip =
     (case pack_fields [(2, 1), (2, 0x0800), (1, 6), (1, 4), (2, op)] of
        Inl e \<Rightarrow> Inl e
      | Inr h \<Rightarrow> Inr (h @ pack_s 6 sender_mac @ pack_s 4 sender_ip
                       @ pack_s 6 target_mac @ pack_s 4 target_ip))"

definition build_request :: "byte list \<Rightarrow> byte list \<Rightarrow> byte list \<Rightarrow> byte list res" where
  "build_request sender_mac sender_ip target_ip =
     (case arp_packet ARP_REQUEST sender_mac sender_ip (replicate 6 0) target_ip of
        Inl e \<Rightarrow> Inl e
      | Inr arp \<Rightarrow> ether_encode \<lparr>eth_dst = BROADCAST_MAC, eth_src = sender_mac,
                     ethertype = ETHERTYPE_ARP, eth_payload = arp\<rparr>)"

definition arp_handle_frame :: "byte list \<Rightarrow> ARPTable \<Rightarrow> ARPTable" where
  "arp_handle_frame payload t =
     (if length payload < 28 then t
      else arp_learn (slice payload 14 18) (slice payload 8 14) t)"

subsection \<open>The table as a neighbour cache\<close>

text \<open>
  What the send path relies on: a learnt binding is found, other bindings are unchanged, and
  waiting for an answer changes no binding.
\<close>

locale neighbour_cache =
  fixes lookup :: "'t \<Rightarrow> 'k \<Rightarrow> 'm option"
    and learn :: "'k \<Rightarrow> 'm \<Rightarrow> 't \<Rightarrow> 't"
    and wait :: "'k \<Rightarrow> 't \<Rightarrow> 'w \<times> 't"
  assumes lookup_learn: "lookup (learn k m t) k' = (if k' = k then Some m else lookup t k')"
    and lookup_wait: "lookup (snd (wait k t)) k' = lookup t k'"
begin

lemma learn_overwrites: "lookup (learn k m (learn k m' t)) k' = lookup (learn k m t) k'"
  by (simp add: lookup_learn)

lemma learn_order:
  "k \<noteq> l \<Longrightarrow> lookup (learn k m (learn l n t)) k' = lookup (learn l n (learn k m t)) k'"
  by (simp add: lookup_learn)

lemma lookup_learn_fold:
  "lookup (fold (\<lambda>(k, m). learn k m) kms t) k' =
     (case map_of (rev kms) k' of Some m \<Rightarrow> Some m | None \<Rightarrow> lookup t k')"
  by (induction kms arbitrary: t) (auto simp: lookup_learn split: option.splits)

lemma lookup_wait_learn: "lookup (learn k m (snd (wait k t))) k' = lookup (learn k m t) k'"
  by (simp add: lookup_learn lookup_wait)

end

lemma arp_learn_map [simp]:
  "arp_map (arp_learn ip mac t) = AList.update ip mac (arp_map t)"
  by (simp add: arp_learn_def Let_def split: option.split)

lemma arp_lookup_learn: "arp_lookup (arp_learn ip mac t) k = (if k = ip then Some mac else arp_lookup t k)"
  by (simp add: arp_lookup_def update_conv')

lemma arp_resolve_map [simp]: "arp_map (snd (arp_resolve ip t)) = arp_map t"
  by (simp add: arp_resolve_def split: option.split)

interpretation nc: neighbour_cache arp_lookup arp_learn arp_resolve
  by unfold_locales (simp_all add: arp_lookup_learn, simp add: arp_lookup_def)

text \<open>
  The futures the table refers to exist, and no two addresses share one.
\<close>

definition arp_inv :: "ARPTable \<Rightarrow> bool" where
  "arp_inv t \<longleftrightarrow> distinct (map fst (arp_pending t)) \<and> distinct (map snd (arp_pending t))
     \<and> (\<forall>(ip, f) \<in> set (arp_pending t). f < length (arp_futs t) \<and> arp_futs t ! f = FutPending)"

end
