(* ===== verification/Tcp.thy ===== *)
theory Tcp
  imports Arp
begin

section \<open>TCP connections and the send path\<close>

text \<open>
  Models \<^verbatim>\<open>kernel/net/tcp.py\<close> and the transmit half of \<^verbatim>\<open>kernel/net/stack.py\<close>.
  Connection and listener objects live in heaps and are named by their position, because the
  connection table, the accept queues and the scheduled coroutines share them. The state of a
  network interface driver is a type variable and its methods are a record of functions.

  A coroutine is split at the points where it awaits. A task is a coroutine together with the
  point it is suspended at; \<open>asyncio.ensure_future\<close> appends a task. Running a task executes it
  up to its next suspension, so that two tasks interleave exactly at awaits.
\<close>

subsection \<open>State\<close>

datatype TCPState =
    CLOSED | LISTEN | SYN_SENT | SYN_RCVD | ESTABLISHED | FIN_WAIT_1 | FIN_WAIT_2
  | CLOSE_WAIT | CLOSING | LAST_ACK | TIME_WAIT

definition TCP_MAX_PAYLOAD :: int where "TCP_MAX_PAYLOAD = 1200"
definition TCP_TX_POLL_BURST :: nat where "TCP_TX_POLL_BURST = 32"

record TCPConnection =
  c_local_ip :: "byte list"
  c_remote_ip :: "byte list"
  c_local_port :: int
  c_remote_port :: int
  c_state :: TCPState
  snd_seq :: int
  snd_ack :: int
  snd_wnd :: int
  rcv_buf :: "byte list"
  rx_event :: bool
  accept_event :: bool
  c_connected :: "unit fut option"

record TCPListener =
  l_port :: int
  l_queue :: "nat list"

text \<open>
  The driver: \<open>send_nowait\<close> and \<open>recv_nowait\<close> may be missing (the stack asks with
  \<open>hasattr\<close>); for \<open>send_nowait\<close> the flag is \<open>result is not False\<close>. \<open>nic_send\<close> and
  \<open>nic_recv\<close> are one turn of the coroutines of these names: \<open>True\<close>, or a frame, when the
  coroutine returns, \<open>False\<close>, or nothing, when it yields to be resumed later. \<open>nic_isn k\<close>
  is the random initial sequence number drawn for the \<open>k\<close>-th connection.
\<close>

record 'n NIC =
  nic_mac :: "'n \<Rightarrow> byte list"
  nic_send_nowait :: "('n \<Rightarrow> byte list \<Rightarrow> bool \<times> 'n) option"
  nic_recv_nowait :: "('n \<Rightarrow> byte list option \<times> 'n) option"
  nic_send :: "'n \<Rightarrow> byte list \<Rightarrow> bool \<times> 'n"
  nic_recv :: "'n \<Rightarrow> byte list option \<times> 'n"
  nic_isn :: "nat \<Rightarrow> int"

text \<open>
  Where \<open>send_tcp_segment\<close> is suspended: sending an ARP request, waiting for the answer, or
  sending the frame itself.
\<close>

datatype tx_pc = TxArp "byte list" | TxResolve nat | TxFrame "byte list"

record tx_ctx =
  tx_seg :: TCPSegment
  tx_src :: "byte list"
  tx_dst :: "byte list"
  tx_hop :: "byte list"

datatype coro =
    CoSend nat int "byte list"
  | CoSendAll nat "byte list list"
  | CoOnSyn nat nat
  | CoConnect "byte list \<times> int \<times> byte list \<times> int" nat

datatype pos = AtStart | AtTx tx_ctx tx_pc | AtWait

datatype turn = Done | Suspend tx_ctx tx_pc

datatype rx_pc = RxOff | RxRecv | RxReply "byte list"

record 'n net =
  local_ip :: "byte list"
  local_mac :: "byte list"
  gateway :: "byte list"
  netmask :: "byte list"
  nic :: "'n option"
  arp :: ARPTable
  ip_counter :: int
  conns :: "TCPConnection list"
  connections :: "((byte list \<times> int \<times> byte list \<times> int) \<times> nat) list"
  listener_objs :: "TCPListener list"
  listeners :: "(int \<times> nat) list"
  next_port :: int
  tasks :: "(coro \<times> pos) option list"
  rx_loop :: rx_pc

definition net_boot :: "'n net" where
  "net_boot = \<lparr>local_ip = replicate 4 0, local_mac = replicate 6 0, gateway = replicate 4 0,
     netmask = replicate 4 0, nic = None, arp = arp_empty, ip_counter = 0, conns = [],
     connections = [], listener_objs = [], listeners = [], next_port = 49152, tasks = [],
     rx_loop = RxOff\<rparr>"

definition conn_update :: "nat \<Rightarrow> (TCPConnection \<Rightarrow> TCPConnection) \<Rightarrow> ('n net, unit) io" where
  "conn_update c f = modify (\<lambda>s. s\<lparr>conns := (conns s)[c := f (conns s ! c)]\<rparr>)"

definition ensure_future :: "coro \<Rightarrow> ('n net, unit) io" where
  "ensure_future co = modify (\<lambda>s. s\<lparr>tasks := tasks s @ [Some (co, AtStart)]\<rparr>)"

subsection \<open>Transmitting a segment\<close>

definition choose_hop :: "byte list \<Rightarrow> ('n net, byte list) io" where
  "choose_hop dst_ip = gets (\<lambda>s. if slice dst_ip 0 3 = slice (local_ip s) 0 3 then dst_ip else gateway s)"

definition ip_encode :: "IPv4Packet \<Rightarrow> ('n net, byte list) io" where
  "ip_encode p = (\<lambda>s. let (r, i) = ipv4_encode p (ip_counter s) in (r, s\<lparr>ip_counter := i\<rparr>))"

definition build_tcp_frame ::
  "TCPSegment \<Rightarrow> byte list \<Rightarrow> byte list \<Rightarrow> byte list \<Rightarrow> ('n net, byte list) io" where
  "build_tcp_frame sg src_ip dst_ip mac =
     bind (gets (\<lambda>s. if src_ip \<noteq> [] then src_ip else local_ip s)) (\<lambda>src.
     bind (lift_res (tcp_encode sg src dst_ip)) (\<lambda>payload.
     bind (ip_encode \<lparr>ip_src = src, ip_dst = dst_ip, ip_proto = 6, ip_ttl = 64,
             ip_payload = payload, ip_tos = 0, ip_flags = 0x4000\<rparr>) (\<lambda>pkt.
     bind (gets local_mac) (\<lambda>lmac.
     lift_res (ether_encode \<lparr>eth_dst = mac, eth_src = lmac, ethertype = ETHERTYPE_IPv4,
                             eth_payload = pkt\<rparr>)))))"

text \<open>One turn of \<open>await _nic.send(frame)\<close>.\<close>

definition nic_send_turn :: "'n NIC \<Rightarrow> byte list \<Rightarrow> ('n net, bool) io" where
  "nic_send_turn env frame = (\<lambda>s. case nic s of
      None \<Rightarrow> (Inl (OtherError 0), s)
    | Some n \<Rightarrow> (let (ok, n') = nic_send env n frame in (Inr ok, s\<lparr>nic := Some n'\<rparr>)))"

definition tx_frame_turn :: "'n NIC \<Rightarrow> tx_ctx \<Rightarrow> byte list \<Rightarrow> ('n net, turn) io" where
  "tx_frame_turn env ctx frame =
     bind (nic_send_turn env frame) (\<lambda>ok. ret (if ok then Done else Suspend ctx (TxFrame frame)))"

definition tx_with_mac :: "'n NIC \<Rightarrow> tx_ctx \<Rightarrow> byte list \<Rightarrow> ('n net, turn) io" where
  "tx_with_mac env ctx mac =
     bind (build_tcp_frame (tx_seg ctx) (tx_src ctx) (tx_dst ctx) mac) (tx_frame_turn env ctx)"

definition tx_arp_turn :: "'n NIC \<Rightarrow> tx_ctx \<Rightarrow> byte list \<Rightarrow> ('n net, turn) io" where
  "tx_arp_turn env ctx arp_req =
     bind (nic_send_turn env arp_req) (\<lambda>ok.
       if \<not> ok then ret (Suspend ctx (TxArp arp_req))
       else bind (gets (\<lambda>s. arp_resolve (tx_hop ctx) (arp s))) (\<lambda>(w, t).
            bind (modify (\<lambda>s. s\<lparr>arp := t\<rparr>)) (\<lambda>_.
            case w of ArpFound mac \<Rightarrow> tx_with_mac env ctx mac
                    | ArpAwait f \<Rightarrow> ret (Suspend ctx (TxResolve f)))))"

definition send_tcp_segment ::
  "'n NIC \<Rightarrow> TCPSegment \<Rightarrow> byte list \<Rightarrow> byte list \<Rightarrow> ('n net, turn) io" where
  "send_tcp_segment env sg src_ip dst_ip =
     bind (gets nic) (\<lambda>n.
       if n = None then ret Done
       else bind (choose_hop dst_ip) (\<lambda>next_hop.
            let ctx = \<lparr>tx_seg = sg, tx_src = src_ip, tx_dst = dst_ip, tx_hop = next_hop\<rparr>
            in bind (gets (\<lambda>s. arp_lookup (arp s) next_hop)) (\<lambda>mac.
               case mac of
                 Some m \<Rightarrow> tx_with_mac env ctx m
               | None \<Rightarrow>
                   bind (gets (\<lambda>s. build_request (local_mac s) (local_ip s) next_hop)) (\<lambda>r.
                   bind (lift_res r) (tx_arp_turn env ctx)))))"

text \<open>Resuming it: a future that is still pending leaves it suspended.\<close>

definition send_tcp_segment_resume :: "'n NIC \<Rightarrow> tx_ctx \<Rightarrow> tx_pc \<Rightarrow> ('n net, turn) io" where
  "send_tcp_segment_resume env ctx pc =
     (case pc of
        TxArp req \<Rightarrow> tx_arp_turn env ctx req
      | TxFrame frame \<Rightarrow> tx_frame_turn env ctx frame
      | TxResolve f \<Rightarrow>
          bind (gets (\<lambda>s. arp_futs (arp s) ! f)) (\<lambda>r.
            case r of FutResult mac \<Rightarrow> tx_with_mac env ctx mac
                    | FutError e \<Rightarrow> raise e
                    | FutPending \<Rightarrow> ret (Suspend ctx pc)))"

text \<open>The three seconds of \<open>resolve\<close> have passed: the segment is dropped.\<close>

definition send_tcp_segment_timeout :: "tx_ctx \<Rightarrow> nat \<Rightarrow> ('n net, turn) io" where
  "send_tcp_segment_timeout ctx f =
     bind (modify (\<lambda>s. s\<lparr>arp := snd (arp_resolve_timeout (tx_hop ctx) f (arp s))\<rparr>)) (\<lambda>_. ret Done)"

definition send_frame_nowait :: "'n NIC \<Rightarrow> byte list \<Rightarrow> ('n net, bool) io" where
  "send_frame_nowait env frame = (\<lambda>s. case nic s of
      None \<Rightarrow> (Inr False, s)
    | Some n \<Rightarrow> (case nic_send_nowait env of
          None \<Rightarrow> (Inr False, s)
        | Some f \<Rightarrow> (let (ok, n') = f n frame in (Inr ok, s\<lparr>nic := Some n'\<rparr>))))"

definition send_tcp_segment_nowait ::
  "'n NIC \<Rightarrow> TCPSegment \<Rightarrow> byte list \<Rightarrow> byte list \<Rightarrow> ('n net, bool) io" where
  "send_tcp_segment_nowait env sg src_ip dst_ip =
     bind (gets nic) (\<lambda>n.
       if n = None then ret False
       else bind (choose_hop dst_ip) (\<lambda>next_hop.
            bind (gets (\<lambda>s. arp_lookup (arp s) next_hop)) (\<lambda>mac.
            case mac of
              None \<Rightarrow>
                bind (gets (\<lambda>s. build_request (local_mac s) (local_ip s) next_hop)) (\<lambda>r.
                bind (lift_res r) (\<lambda>arp_req.
                bind (send_frame_nowait env arp_req) (\<lambda>_. ret False)))
            | Some m \<Rightarrow>
                bind (build_tcp_frame sg src_ip dst_ip m) (send_frame_nowait env))))"

subsection \<open>A connection\<close>

definition conn_segment :: "TCPConnection \<Rightarrow> int \<Rightarrow> byte list \<Rightarrow> TCPSegment" where
  "conn_segment c fl payload =
     \<lparr>src_port = c_local_port c, dst_port = c_remote_port c, seq = snd_seq c, ack = snd_ack c,
      flags = fl, window = snd_wnd c, seg_payload = payload\<rparr>"

definition advance_seq :: "int \<Rightarrow> byte list \<Rightarrow> TCPConnection \<Rightarrow> TCPConnection" where
  "advance_seq fl payload c =
     (if payload \<noteq> [] \<or> fl AND (F_SYN OR F_FIN) \<noteq> 0
      then c\<lparr>snd_seq := (snd_seq c + max (int (length payload)) 1) AND 0xFFFFFFFF\<rparr> else c)"

text \<open>
  The segment is built before the send awaits, from the connection as it is then; the sequence
  number advances after it.
\<close>

definition after_tx :: "nat \<Rightarrow> int \<Rightarrow> byte list \<Rightarrow> turn \<Rightarrow> ('n net, turn) io" where
  "after_tx c fl payload t =
     (case t of
        Done \<Rightarrow> bind (conn_update c (advance_seq fl payload)) (\<lambda>_. ret Done)
      | Suspend ctx pc \<Rightarrow> ret (Suspend ctx pc))"

definition send_segment :: "'n NIC \<Rightarrow> nat \<Rightarrow> int \<Rightarrow> byte list \<Rightarrow> ('n net, turn) io" where
  "send_segment env c fl payload =
     bind (gets (\<lambda>s. conns s ! c)) (\<lambda>k.
     bind (send_tcp_segment env (conn_segment k fl payload) (c_local_ip k) (c_remote_ip k))
       (after_tx c fl payload))"

definition send_segment_resume ::
  "'n NIC \<Rightarrow> nat \<Rightarrow> int \<Rightarrow> byte list \<Rightarrow> tx_ctx \<Rightarrow> tx_pc \<Rightarrow> ('n net, turn) io" where
  "send_segment_resume env c fl payload ctx pc =
     bind (send_tcp_segment_resume env ctx pc) (after_tx c fl payload)"

definition send_segment_timeout ::
  "nat \<Rightarrow> int \<Rightarrow> byte list \<Rightarrow> tx_ctx \<Rightarrow> nat \<Rightarrow> ('n net, turn) io" where
  "send_segment_timeout c fl payload ctx f =
     bind (send_tcp_segment_timeout ctx f) (after_tx c fl payload)"

definition send_segment_nowait :: "'n NIC \<Rightarrow> nat \<Rightarrow> int \<Rightarrow> byte list \<Rightarrow> ('n net, bool) io" where
  "send_segment_nowait env c fl payload =
     bind (gets (\<lambda>s. conns s ! c)) (\<lambda>k.
     bind (send_tcp_segment_nowait env (conn_segment k fl payload) (c_local_ip k) (c_remote_ip k)) (\<lambda>ok.
     bind (if ok then conn_update c (advance_seq fl payload) else ret ()) (\<lambda>_.
     ret ok)))"

text \<open>\<open>range(0, n, step)\<close>, and the slices \<open>send\<close> cuts its data into.\<close>

definition py_range :: "int \<Rightarrow> int \<Rightarrow> int list" where
  "py_range n step = map (\<lambda>k. int k * step) [0..<nat ((n + step - 1) div step)]"

definition tcp_chunks :: "byte list \<Rightarrow> byte list list" where
  "tcp_chunks data =
     map (\<lambda>off. slice data off (off + TCP_MAX_PAYLOAD)) (py_range (int (length data)) TCP_MAX_PAYLOAD)"

text \<open>
  \<open>recv\<close> up to its await: the data, or nothing when the peer is gone, or a wait on the
  receive event, which has been cleared.
\<close>

datatype recv_turn = RecvData "byte list" | RecvWait

definition conn_recv :: "int \<Rightarrow> TCPConnection \<Rightarrow> recv_turn \<times> TCPConnection" where
  "conn_recv n c =
     (if rcv_buf c \<noteq> []
      then (RecvData (slice (rcv_buf c) 0 n), c\<lparr>rcv_buf := slice_assign (rcv_buf c) 0 n []\<rparr>)
      else if c_state c = CLOSE_WAIT \<or> c_state c = CLOSED then (RecvData [], c)
      else (RecvWait, c\<lparr>rx_event := False\<rparr>))"

definition tcp_recv :: "nat \<Rightarrow> int \<Rightarrow> ('n net, recv_turn) io" where
  "tcp_recv c n =
     bind (gets (\<lambda>s. conn_recv n (conns s ! c))) (\<lambda>(r, k).
     bind (conn_update c (\<lambda>_. k)) (\<lambda>_. ret r))"

definition conn_close :: "nat \<Rightarrow> ('n net, unit) io" where
  "conn_close c =
     bind (gets (\<lambda>s. c_state (conns s ! c))) (\<lambda>st.
       if st = ESTABLISHED
       then bind (ensure_future (CoSend c (F_FIN OR F_ACK) [])) (\<lambda>_.
            conn_update c (\<lambda>k. k\<lparr>c_state := FIN_WAIT_1\<rparr>))
       else if st = CLOSE_WAIT
       then bind (ensure_future (CoSend c (F_FIN OR F_ACK) [])) (\<lambda>_.
            conn_update c (\<lambda>k. k\<lparr>c_state := LAST_ACK\<rparr>))
       else ret ())"

text \<open>\<open>if self._connected and not self._connected.done()\<close>: complete the waiting \<open>connect\<close>.\<close>

definition resolve_connected :: "unit fut \<Rightarrow> TCPConnection \<Rightarrow> TCPConnection" where
  "resolve_connected r c =
     (if c_connected c = Some FutPending then c\<lparr>c_connected := Some r\<rparr> else c)"

definition send_ack :: "'n NIC \<Rightarrow> nat \<Rightarrow> bool \<Rightarrow> ('n net, unit) io" where
  "send_ack env c sync =
     (if sync then bind (send_segment_nowait env c F_ACK []) (\<lambda>_. ret ())
      else ensure_future (CoSend c F_ACK []))"

definition handle_data :: "'n NIC \<Rightarrow> nat \<Rightarrow> TCPSegment \<Rightarrow> bool \<Rightarrow> ('n net, unit) io" where
  "handle_data env c sg sync =
     (if seg_payload sg \<noteq> []
      then bind (conn_update c (\<lambda>k. k\<lparr>snd_ack := (seq sg + int (length (seg_payload sg))) AND 0xFFFFFFFF,
                   rcv_buf := rcv_buf k @ seg_payload sg, rx_event := True\<rparr>)) (\<lambda>_.
           send_ack env c sync)
      else ret ())"

definition handle_fin :: "'n NIC \<Rightarrow> nat \<Rightarrow> TCPSegment \<Rightarrow> bool \<Rightarrow> ('n net, unit) io" where
  "handle_fin env c sg sync =
     (if flags sg AND F_FIN \<noteq> 0
      then bind (conn_update c (\<lambda>k. k\<lparr>snd_ack := (seq sg + 1) AND 0xFFFFFFFF\<rparr>)) (\<lambda>_.
           bind (send_ack env c sync) (\<lambda>_.
           conn_update c (\<lambda>k. k\<lparr>c_state := CLOSE_WAIT, rx_event := True\<rparr>)))
      else ret ())"

definition handle_segment :: "'n NIC \<Rightarrow> nat \<Rightarrow> TCPSegment \<Rightarrow> bool \<Rightarrow> ('n net, unit) io" where
  "handle_segment env c sg sync =
     bind (gets (\<lambda>s. c_state (conns s ! c))) (\<lambda>st.
       if st = SYN_RCVD
       then (if flags sg AND F_ACK \<noteq> 0
             then conn_update c (\<lambda>k. k\<lparr>c_state := ESTABLISHED, accept_event := True\<rparr>) else ret ())
       else if st = SYN_SENT
       then (if flags sg AND F_SYN \<noteq> 0 \<and> flags sg AND F_ACK \<noteq> 0
             then bind (conn_update c (\<lambda>k. k\<lparr>snd_ack := (seq sg + 1) AND 0xFFFFFFFF\<rparr>)) (\<lambda>_.
                  bind (ensure_future (CoSend c F_ACK [])) (\<lambda>_.
                  conn_update c (\<lambda>k. resolve_connected (FutResult ()) (k\<lparr>c_state := ESTABLISHED\<rparr>))))
             else if flags sg AND F_RST \<noteq> 0
             then conn_update c (\<lambda>k. resolve_connected (FutError ConnectionRefusedError) (k\<lparr>c_state := CLOSED\<rparr>))
             else ret ())
       else if st = ESTABLISHED
       then bind (handle_data env c sg sync) (\<lambda>_. handle_fin env c sg sync)
       else ret ())"

subsection \<open>Listeners and the connection table\<close>

definition conn_key :: "TCPConnection \<Rightarrow> byte list \<times> int \<times> byte list \<times> int" where
  "conn_key k = (c_local_ip k, c_local_port k, c_remote_ip k, c_remote_port k)"

definition alloc_port :: "('n net, int) io" where
  "alloc_port = bind (gets next_port) (\<lambda>p.
     bind (modify (\<lambda>s. s\<lparr>next_port := (next_port s + 1 - 49152) mod 16384 + 49152\<rparr>)) (\<lambda>_. ret p))"

definition new_conn ::
  "'n NIC \<Rightarrow> byte list \<Rightarrow> byte list \<Rightarrow> int \<Rightarrow> int \<Rightarrow> TCPState \<Rightarrow> int \<Rightarrow> unit fut option \<Rightarrow> ('n net, nat) io" where
  "new_conn env lip rip lport rport st ack0 fut =
     bind (gets (\<lambda>s. length (conns s))) (\<lambda>c.
     bind (modify (\<lambda>s. s\<lparr>conns := conns s @
       [\<lparr>c_local_ip = lip, c_remote_ip = rip, c_local_port = lport, c_remote_port = rport,
         c_state = st, snd_seq = nic_isn env c, snd_ack = ack0, snd_wnd = 65535, rcv_buf = [],
         rx_event = False, accept_event = False, c_connected = fut\<rparr>]\<rparr>)) (\<lambda>_.
     ret c))"

definition tcp_listen :: "int \<Rightarrow> ('n net, nat) io" where
  "tcp_listen port =
     bind (gets listeners) (\<lambda>ls.
       if map_of ls port \<noteq> None then raise OSError
       else bind (gets (\<lambda>s. length (listener_objs s))) (\<lambda>l.
            bind (modify (\<lambda>s. s\<lparr>listener_objs := listener_objs s @ [\<lparr>l_port = port, l_queue = []\<rparr>],
              listeners := AList.update port l (listeners s)\<rparr>)) (\<lambda>_.
            ret l)))"

definition tcp_unlisten :: "int \<Rightarrow> nat option \<Rightarrow> ('n net, unit) io" where
  "tcp_unlisten port lst =
     bind (gets (\<lambda>s. map_of (listeners s) port)) (\<lambda>current.
       if current \<noteq> None \<and> (lst = None \<or> current = lst)
       then modify (\<lambda>s. s\<lparr>listeners := AList.delete port (listeners s)\<rparr>) else ret ())"

definition listener_close :: "nat \<Rightarrow> ('n net, unit) io" where
  "listener_close l = bind (gets (\<lambda>s. l_port (listener_objs s ! l))) (\<lambda>p. tcp_unlisten p (Some l))"

definition remove_connection :: "nat \<Rightarrow> ('n net, unit) io" where
  "remove_connection c =
     modify (\<lambda>s. s\<lparr>connections := AList.delete (conn_key (conns s ! c)) (connections s)\<rparr>)"

text \<open>\<open>accept\<close> up to its await: the oldest completed connection, or a wait.\<close>

definition listener_accept :: "nat \<Rightarrow> ('n net, nat option) io" where
  "listener_accept l =
     bind (gets (\<lambda>s. l_queue (listener_objs s ! l))) (\<lambda>q.
       case q of
         [] \<Rightarrow> ret None
       | c # q' \<Rightarrow>
           bind (modify (\<lambda>s. s\<lparr>listener_objs :=
             (listener_objs s)[l := (listener_objs s ! l)\<lparr>l_queue := q'\<rparr>]\<rparr>)) (\<lambda>_. ret (Some c)))"

definition handle_ip_packet :: "'n NIC \<Rightarrow> IPv4Packet \<Rightarrow> bool \<Rightarrow> ('n net, unit) io" where
  "handle_ip_packet env pkt sync =
     (if ip_proto pkt \<noteq> PROTO_TCP then ret ()
      else case tcp_decode (ip_payload pkt) of
        None \<Rightarrow> ret ()
      | Some sg \<Rightarrow>
          (let key = (ip_dst pkt, dst_port sg, ip_src pkt, src_port sg) in
           bind (gets (\<lambda>s. map_of (connections s) key)) (\<lambda>conn.
           case conn of
             Some c \<Rightarrow> handle_segment env c sg sync
           | None \<Rightarrow>
               if flags sg AND F_SYN \<noteq> 0 \<and> \<not> flags sg AND F_ACK \<noteq> 0
               then bind (gets (\<lambda>s. map_of (listeners s) (dst_port sg))) (\<lambda>lst.
                    case lst of
                      None \<Rightarrow> ret ()
                    | Some l \<Rightarrow>
                        bind (new_conn env (ip_dst pkt) (ip_src pkt) (dst_port sg) (src_port sg)
                                SYN_RCVD ((seq sg + 1) AND 0xFFFFFFFF) None) (\<lambda>c.
                        bind (modify (\<lambda>s. s\<lparr>connections := AList.update key c (connections s)\<rparr>)) (\<lambda>_.
                        ensure_future (CoOnSyn l c))))
               else ret ())))"

end
