(* ===== verification/NetStack.thy ===== *)
theory NetStack
  imports Tcp
begin

section \<open>Tasks, receiving, and the stack as a whole\<close>

text \<open>
  The receive half of \<^verbatim>\<open>kernel/net/stack.py\<close>, the coroutines that
  \<^verbatim>\<open>kernel/net/tcp.py\<close> schedules, and the events that drive both. One event is one
  uninterrupted stretch of execution: an application call, one turn of a task or of the receive
  loop, a timer, or a synchronous poll.
\<close>

subsection \<open>Coroutines\<close>

text \<open>The loop of \<open>send\<close>: it stops at the first chunk whose transmission suspends.\<close>

primrec send_chunks :: "'n NIC \<Rightarrow> nat \<Rightarrow> byte list list \<Rightarrow> ('n net, (turn \<times> byte list list)) io" where
  "send_chunks env c [] = ret (Done, [])"
| "send_chunks env c (d # ds) =
     bind (send_segment env c (F_ACK OR F_PSH) d) (\<lambda>t.
       case t of Done \<Rightarrow> send_chunks env c ds
               | Suspend ctx pc \<Rightarrow> ret (Suspend ctx pc, d # ds))"

definition set_task :: "nat \<Rightarrow> (coro \<times> pos) option \<Rightarrow> ('n net, unit) io" where
  "set_task i t = modify (\<lambda>s. s\<lparr>tasks := (tasks s)[i := t]\<rparr>)"

definition task_at :: "nat \<Rightarrow> 'n net \<Rightarrow> (coro \<times> pos) option" where
  "task_at i s = (if i < length (tasks s) then tasks s ! i else None)"

text \<open>What is left of a task after a turn of its transmission.\<close>

definition settle :: "nat \<Rightarrow> coro \<Rightarrow> turn \<Rightarrow> ('n net, unit) io" where
  "settle i co t =
     (case t of
        Suspend ctx pc \<Rightarrow> set_task i (Some (co, AtTx ctx pc))
      | Done \<Rightarrow> set_task i (case co of CoSend c fl pl \<Rightarrow> None
                                   | CoSendAll c ds \<Rightarrow> None
                                   | CoOnSyn l c \<Rightarrow> Some (co, AtWait)
                                   | CoConnect key c \<Rightarrow> Some (co, AtWait)))"

text \<open>
  An exception ends the task: \<open>_on_syn\<close> drops the connection and swallows it, \<open>connect\<close>
  drops its table entry and passes it on, the others just fail.
\<close>

definition task_failed :: "nat \<Rightarrow> coro \<Rightarrow> py_error \<Rightarrow> ('n net, unit) io" where
  "task_failed i co e =
     bind (set_task i None) (\<lambda>_.
       case co of
         CoOnSyn l c \<Rightarrow> remove_connection c
       | CoConnect key c \<Rightarrow>
           bind (modify (\<lambda>s. s\<lparr>connections := AList.delete key (connections s)\<rparr>)) (\<lambda>_. raise e)
       | CoSend c fl pl \<Rightarrow> raise e
       | CoSendAll c ds \<Rightarrow> raise e)"

definition send_rest :: "'n NIC \<Rightarrow> nat \<Rightarrow> nat \<Rightarrow> byte list list \<Rightarrow> ('n net, unit) io" where
  "send_rest env i c ds =
     catch (bind (send_chunks env c ds) (\<lambda>(t, rest). settle i (CoSendAll c rest) t))
           (task_failed i (CoSendAll c ds))"

text \<open>
  \<open>tx_of env co pos\<close> is the transmission a coroutine is engaged in, from its start or from the
  point it was suspended at.
\<close>

definition tx_of :: "'n NIC \<Rightarrow> nat \<Rightarrow> int \<Rightarrow> byte list \<Rightarrow> pos \<Rightarrow> ('n net, turn) io" where
  "tx_of env c fl pl p =
     (case p of AtTx ctx pc \<Rightarrow> send_segment_resume env c fl pl ctx pc
              | _ \<Rightarrow> send_segment env c fl pl)"

definition run_send :: "'n NIC \<Rightarrow> nat \<Rightarrow> coro \<Rightarrow> nat \<Rightarrow> int \<Rightarrow> byte list \<Rightarrow> pos \<Rightarrow> ('n net, unit) io" where
  "run_send env i co c fl pl p = catch (bind (tx_of env c fl pl p) (settle i co)) (task_failed i co)"

text \<open>Resuming after the wait for the peer's acknowledgement.\<close>

definition on_syn_accepted :: "nat \<Rightarrow> nat \<Rightarrow> nat \<Rightarrow> ('n net, unit) io" where
  "on_syn_accepted i l c =
     bind (gets (\<lambda>s. conns s ! c)) (\<lambda>k.
       if \<not> accept_event k then ret ()
       else bind (set_task i None) (\<lambda>_.
            if c_state k = ESTABLISHED \<or> c_state k = CLOSE_WAIT
            then modify (\<lambda>s. s\<lparr>listener_objs := (listener_objs s)
                   [l := (listener_objs s ! l)\<lparr>l_queue := l_queue (listener_objs s ! l) @ [c]\<rparr>]\<rparr>)
            else ret ()))"

definition connect_resumed :: "nat \<Rightarrow> (byte list \<times> int \<times> byte list \<times> int) \<Rightarrow> nat \<Rightarrow> ('n net, unit) io" where
  "connect_resumed i key c =
     bind (gets (\<lambda>s. c_connected (conns s ! c))) (\<lambda>f.
       case f of
         Some (FutResult u) \<Rightarrow> set_task i None
       | Some (FutError e) \<Rightarrow> task_failed i (CoConnect key c) e
       | _ \<Rightarrow> ret ())"

definition run_task :: "'n NIC \<Rightarrow> nat \<Rightarrow> ('n net, unit) io" where
  "run_task env i =
     bind (gets (task_at i)) (\<lambda>t.
     case t of
       None \<Rightarrow> ret ()
     | Some (co, p) \<Rightarrow>
         (case co of
            CoSend c fl pl \<Rightarrow> run_send env i co c fl pl p
          | CoSendAll c ds \<Rightarrow>
              (case p of
                 AtTx ctx pc \<Rightarrow>
                   (case ds of
                      [] \<Rightarrow> set_task i None
                    | d # ds' \<Rightarrow>
                        catch (bind (send_segment_resume env c (F_ACK OR F_PSH) d ctx pc) (\<lambda>t.
                          case t of Suspend ctx' pc' \<Rightarrow> set_task i (Some (co, AtTx ctx' pc'))
                                  | Done \<Rightarrow> send_rest env i c ds'))
                          (task_failed i co))
               | _ \<Rightarrow> send_rest env i c ds)
          | CoOnSyn l c \<Rightarrow>
              (case p of AtWait \<Rightarrow> on_syn_accepted i l c
                       | _ \<Rightarrow> run_send env i co c (F_SYN OR F_ACK) [] p)
          | CoConnect key c \<Rightarrow>
              (case p of AtWait \<Rightarrow> connect_resumed i key c
                       | _ \<Rightarrow> run_send env i co c F_SYN [] p)))"

text \<open>
  A timer fires for a task: three seconds in \<open>resolve\<close>, ten in \<open>_on_syn\<close> and in \<open>connect\<close>.
\<close>

definition timeout_task :: "'n NIC \<Rightarrow> nat \<Rightarrow> ('n net, unit) io" where
  "timeout_task env i =
     bind (gets (task_at i)) (\<lambda>t.
     case t of
       Some (CoSend c fl pl, AtTx ctx (TxResolve f)) \<Rightarrow>
         bind (send_segment_timeout c fl pl ctx f) (settle i (CoSend c fl pl))
     | Some (CoSendAll c (d # ds), AtTx ctx (TxResolve f)) \<Rightarrow>
         bind (send_segment_timeout c (F_ACK OR F_PSH) d ctx f) (\<lambda>_. send_rest env i c ds)
     | Some (CoOnSyn l c, AtTx ctx (TxResolve f)) \<Rightarrow>
         bind (send_segment_timeout c (F_SYN OR F_ACK) [] ctx f) (settle i (CoOnSyn l c))
     | Some (CoConnect key c, AtTx ctx (TxResolve f)) \<Rightarrow>
         bind (send_segment_timeout c F_SYN [] ctx f) (settle i (CoConnect key c))
     | Some (CoOnSyn l c, AtWait) \<Rightarrow>
         bind (set_task i None) (\<lambda>_.
         bind (conn_update c (\<lambda>k. k\<lparr>c_state := CLOSED\<rparr>)) (\<lambda>_.
         remove_connection c))
     | Some (CoConnect key c, AtWait) \<Rightarrow>
         bind (conn_update c (resolve_connected (FutError CancelledError))) (\<lambda>_.
         task_failed i (CoConnect key c) TimeoutError)
     | _ \<Rightarrow> ret ())"

subsection \<open>Application calls\<close>

definition spawn_run :: "'n NIC \<Rightarrow> coro \<Rightarrow> ('n net, nat) io" where
  "spawn_run env co =
     bind (gets (\<lambda>s. length (tasks s))) (\<lambda>i.
     bind (ensure_future co) (\<lambda>_.
     bind (run_task env i) (\<lambda>_. ret i)))"

definition tcp_connect :: "'n NIC \<Rightarrow> string \<Rightarrow> int \<Rightarrow> byte list \<Rightarrow> ('n net, nat) io" where
  "tcp_connect env remote_ip_str remote_port lip =
     bind (lift_res (ip_from_str remote_ip_str)) (\<lambda>remote_ip.
     bind alloc_port (\<lambda>lport.
     bind (new_conn env lip remote_ip lport remote_port SYN_SENT 0 (Some FutPending)) (\<lambda>c.
     let key = (lip, lport, remote_ip, remote_port) in
     bind (modify (\<lambda>s. s\<lparr>connections := AList.update key c (connections s)\<rparr>)) (\<lambda>_.
     bind (spawn_run env (CoConnect key c)) (\<lambda>_. ret c)))))"

definition tcp_send :: "'n NIC \<Rightarrow> nat \<Rightarrow> byte list \<Rightarrow> ('n net, nat) io" where
  "tcp_send env c data = spawn_run env (CoSendAll c (tcp_chunks data))"

subsection \<open>Receiving\<close>

text \<open>The frame answering an ARP request for our address, if one is due.\<close>

definition arp_reply :: "byte list \<Rightarrow> ('n net, byte list option) io" where
  "arp_reply payload =
     bind (gets (\<lambda>s. (local_mac s, local_ip s, nic s = None))) (\<lambda>(lmac, lip, off).
       if length payload < 28 then ret None
       else bind (lift_res (unpack_be 2 (slice payload 6 8))) (\<lambda>op.
            let sender_mac = slice payload 8 14; sender_ip = slice payload 14 18;
                target_ip = slice payload 24 28
            in if op \<noteq> 1 \<or> target_ip \<noteq> lip \<or> off then ret None
               else bind (lift_res (arp_packet 2 lmac lip sender_mac sender_ip)) (\<lambda>reply_arp.
                    bind (lift_res (ether_encode \<lparr>eth_dst = sender_mac, eth_src = lmac,
                            ethertype = ETHERTYPE_ARP, eth_payload = reply_arp\<rparr>)) (\<lambda>frame.
                    ret (Some frame)))))"

definition arp_handle :: "byte list \<Rightarrow> ('n net, unit) io" where
  "arp_handle payload = modify (\<lambda>s. s\<lparr>arp := arp_handle_frame payload (arp s)\<rparr>)"

definition ip_handle :: "'n NIC \<Rightarrow> EtherFrame \<Rightarrow> bool \<Rightarrow> ('n net, unit) io" where
  "ip_handle env frame sync =
     bind (lift_res (ipv4_decode (eth_payload frame))) (\<lambda>pkt.
     bind (modify (\<lambda>s. s\<lparr>arp := arp_learn (ip_src pkt) (eth_src frame) (arp s)\<rparr>)) (\<lambda>_.
     handle_ip_packet env pkt sync))"

definition maybe_send_arp_reply_sync :: "'n NIC \<Rightarrow> byte list \<Rightarrow> ('n net, unit) io" where
  "maybe_send_arp_reply_sync env payload =
     bind (arp_reply payload) (\<lambda>r.
       case r of None \<Rightarrow> ret ()
               | Some frame \<Rightarrow> bind (send_frame_nowait env frame) (\<lambda>_. ret ()))"

definition dispatch_sync :: "'n NIC \<Rightarrow> EtherFrame \<Rightarrow> ('n net, unit) io" where
  "dispatch_sync env frame =
     (if ethertype frame = ETHERTYPE_ARP
      then bind (arp_handle (eth_payload frame)) (\<lambda>_. maybe_send_arp_reply_sync env (eth_payload frame))
      else if ethertype frame = ETHERTYPE_IPv4 then ip_handle env frame True
      else ret ())"

definition poll_once :: "'n NIC \<Rightarrow> ('n net, bool) io" where
  "poll_once env =
     bind (gets nic) (\<lambda>n.
     case (n, nic_recv_nowait env) of
       (Some d, Some recv_nowait) \<Rightarrow>
         (let (raw, d') = recv_nowait d in
          bind (modify (\<lambda>s. s\<lparr>nic := Some d'\<rparr>)) (\<lambda>_.
          case raw of
            None \<Rightarrow> ret False
          | Some raw \<Rightarrow>
              if length raw < 14 then ret True
              else bind (catch (bind (lift_res (ether_decode raw)) (dispatch_sync env))
                               (\<lambda>e. ret ())) (\<lambda>_. ret True)))
     | _ \<Rightarrow> ret False)"

text \<open>
  \<open>while stack.poll_once(): pass\<close>. It need not end when frames keep arriving; not returning
  is the value \<open>None\<close>.
\<close>

partial_function (option) poll_all :: "'n NIC \<Rightarrow> 'n net \<Rightarrow> 'n net option" where
  "poll_all env s =
     (case poll_once env s of
        (Inr again, s') \<Rightarrow> if again then poll_all env s' else Some s'
      | (Inl e, s') \<Rightarrow> Some s')"

primrec send_nowait_loop ::
  "'n NIC \<Rightarrow> nat \<Rightarrow> nat \<Rightarrow> byte list list \<Rightarrow> 'n net \<Rightarrow> (bool res \<times> 'n net) option" where
  "send_nowait_loop env c sent [] s =
     (case poll_all env s of None \<Rightarrow> None | Some s' \<Rightarrow> Some (Inr True, s'))"
| "send_nowait_loop env c sent (d # ds) s =
     (case send_segment_nowait env c (F_ACK OR F_PSH) d s of
        (Inl e, s') \<Rightarrow> Some (Inl e, s')
      | (Inr ok, s') \<Rightarrow>
          if \<not> ok then Some (Inr False, s')
          else if Suc sent mod TCP_TX_POLL_BURST = 0
          then (case poll_all env s' of
                  None \<Rightarrow> None
                | Some s'' \<Rightarrow> send_nowait_loop env c (Suc sent) ds s'')
          else send_nowait_loop env c (Suc sent) ds s')"

definition tcp_send_nowait :: "'n NIC \<Rightarrow> nat \<Rightarrow> byte list \<Rightarrow> 'n net \<Rightarrow> (bool res \<times> 'n net) option" where
  "tcp_send_nowait env c data = send_nowait_loop env c 0 (tcp_chunks data)"

text \<open>The receive loop: it is waiting for a frame, or sending an ARP reply.\<close>

definition rx_reply_turn :: "'n NIC \<Rightarrow> byte list \<Rightarrow> ('n net, unit) io" where
  "rx_reply_turn env frame =
     bind (nic_send_turn env frame) (\<lambda>ok.
     modify (\<lambda>s. s\<lparr>rx_loop := if ok then RxRecv else RxReply frame\<rparr>))"

definition net_dispatch :: "'n NIC \<Rightarrow> EtherFrame \<Rightarrow> ('n net, unit) io" where
  "net_dispatch env frame =
     (if ethertype frame = ETHERTYPE_ARP
      then bind (arp_handle (eth_payload frame)) (\<lambda>_.
           bind (arp_reply (eth_payload frame)) (\<lambda>r.
           case r of None \<Rightarrow> ret () | Some reply \<Rightarrow> rx_reply_turn env reply))
      else if ethertype frame = ETHERTYPE_IPv4 then ip_handle env frame False
      else ret ())"

definition rx_turn :: "'n NIC \<Rightarrow> ('n net, unit) io" where
  "rx_turn env =
     bind (gets (\<lambda>s. (rx_loop s, nic s))) (\<lambda>p.
     case p of
       (RxReply frame, _) \<Rightarrow>
         catch (rx_reply_turn env frame) (\<lambda>e. modify (\<lambda>s. s\<lparr>rx_loop := RxRecv\<rparr>))
     | (RxRecv, Some d) \<Rightarrow>
         (let (raw, d') = nic_recv env d in
          bind (modify (\<lambda>s. s\<lparr>nic := Some d'\<rparr>)) (\<lambda>_.
          case raw of
            None \<Rightarrow> ret ()
          | Some raw \<Rightarrow>
              if length raw < 14 then ret ()
              else catch (bind (lift_res (ether_decode raw)) (net_dispatch env)) (\<lambda>e. ret ())))
     | _ \<Rightarrow> ret ())"

definition net_init :: "'n NIC \<Rightarrow> 'n \<Rightarrow> string \<Rightarrow> string \<Rightarrow> string \<Rightarrow> ('n net, unit) io" where
  "net_init env d ip gw nmask =
     bind (modify (\<lambda>s. s\<lparr>nic := Some d, local_mac := nic_mac env d\<rparr>)) (\<lambda>_.
     bind (lift_res (ip_from_str ip)) (\<lambda>a.
     bind (modify (\<lambda>s. s\<lparr>local_ip := a\<rparr>)) (\<lambda>_.
     bind (lift_res (ip_from_str gw)) (\<lambda>a.
     bind (modify (\<lambda>s. s\<lparr>gateway := a\<rparr>)) (\<lambda>_.
     bind (lift_res (ip_from_str nmask)) (\<lambda>a.
     modify (\<lambda>s. s\<lparr>netmask := a, rx_loop := RxRecv\<rparr>)))))))"

end
