(* ===== verification/NetInv.thy ===== *)
theory NetInv
  imports NetStack
begin

unbundle bit_operations_syntax

section \<open>What the network stack maintains\<close>

text \<open>
  The invariant of the whole stack under every interleaving of application calls, task turns,
  timers and arriving frames, and what it gives: the driver is only ever handed well-formed
  frames that fit its buffers, and the connection table stays consistent.
\<close>

subsection \<open>Well-formed frames\<close>

lemma be_bytes_pair: "be_bytes 2 v = [word_of_int (v div 256), word_of_int v]"
  unfolding be_bytes_def numeral_2_eq_2 by simp

definition wire_arp :: "EtherFrame \<Rightarrow> bool" where
  "wire_arp e \<longleftrightarrow> ethertype e = ETHERTYPE_ARP \<and> length (eth_payload e) = 28
     \<and> take 6 (eth_payload e) = [0, 1, 8, 0, 6, 4]
     \<and> (be_val (slice (eth_payload e) 6 8) = ARP_REQUEST \<or> be_val (slice (eth_payload e) 6 8) = ARP_REPLY)"

text \<open>An IPv4 packet with a valid header checksum that carries a TCP segment with a valid checksum.\<close>

definition wire_tcp :: "EtherFrame \<Rightarrow> bool" where
  "wire_tcp e \<longleftrightarrow> ethertype e = ETHERTYPE_IPv4 \<and> inet_cksum (take 20 (eth_payload e)) = 0
     \<and> (case ipv4_decode (eth_payload e) of
          Inl _ \<Rightarrow> False
        | Inr p \<Rightarrow>
            ip_proto p = PROTO_TCP
            \<and> inet_cksum (ip_src p @ ip_dst p @ [0, 6] @ be_bytes 2 (int (length (ip_payload p)))
                          @ ip_payload p) = 0
            \<and> (case tcp_decode (ip_payload p) of
                 None \<Rightarrow> False
               | Some sg \<Rightarrow> int (length (seg_payload sg)) \<le> TCP_MAX_PAYLOAD))"

definition wire_ok :: "byte list \<Rightarrow> bool" where
  "wire_ok raw \<longleftrightarrow> length raw \<le> 1254
     \<and> (case ether_decode raw of Inl _ \<Rightarrow> False | Inr e \<Rightarrow> wire_arp e \<or> wire_tcp e)"

definition seg_ok :: "TCPSegment \<Rightarrow> bool" where
  "seg_ok sg \<longleftrightarrow> seg_fits sg \<and> int (length (seg_payload sg)) \<le> TCP_MAX_PAYLOAD"

lemma ether_encode_total:
  "0 \<le> ethertype f \<Longrightarrow> ethertype f < 65536 \<Longrightarrow>
     ether_encode f = Inr (eth_dst f @ eth_src f @ be_bytes 2 (ethertype f) @ eth_payload f)"
  by (simp add: ether_encode_def pack_be_def)

lemma arp_packet_total:
  assumes "op = 1 \<or> op = 2"
  shows "\<exists>p. arp_packet op smac sip tmac tip = Inr p \<and> length p = 28 \<and> take 6 p = [0, 1, 8, 0, 6, 4]
    \<and> be_val (slice p 6 8) = op
    \<and> p = [0, 1, 8, 0, 6, 4] @ be_bytes 2 op @ pack_s 6 smac @ pack_s 4 sip @ pack_s 6 tmac @ pack_s 4 tip"
proof -
  have "be_bytes 2 1 = [0, 1]" "be_bytes 2 0x0800 = [8, 0]" unfolding be_bytes_pair by simp_all
  then have fb: "field_bytes [(2, 1), (2, 0x0800), (1, 6), (1, 4), (2, op)] = [0, 1, 8, 0, 6, 4] @ be_bytes 2 op"
    by (simp add: field_bytes_def)
  have "fields_ok [(2, 1), (2, 0x0800), (1, 6), (1, 4), (2, op)]"
    using assms by (auto simp: fields_ok_def)
  then have "arp_packet op smac sip tmac tip =
      Inr (([0, 1, 8, 0, 6, 4] @ be_bytes 2 op) @ pack_s 6 smac @ pack_s 4 sip @ pack_s 6 tmac @ pack_s 4 tip)"
    unfolding arp_packet_def pack_fields_eq fb by simp
  then show ?thesis
    using assms by (auto simp: slice_take_drop be_val_bytes)
qed

lemma arp_frame_wire:
  assumes "arp_packet op smac sip tmac tip = Inr p" "op = ARP_REQUEST \<or> op = ARP_REPLY"
    "length dst = 6" "length src = 6"
  shows "\<exists>raw. ether_encode \<lparr>eth_dst = dst, eth_src = src, ethertype = ETHERTYPE_ARP, eth_payload = p\<rparr> = Inr raw
    \<and> wire_ok raw"
proof -
  let ?f = "\<lparr>eth_dst = dst, eth_src = src, ethertype = ETHERTYPE_ARP, eth_payload = p\<rparr>"
  have p: "length p = 28" "take 6 p = [0, 1, 8, 0, 6, 4]" "be_val (slice p 6 8) = op"
    using arp_packet_total [of op smac sip tmac tip] assms(1,2) by (auto simp: ARP_REQUEST_def ARP_REPLY_def)
  have e: "ether_encode ?f = Inr (dst @ src @ be_bytes 2 ETHERTYPE_ARP @ p)"
    using ether_encode_total [of ?f] by (simp add: ETHERTYPE_ARP_def)
  have "ether_decode (dst @ src @ be_bytes 2 ETHERTYPE_ARP @ p) = Inr ?f"
    using ether_roundtrip [OF _ e] assms(3,4) by (simp add: ether_ok_def)
  then show ?thesis using e p assms(2-4) by (auto simp: wire_ok_def wire_arp_def)
qed

lemma build_request_wire:
  assumes "length smac = 6"
  shows "\<exists>raw. build_request smac sip tip = Inr raw \<and> wire_ok raw"
proof -
  obtain p where p: "arp_packet ARP_REQUEST smac sip (replicate 6 0) tip = Inr p"
    using arp_packet_total [of ARP_REQUEST] by (auto simp: ARP_REQUEST_def)
  show ?thesis
    using arp_frame_wire [OF p, of BROADCAST_MAC smac] assms
    by (auto simp: build_request_def p BROADCAST_MAC_def)
qed

text \<open>
  The frame built for a segment: it decodes layer by layer to what was put in, and it is
  well-formed. Building it cannot fail, and only moves the packet counter.
\<close>

definition tcp_packet :: "byte list \<Rightarrow> byte list \<Rightarrow> byte list \<Rightarrow> IPv4Packet" where
  "tcp_packet src dst payload = \<lparr>ip_src = src, ip_dst = dst, ip_proto = 6, ip_ttl = 64,
     ip_payload = payload, ip_tos = 0, ip_flags = 0x4000\<rparr>"

definition carries :: "byte list \<Rightarrow> byte list \<Rightarrow> byte list \<Rightarrow> byte list \<Rightarrow> byte list \<Rightarrow> TCPSegment \<Rightarrow> bool" where
  "carries dmac smac src dst raw sg \<longleftrightarrow>
     (\<exists>pkt payload. ether_decode raw = Inr \<lparr>eth_dst = dmac, eth_src = smac,
          ethertype = ETHERTYPE_IPv4, eth_payload = pkt\<rparr>
        \<and> ipv4_decode pkt = Inr (tcp_packet src dst payload) \<and> tcp_decode payload = Some sg)"

lemma build_tcp_frame_spec:
  assumes "seg_ok sg" "length src = 4" "length dst = 4" "length mac = 6" "length (local_mac s) = 6"
  shows "\<exists>raw. build_tcp_frame sg src dst mac s = (Inr raw, s\<lparr>ip_counter := (ip_counter s + 1) mod 65536\<rparr>)
     \<and> wire_ok raw \<and> carries mac (local_mac s) src dst raw sg"
proof -
  have fits: "seg_fits sg" and small: "length (seg_payload sg) \<le> 1200"
    using assms(1) by (simp_all add: seg_ok_def TCP_MAX_PAYLOAD_def)
  have tok: "tcp_ok sg" using fits by (simp add: tcp_ok_def seg_fits_def)
  obtain t where t: "tcp_encode sg src dst = Inr t" using tcp_encode_total [OF fits] by blast
  have lt: "length t = 20 + length (seg_payload sg)"
    using tcp_encode_eq(1,2) [OF tok t] by simp
  let ?p = "tcp_packet src dst t"
  have pf: "packet_fits ?p" using assms(2,3) lt small by (simp add: packet_fits_def tcp_packet_def)
  have pok: "ip_ok ?p" using assms(2,3) by (simp add: ip_ok_def tcp_packet_def)
  obtain pkt where pkt: "ipv4_encode ?p (ip_counter s) = (Inr pkt, (ip_counter s + 1) mod 65536)"
    using ipv4_encode_total [OF pf] by blast
  have lp: "length pkt = 20 + length t"
    using ipv4_encode_eq(1,2,3) [OF pok pkt] by (simp add: tcp_packet_def)
  let ?f = "\<lparr>eth_dst = mac, eth_src = local_mac s, ethertype = ETHERTYPE_IPv4, eth_payload = pkt\<rparr>"
  define raw where "raw = mac @ local_mac s @ be_bytes 2 ETHERTYPE_IPv4 @ pkt"
  have e: "ether_encode ?f = Inr raw"
    using ether_encode_total [of ?f] by (simp add: ETHERTYPE_IPv4_def raw_def)
  have d: "ether_decode raw = Inr ?f" using ether_roundtrip [OF _ e] assms(4,5) by (simp add: ether_ok_def)
  note dp = ipv4_roundtrip [OF pok pkt] and dt = tcp_roundtrip [OF tok t]
  have b: "build_tcp_frame sg src dst mac s = (Inr raw, s\<lparr>ip_counter := (ip_counter s + 1) mod 65536\<rparr>)"
    using assms(2) pkt e
    by (auto simp: build_tcp_frame_def ip_encode_def bind_def t tcp_packet_def)
  have "wire_tcp ?f"
    using dp dt ipv4_header_checksum [OF pok pkt] tcp_checksum [OF tok t assms(2,3)] lt small
    by (simp add: wire_tcp_def tcp_packet_def PROTO_TCP_def TCP_MAX_PAYLOAD_def)
  moreover have "length raw \<le> 1254" using assms(4,5) lp lt small by (simp add: raw_def)
  ultimately have "wire_ok raw" using d by (simp add: wire_ok_def)
  moreover have "carries mac (local_mac s) src dst raw sg"
    using d dp dt by (auto simp: carries_def)
  ultimately show ?thesis using b by blast
qed

subsection \<open>The invariant\<close>

definition conn_wf :: "TCPConnection \<Rightarrow> bool" where
  "conn_wf k \<longleftrightarrow> length (c_local_ip k) = 4 \<and> length (c_remote_ip k) = 4
     \<and> 0 \<le> c_local_port k \<and> c_local_port k < 65536 \<and> 0 \<le> c_remote_port k \<and> c_remote_port k < 65536
     \<and> 0 \<le> snd_seq k \<and> snd_seq k < 2 ^ 32 \<and> 0 \<le> snd_ack k \<and> snd_ack k < 2 ^ 32
     \<and> snd_wnd k = 65535"

definition arp_wf :: "ARPTable \<Rightarrow> bool" where
  "arp_wf t \<longleftrightarrow> (\<forall>mac \<in> snd ` set (arp_map t). length mac = 6)
     \<and> (\<forall>mac. FutResult mac \<in> set (arp_futs t) \<longrightarrow> length mac = 6)"

text \<open>The table maps a key to the connection that has it; the listeners know their port.\<close>

definition table_wf :: "((byte list \<times> int \<times> byte list \<times> int) \<times> nat) list \<Rightarrow> TCPConnection list \<Rightarrow> bool" where
  "table_wf tab cs \<longleftrightarrow> distinct (map fst tab)
     \<and> (\<forall>(key, c) \<in> set tab. c < length cs \<and> conn_key (cs ! c) = key)"

definition listeners_wf :: "(int \<times> nat) list \<Rightarrow> TCPListener list \<Rightarrow> nat \<Rightarrow> bool" where
  "listeners_wf tab ls n \<longleftrightarrow> distinct (map fst tab)
     \<and> (\<forall>(p, l) \<in> set tab. l < length ls \<and> l_port (ls ! l) = p)
     \<and> (\<forall>l \<in> set ls. \<forall>c \<in> set (l_queue l). c < n)"

definition ctx_wf :: "tx_ctx \<Rightarrow> bool" where
  "ctx_wf ctx \<longleftrightarrow> seg_ok (tx_seg ctx) \<and> length (tx_src ctx) = 4 \<and> length (tx_dst ctx) = 4"

definition tx_wf :: "nat \<Rightarrow> tx_ctx \<Rightarrow> tx_pc \<Rightarrow> bool" where
  "tx_wf nf ctx pc \<longleftrightarrow> ctx_wf ctx
     \<and> (case pc of TxArp r \<Rightarrow> wire_ok r | TxFrame r \<Rightarrow> wire_ok r | TxResolve f \<Rightarrow> f < nf)"

definition pos_wf :: "nat \<Rightarrow> pos \<Rightarrow> bool" where
  "pos_wf nf p \<longleftrightarrow> (case p of AtTx ctx pc \<Rightarrow> tx_wf nf ctx pc | _ \<Rightarrow> True)"

definition payload_ok :: "byte list \<Rightarrow> bool" where
  "payload_ok d \<longleftrightarrow> int (length d) \<le> TCP_MAX_PAYLOAD"

definition coro_wf :: "nat \<Rightarrow> nat \<Rightarrow> coro \<Rightarrow> bool" where
  "coro_wf nc nl co \<longleftrightarrow>
     (case co of
        CoSend c fl pl \<Rightarrow> c < nc \<and> 0 \<le> fl \<and> fl < 512 \<and> payload_ok pl
      | CoSendAll c ds \<Rightarrow> c < nc \<and> (\<forall>d \<in> set ds. payload_ok d)
      | CoOnSyn l c \<Rightarrow> l < nl \<and> c < nc
      | CoConnect key c \<Rightarrow> c < nc)"

definition task_wf :: "nat \<Rightarrow> nat \<Rightarrow> nat \<Rightarrow> (coro \<times> pos) option \<Rightarrow> bool" where
  "task_wf nc nl nf t \<longleftrightarrow> (case t of None \<Rightarrow> True | Some (co, p) \<Rightarrow> coro_wf nc nl co \<and> pos_wf nf p)"

definition net_inv :: "('n \<Rightarrow> bool) \<Rightarrow> 'n net \<Rightarrow> bool" where
  "net_inv P s \<longleftrightarrow> length (local_ip s) = 4 \<and> length (local_mac s) = 6 \<and> length (gateway s) = 4
     \<and> (\<forall>n. nic s = Some n \<longrightarrow> P n) \<and> arp_wf (arp s)
     \<and> (\<forall>k \<in> set (conns s). conn_wf k) \<and> table_wf (connections s) (conns s)
     \<and> listeners_wf (listeners s) (listener_objs s) (length (conns s))
     \<and> 49152 \<le> next_port s \<and> next_port s < 65536
     \<and> (\<forall>t \<in> set (tasks s). task_wf (length (conns s)) (length (listener_objs s)) (length (arp_futs (arp s))) t)
     \<and> (\<forall>r. rx_loop s = RxReply r \<longrightarrow> wire_ok r)"

text \<open>
  The heaps only grow, so a position that was valid stays valid: \<open>net_at\<close> carries lower bounds on
  their sizes through a run of operations.
\<close>

definition net_at :: "('n \<Rightarrow> bool) \<Rightarrow> nat \<Rightarrow> nat \<Rightarrow> nat \<Rightarrow> 'n net \<Rightarrow> bool" where
  "net_at P nc nl nf s \<longleftrightarrow> net_inv P s \<and> nc \<le> length (conns s) \<and> nl \<le> length (listener_objs s)
     \<and> nf \<le> length (arp_futs (arp s))"

lemma tx_wf_mono: "tx_wf nf ctx pc \<Longrightarrow> nf \<le> nf' \<Longrightarrow> tx_wf nf' ctx pc"
  by (auto simp: tx_wf_def split: tx_pc.splits)

lemma pos_wf_mono: "pos_wf nf p \<Longrightarrow> nf \<le> nf' \<Longrightarrow> pos_wf nf' p"
  by (auto simp: pos_wf_def tx_wf_mono split: pos.splits)

lemma coro_wf_mono: "coro_wf nc nl co \<Longrightarrow> nc \<le> nc' \<Longrightarrow> nl \<le> nl' \<Longrightarrow> coro_wf nc' nl' co"
  by (auto simp: coro_wf_def split: coro.splits)

lemma task_wf_mono:
  "task_wf nc nl nf t \<Longrightarrow> nc \<le> nc' \<Longrightarrow> nl \<le> nl' \<Longrightarrow> nf \<le> nf' \<Longrightarrow> task_wf nc' nl' nf' t"
  by (auto simp: task_wf_def coro_wf_mono pos_wf_mono split: option.splits)

lemma net_at_inv: "net_at P 0 0 0 s = net_inv P s"
  by (simp add: net_at_def)

lemma net_at_refl: "net_inv P s \<Longrightarrow> net_at P (length (conns s)) (length (listener_objs s)) (length (arp_futs (arp s))) s"
  by (simp add: net_at_def)

lemma net_at_mono: "net_at P nc nl nf s \<Longrightarrow> nc' \<le> nc \<Longrightarrow> nl' \<le> nl \<Longrightarrow> nf' \<le> nf \<Longrightarrow> net_at P nc' nl' nf' s"
  by (simp add: net_at_def)

subsection \<open>Elementary updates\<close>

lemma arp_wf_learn: "arp_wf t \<Longrightarrow> length mac = 6 \<Longrightarrow> arp_wf (arp_learn ip mac t)"
  by (auto simp: arp_wf_def arp_learn_def Let_def dest!: alist_update_mem
      dest: set_mp [OF set_update_subset_insert] split: option.splits)

lemma arp_futs_learn [simp]: "length (arp_futs (arp_learn ip mac t)) = length (arp_futs t)"
  by (auto simp: arp_learn_def Let_def split: option.splits)

lemma arp_wf_resolve:
  assumes "arp_wf t" "arp_resolve ip t = (w, t')"
  shows "arp_wf t'" "length (arp_futs t) \<le> length (arp_futs t')"
    and "\<And>mac. w = ArpFound mac \<Longrightarrow> length mac = 6"
    and "\<And>f. w = ArpAwait f \<Longrightarrow> f < length (arp_futs t')"
  using assms by (auto simp: arp_wf_def arp_resolve_def dest!: map_of_SomeD split: option.splits if_splits)

lemma arp_wf_timeout:
  "arp_wf t \<Longrightarrow> arp_wf (snd (arp_resolve_timeout ip f t))"
  "length (arp_futs (snd (arp_resolve_timeout ip f t))) = length (arp_futs t)"
  by (auto simp: arp_wf_def arp_resolve_timeout_def dest: set_mp [OF set_update_subset_insert])

lemma arp_lookup_wf: "arp_wf t \<Longrightarrow> arp_lookup t ip = Some mac \<Longrightarrow> length mac = 6"
  by (force simp: arp_wf_def arp_lookup_def dest: map_of_SomeD)

lemma net_at_arp:
  "net_at P nc nl nf s \<Longrightarrow> arp_wf t \<Longrightarrow> length (arp_futs (arp s)) \<le> length (arp_futs t) \<Longrightarrow>
     net_at P nc nl nf (s\<lparr>arp := t\<rparr>)"
  by (auto simp: net_at_def net_inv_def elim: task_wf_mono)

lemma net_at_nic:
  "net_at P nc nl nf s \<Longrightarrow> P n \<Longrightarrow> net_at P nc nl nf (s\<lparr>nic := Some n\<rparr>)"
  by (simp add: net_at_def net_inv_def)

lemma net_at_counter: "net_at P nc nl nf s \<Longrightarrow> net_at P nc nl nf (s\<lparr>ip_counter := i\<rparr>)"
  by (simp add: net_at_def net_inv_def)

lemma net_at_conn_wf: "net_at P nc nl nf s \<Longrightarrow> c < nc \<Longrightarrow> conn_wf (conns s ! c)"
  by (simp add: net_at_def net_inv_def)

text \<open>A change to a connection that keeps its key and its ranges.\<close>

definition conn_safe :: "(TCPConnection \<Rightarrow> TCPConnection) \<Rightarrow> bool" where
  "conn_safe f \<longleftrightarrow> (\<forall>k. conn_wf k \<longrightarrow> conn_wf (f k) \<and> conn_key (f k) = conn_key k)"

lemma table_wf_update:
  assumes "table_wf tab cs" "conn_key k = conn_key (cs ! c)"
  shows "table_wf tab (cs[c := k])"
proof -
  have "conn_key (cs[c := k] ! i) = conn_key (cs ! i)" for i
    using assms(2) by (cases "i = c"; cases "c < length cs") (auto simp: list_update_beyond)
  then show ?thesis using assms(1) by (simp add: table_wf_def)
qed

lemma net_at_conn:
  assumes "net_at P nc nl nf s" "c < nc" "conn_safe f"
  shows "net_at P nc nl nf (s\<lparr>conns := (conns s)[c := f (conns s ! c)]\<rparr>)"
proof -
  have "conn_wf (f (conns s ! c))" "conn_key (f (conns s ! c)) = conn_key (conns s ! c)"
    using assms(3) net_at_conn_wf [OF assms(1,2)] by (auto simp: conn_safe_def)
  then show ?thesis
    using assms(1) table_wf_update [of "connections s" "conns s" "f (conns s ! c)" c]
    by (auto simp: net_at_def net_inv_def dest: set_mp [OF set_update_subset_insert])
qed

lemma net_at_tasks:
  assumes "net_at P nc nl nf s"
    "\<And>t. t \<in> set ts \<Longrightarrow> t \<in> set (tasks s) \<or> task_wf nc nl nf t"
  shows "net_at P nc nl nf (s\<lparr>tasks := ts\<rparr>)"
  using assms by (auto simp: net_at_def net_inv_def dest!: assms(2) elim: task_wf_mono)

lemma net_at_table:
  assumes "net_at P nc nl nf s" "c < nc" "conn_key (conns s ! c) = key"
  shows "net_at P nc nl nf (s\<lparr>connections := AList.update key c (connections s)\<rparr>)"
  using assms
  by (auto simp: net_at_def net_inv_def table_wf_def distinct_update dest!: alist_update_mem)

lemma net_at_untable:
  assumes "net_at P nc nl nf s"
  shows "net_at P nc nl nf (s\<lparr>connections := AList.delete key (connections s)\<rparr>)"
  using assms by (auto simp: net_at_def net_inv_def table_wf_def distinct_delete)

lemmas net_at_updates = net_at_arp net_at_nic net_at_counter net_at_conn net_at_tasks
  net_at_table net_at_untable

lemma advance_seq_safe: "conn_safe (advance_seq fl payload)"
  by (auto simp: conn_safe_def advance_seq_def conn_wf_def conn_key_def and_mask_mod)

lemma conn_segment_ok:
  assumes "conn_wf k" "0 \<le> fl" "fl < 512" "payload_ok pl"
  shows "seg_ok (conn_segment k fl pl)"
  using assms
  by (simp add: seg_ok_def seg_fits_def conn_segment_def conn_wf_def payload_ok_def TCP_MAX_PAYLOAD_def)

lemma conn_safe_intros:
  "conn_safe (\<lambda>k. k\<lparr>c_state := st\<rparr>)" "conn_safe (\<lambda>k. k\<lparr>c_state := st, rx_event := b\<rparr>)"
  "conn_safe (\<lambda>k. k\<lparr>c_state := st, accept_event := b\<rparr>)" "conn_safe (\<lambda>k. k\<lparr>rx_event := b\<rparr>)"
  "conn_safe (\<lambda>k. k\<lparr>snd_ack := i AND 0xFFFFFFFF\<rparr>)"
  "conn_safe (\<lambda>k. k\<lparr>snd_ack := i AND 0xFFFFFFFF, rcv_buf := rcv_buf k @ d, rx_event := b\<rparr>)"
  "conn_safe (\<lambda>k. resolve_connected r (k\<lparr>c_state := st\<rparr>))" "conn_safe (resolve_connected r)"
  by (auto simp: conn_safe_def conn_wf_def conn_key_def and_mask_mod resolve_connected_def)

lemma ipv4_decode_ok: "ipv4_decode raw = Inr p \<Longrightarrow> ip_ok p"
  by (auto simp: ipv4_decode_def ip_ok_def Let_def slice_nat split: if_splits sum.splits)

lemma tcp_decode_ranges:
  assumes "tcp_decode raw = Some sg"
  shows "0 \<le> src_port sg" "src_port sg < 65536" "0 \<le> dst_port sg" "dst_port sg < 65536"
proof -
  have n: "length (slice raw 0 2) = 2" "length (slice raw 2 4) = 2"
    using assms by (auto simp: tcp_decode_def slice_nat split: if_splits)
  have e: "src_port sg = be_val (slice raw 0 2)" "dst_port sg = be_val (slice raw 2 4)"
    using assms by (auto simp: tcp_decode_def Let_def split: if_splits)
  show "0 \<le> src_port sg" "src_port sg < 65536" "0 \<le> dst_port sg" "dst_port sg < 65536"
    using be_val_bounds [of "slice raw 0 2"] be_val_bounds [of "slice raw 2 4"] unfolding e n by simp_all
qed

lemma ether_decode_lengths: "ether_decode raw = Inr f \<Longrightarrow> length (eth_src f) = 6"
  using ether_encode_of_decode by (simp add: ether_ok_def)

lemma table_wf_snoc: "table_wf tab cs \<Longrightarrow> table_wf tab (cs @ [k])"
  by (fastforce simp: table_wf_def nth_append)

lemma net_at_new_conn:
  assumes "net_at P nc nl nf s" "conn_wf k"
  shows "net_at P (max nc (Suc (length (conns s)))) nl nf (s\<lparr>conns := conns s @ [k]\<rparr>)"
proof -
  have "listeners_wf (listeners s) (listener_objs s) (Suc (length (conns s)))"
    using assms(1) by (auto simp: net_at_def net_inv_def listeners_wf_def intro: less_SucI)
  moreover have "task_wf (Suc (length (conns s))) (length (listener_objs s)) (length (arp_futs (arp s))) t"
    if "t \<in> set (tasks s)" for t
    by (rule task_wf_mono) (use assms(1) that in \<open>auto simp: net_at_def net_inv_def\<close>)
  ultimately show ?thesis
    using assms table_wf_snoc [of "connections s" "conns s" k] by (auto simp: net_at_def net_inv_def)
qed

lemma net_at_grow:
  "net_at P nc nl nf s \<Longrightarrow> n \<le> length (conns s) \<Longrightarrow> m \<le> length (listener_objs s) \<Longrightarrow>
     net_at P (max nc n) (max nl m) nf s"
  by (simp add: net_at_def)

lemma net_at_shrink: "net_at P (max nc n) (max nl m) nf s \<Longrightarrow> net_at P nc nl nf s"
  by (simp add: net_at_def)

lemma net_at_shrink1: "net_at P (max nc n) nl nf s \<Longrightarrow> net_at P nc nl nf s"
  by (simp add: net_at_def)

lemma net_at_queue:
  assumes "net_at P nc nl nf s" "set q \<subseteq> insert c (set (l_queue (listener_objs s ! l)))" "c < nc"
  shows "net_at P nc nl nf (s\<lparr>listener_objs := (listener_objs s)[l := (listener_objs s ! l)\<lparr>l_queue := q\<rparr>]\<rparr>)"
proof -
  let ?o = "listener_objs s" and ?k = "(listener_objs s ! l)\<lparr>l_queue := q\<rparr>"
  have lw: "listeners_wf (listeners s) ?o (length (conns s))" and nc: "nc \<le> length (conns s)"
    using assms(1) by (simp_all add: net_at_def net_inv_def)
  have "l_port (?o[l := ?k] ! i) = l_port (?o ! i)" for i
    by (cases "i = l"; cases "l < length ?o") (auto simp: list_update_beyond)
  moreover have "c' < length (conns s)" if "o' \<in> set (?o[l := ?k])" "c' \<in> set (l_queue o')" for o' c'
  proof (cases "l < length ?o \<and> o' = ?k")
    case True
    then have "c' = c \<or> c' \<in> set (l_queue (?o ! l))" using that(2) assms(2) by auto
    then show ?thesis
      using lw nc assms(3) nth_mem [of l ?o] True by (auto simp: listeners_wf_def)
  next
    case False
    then have "o' \<in> set ?o"
      using that(1) set_update_subset_insert [of ?o l ?k]
      by (cases "l < length ?o") (auto simp: list_update_beyond)
    then show ?thesis using lw that(2) by (auto simp: listeners_wf_def)
  qed
  ultimately have "listeners_wf (listeners s) (?o[l := ?k]) (length (conns s))"
    using lw by (auto simp: listeners_wf_def)
  then show ?thesis using assms(1) by (simp add: net_at_def net_inv_def)
qed

lemma net_at_task:
  assumes "net_inv P s" "task_at i s = Some (co, p)"
  shows "coro_wf (length (conns s)) (length (listener_objs s)) co" "pos_wf (length (arp_futs (arp s))) p"
proof -
  have "Some (co, p) \<in> set (tasks s)"
    using assms(2) by (metis nth_mem option.distinct(1) task_at_def)
  then have "task_wf (length (conns s)) (length (listener_objs s)) (length (arp_futs (arp s))) (Some (co, p))"
    using assms(1) by (simp add: net_inv_def)
  then show "coro_wf (length (conns s)) (length (listener_objs s)) co" "pos_wf (length (arp_futs (arp s))) p"
    by (simp_all add: task_wf_def)
qed

definition turn_ok :: "turn \<Rightarrow> 'n net \<Rightarrow> bool" where
  "turn_ok t s \<longleftrightarrow> (case t of Done \<Rightarrow> True | Suspend ctx pc \<Rightarrow> tx_wf (length (arp_futs (arp s))) ctx pc)"

lemma turn_ok_simps [simp]:
  "turn_ok Done s" "turn_ok (Suspend ctx pc) s = tx_wf (length (arp_futs (arp s))) ctx pc"
  by (simp_all add: turn_ok_def)

subsection \<open>The driver's contract\<close>

text \<open>
  A property of the driver's state that its methods keep: \<open>send\<close> and \<open>send_nowait\<close> are only
  asked to keep it for well-formed frames. The initial sequence numbers are drawn from
  \<open>0\<close> to \<open>2 ^ 32 - 1\<close>.
\<close>

locale nic_driver =
  fixes env :: "'n NIC" and P :: "'n \<Rightarrow> bool"
  assumes send_keeps: "P n \<Longrightarrow> wire_ok f \<Longrightarrow> P (snd (nic_send env n f))"
    and send_nowait_keeps: "nic_send_nowait env = Some g \<Longrightarrow> P n \<Longrightarrow> wire_ok f \<Longrightarrow> P (snd (g n f))"
    and recv_keeps: "P n \<Longrightarrow> P (snd (nic_recv env n))"
    and recv_nowait_keeps: "nic_recv_nowait env = Some h \<Longrightarrow> P n \<Longrightarrow> P (snd (h n))"
    and isn_range: "0 \<le> nic_isn env k" "nic_isn env k < 2 ^ 32"
begin

lemma nic_send_turn_wp:
  assumes "net_at P nc nl nf s" "wire_ok frame"
  shows "wp (nic_send_turn env frame) (\<lambda>_. net_at P nc nl nf) (\<lambda>_. net_at P nc nl nf) s"
proof -
  have "P n" if "nic s = Some n" for n using assms(1) that by (simp add: net_at_def net_inv_def)
  then show ?thesis
    using assms send_keeps [of _ frame]
    by (fastforce simp: nic_send_turn_def wp_def intro: net_at_nic split: option.splits prod.splits)
qed

lemma send_frame_nowait_wp:
  assumes "net_at P nc nl nf s" "wire_ok frame"
  shows "wp (send_frame_nowait env frame) (\<lambda>_. net_at P nc nl nf) (\<lambda>_. net_at P nc nl nf) s"
proof -
  have "P n" if "nic s = Some n" for n using assms(1) that by (simp add: net_at_def net_inv_def)
  then show ?thesis
    using assms send_nowait_keeps [of _ _ frame]
    by (fastforce simp: send_frame_nowait_def wp_def intro: net_at_nic split: option.splits prod.splits)
qed

lemma tx_frame_turn_wp:
  assumes "net_at P nc nl nf s" "ctx_wf ctx" "wire_ok frame"
  shows "wp (tx_frame_turn env ctx frame) (\<lambda>t s. net_at P nc nl nf s \<and> turn_ok t s) (\<lambda>_. net_at P nc nl nf) s"
  unfolding tx_frame_turn_def wp_simps
  by (rule wp_mono [OF nic_send_turn_wp [OF assms(1,3)]])
    (use assms in \<open>auto simp: wp_simps tx_wf_def\<close>)

lemma build_tcp_frame_wp:
  assumes "net_at P nc nl nf s" "seg_ok sg" "length src = 4" "length dst = 4" "length mac = 6"
  shows "wp (build_tcp_frame sg src dst mac) (\<lambda>r s. net_at P nc nl nf s \<and> wire_ok r) (\<lambda>_ _. False) s"
proof -
  have "length (local_mac s) = 6" using assms(1) by (simp add: net_at_def net_inv_def)
  from build_tcp_frame_spec [OF assms(2-5) this] show ?thesis
    using net_at_counter [OF assms(1)] by (auto simp: wp_def)
qed

lemma tx_with_mac_wp:
  assumes "net_at P nc nl nf s" "ctx_wf ctx" "length mac = 6"
  shows "wp (tx_with_mac env ctx mac) (\<lambda>t s. net_at P nc nl nf s \<and> turn_ok t s) (\<lambda>_. net_at P nc nl nf) s"
  unfolding tx_with_mac_def wp_simps
  by (rule wp_mono [OF build_tcp_frame_wp [OF assms(1)]])
    (use assms(2,3) in \<open>auto simp: ctx_wf_def intro: tx_frame_turn_wp\<close>)

lemma tx_arp_turn_wp:
  assumes "net_at P nc nl nf s" "ctx_wf ctx" "wire_ok req"
  shows "wp (tx_arp_turn env ctx req) (\<lambda>t s. net_at P nc nl nf s \<and> turn_ok t s) (\<lambda>_. net_at P nc nl nf) s"
  unfolding tx_arp_turn_def wp_simps
proof (rule wp_mono [OF nic_send_turn_wp [OF assms(1,3)]])
  fix ok t
  assume J: "net_at P nc nl nf t"
  obtain w a where w: "arp_resolve (tx_hop ctx) (arp t) = (w, a)" by fastforce
  have "arp_wf (arp t)" using J by (simp add: net_at_def net_inv_def)
  note r = arp_wf_resolve [OF this w]
  have J': "net_at P nc nl nf (t\<lparr>arp := a\<rparr>)" using net_at_arp [OF J r(1,2)] .
  show "if \<not> ok then net_at P nc nl nf t \<and> turn_ok (Suspend ctx (TxArp req)) t
    else wp (case arp_resolve (tx_hop ctx) (arp t) of (w, a) \<Rightarrow>
               bind (modify (\<lambda>s. s\<lparr>arp := a\<rparr>)) (\<lambda>_. case w of ArpFound mac \<Rightarrow> tx_with_mac env ctx mac
                    | ArpAwait f \<Rightarrow> ret (Suspend ctx (TxResolve f))))
           (\<lambda>t s. net_at P nc nl nf s \<and> turn_ok t s) (\<lambda>_. net_at P nc nl nf) t"
    using J J' r(3,4) assms(2,3)
    by (auto simp: w wp_simps tx_wf_def split: arp_wait.split intro!: tx_with_mac_wp)
qed

lemma choose_hop_wp: "wp (choose_hop dst) Q E s = Q (if slice dst 0 3 = slice (local_ip s) 0 3 then dst else gateway s) s"
  by (simp add: choose_hop_def wp_simps)

lemma send_tcp_segment_wp:
  assumes "net_at P nc nl nf s" "seg_ok sg" "length src = 4" "length dst = 4"
  shows "wp (send_tcp_segment env sg src dst) (\<lambda>t s. net_at P nc nl nf s \<and> turn_ok t s) (\<lambda>_. net_at P nc nl nf) s"
proof -
  define hop where "hop = (if slice dst 0 3 = slice (local_ip s) 0 3 then dst else gateway s)"
  let ?ctx = "\<lparr>tx_seg = sg, tx_src = src, tx_dst = dst, tx_hop = hop\<rparr>"
  have i: "arp_wf (arp s)" "length (local_mac s) = 6"
    using assms(1) by (simp_all add: net_at_def net_inv_def)
  have ctx: "ctx_wf ?ctx" using assms(2-4) by (simp add: ctx_wf_def)
  obtain req where req: "build_request (local_mac s) (local_ip s) hop = Inr req" "wire_ok req"
    using build_request_wire [OF i(2)] by blast
  show ?thesis
    unfolding send_tcp_segment_def wp_simps choose_hop_wp hop_def [symmetric] Let_def
    using assms(1) arp_lookup_wf [OF i(1)] req ctx
    by (simp add: wp_simps tx_with_mac_wp tx_arp_turn_wp split: option.split)
qed

lemma send_tcp_segment_resume_wp:
  assumes "net_at P nc nl nf s" "tx_wf (length (arp_futs (arp s))) ctx pc"
  shows "wp (send_tcp_segment_resume env ctx pc) (\<lambda>t s. net_at P nc nl nf s \<and> turn_ok t s) (\<lambda>_. net_at P nc nl nf) s"
proof -
  have "arp_wf (arp s)" using assms(1) by (simp add: net_at_def net_inv_def)
  then have "length mac = 6" if "f < length (arp_futs (arp s))" "arp_futs (arp s) ! f = FutResult mac" for f mac
    using that nth_mem [of f "arp_futs (arp s)"] by (auto simp: arp_wf_def)
  then show ?thesis
    using assms
    by (auto simp: send_tcp_segment_resume_def tx_wf_def wp_simps tx_arp_turn_wp tx_frame_turn_wp
        intro!: tx_with_mac_wp split: tx_pc.splits fut.splits)
qed

lemma send_tcp_segment_timeout_wp:
  assumes "net_at P nc nl nf s"
  shows "wp (send_tcp_segment_timeout ctx f) (\<lambda>t s. net_at P nc nl nf s \<and> turn_ok t s) (\<lambda>_. net_at P nc nl nf) s"
proof -
  have "arp_wf (arp s)" using assms by (simp add: net_at_def net_inv_def)
  then show ?thesis
    using assms by (simp add: send_tcp_segment_timeout_def wp_simps net_at_arp arp_wf_timeout)
qed

lemma send_tcp_segment_nowait_wp:
  assumes "net_at P nc nl nf s" "seg_ok sg" "length src = 4" "length dst = 4"
  shows "wp (send_tcp_segment_nowait env sg src dst) (\<lambda>_. net_at P nc nl nf) (\<lambda>_. net_at P nc nl nf) s"
proof -
  define hop where "hop = (if slice dst 0 3 = slice (local_ip s) 0 3 then dst else gateway s)"
  have i: "arp_wf (arp s)" "length (local_mac s) = 6"
    using assms(1) by (simp_all add: net_at_def net_inv_def)
  obtain req where req: "build_request (local_mac s) (local_ip s) hop = Inr req" "wire_ok req"
    using build_request_wire [OF i(2)] by blast
  have "wp (build_tcp_frame sg src dst mac)
      (\<lambda>x. wp (send_frame_nowait env x) (\<lambda>_. net_at P nc nl nf) (\<lambda>_. net_at P nc nl nf)) (\<lambda>_. net_at P nc nl nf) s"
    if "length mac = 6" for mac
    by (rule wp_mono [OF build_tcp_frame_wp [OF assms that]]) (auto intro: send_frame_nowait_wp)
  then show ?thesis
    unfolding send_tcp_segment_nowait_def wp_simps choose_hop_wp hop_def [symmetric]
    using assms(1) arp_lookup_wf [OF i(1)] req
    by (simp add: wp_simps send_frame_nowait_wp split: option.split)
qed

subsection \<open>Connections\<close>

lemma conn_update_wp:
  assumes "net_at P nc nl nf s" "c < nc" "conn_safe f"
  shows "wp (conn_update c f) (\<lambda>_. net_at P nc nl nf) (\<lambda>_. net_at P nc nl nf) s"
  using net_at_conn [OF assms] by (simp add: conn_update_def wp_simps)

lemma ensure_future_wp:
  assumes "net_at P nc nl nf s" "coro_wf nc nl co"
  shows "wp (ensure_future co) (\<lambda>_. net_at P nc nl nf) (\<lambda>_. net_at P nc nl nf) s"
  unfolding ensure_future_def wp_simps
  by (rule net_at_tasks [OF assms(1)]) (use assms(2) in \<open>auto simp: task_wf_def pos_wf_def\<close>)

lemma after_tx_wp:
  assumes "net_at P nc nl nf s" "c < nc" "turn_ok t s"
  shows "wp (after_tx c fl pl t) (\<lambda>t s. net_at P nc nl nf s \<and> turn_ok t s) (\<lambda>_. net_at P nc nl nf) s"
  using assms conn_update_wp [OF assms(1,2) advance_seq_safe, of fl pl]
  by (auto simp: after_tx_def wp_simps conn_update_def split: turn.split)

lemma send_segment_wp:
  assumes "net_at P nc nl nf s" "c < nc" "0 \<le> fl" "fl < 512" "payload_ok pl"
  shows "wp (send_segment env c fl pl) (\<lambda>t s. net_at P nc nl nf s \<and> turn_ok t s) (\<lambda>_. net_at P nc nl nf) s"
proof -
  have k: "conn_wf (conns s ! c)" using net_at_conn_wf [OF assms(1,2)] .
  show ?thesis
    unfolding send_segment_def wp_simps
    by (rule wp_mono [OF send_tcp_segment_wp [OF assms(1) conn_segment_ok [OF k assms(3-5)]]])
      (use k assms(2) in \<open>auto simp: conn_wf_def intro: after_tx_wp\<close>)
qed

lemma send_segment_resume_wp:
  assumes "net_at P nc nl nf s" "c < nc" "tx_wf (length (arp_futs (arp s))) ctx pc"
  shows "wp (send_segment_resume env c fl pl ctx pc)
    (\<lambda>t s. net_at P nc nl nf s \<and> turn_ok t s) (\<lambda>_. net_at P nc nl nf) s"
  unfolding send_segment_resume_def wp_simps
  by (rule wp_mono [OF send_tcp_segment_resume_wp [OF assms(1,3)]])
    (use assms(2) in \<open>auto intro: after_tx_wp\<close>)

lemma send_segment_timeout_wp:
  assumes "net_at P nc nl nf s" "c < nc"
  shows "wp (send_segment_timeout c fl pl ctx f)
    (\<lambda>t s. net_at P nc nl nf s \<and> turn_ok t s) (\<lambda>_. net_at P nc nl nf) s"
  unfolding send_segment_timeout_def wp_simps
  by (rule wp_mono [OF send_tcp_segment_timeout_wp [OF assms(1)]])
    (use assms(2) in \<open>auto intro: after_tx_wp\<close>)

lemma send_segment_nowait_wp:
  assumes "net_at P nc nl nf s" "c < nc" "0 \<le> fl" "fl < 512" "payload_ok pl"
  shows "wp (send_segment_nowait env c fl pl) (\<lambda>_. net_at P nc nl nf) (\<lambda>_. net_at P nc nl nf) s"
proof -
  have k: "conn_wf (conns s ! c)" using net_at_conn_wf [OF assms(1,2)] .
  show ?thesis
    unfolding send_segment_nowait_def wp_simps
    by (rule wp_mono [OF send_tcp_segment_nowait_wp [OF assms(1) conn_segment_ok [OF k assms(3-5)]]])
      (use k assms(2) in \<open>auto simp: conn_wf_def wp_simps intro: conn_update_wp advance_seq_safe\<close>)
qed

end

context nic_driver
begin

lemma modify_wp: "net_at P nc nl nf (g s) \<Longrightarrow> wp (modify g) (\<lambda>_. net_at P nc nl nf) (\<lambda>_. net_at P nc nl nf) s"
  by (simp add: wp_simps)

lemma new_conn_wp:
  assumes "net_at P nc nl nf s" "length lip = 4" "length rip = 4" "0 \<le> lport" "lport < 65536"
    "0 \<le> rport" "rport < 65536" "0 \<le> a" "a < 2 ^ 32"
  shows "wp (new_conn env lip rip lport rport st a fut)
    (\<lambda>c s. net_at P (max nc (Suc c)) nl nf s \<and> conn_key (conns s ! c) = (lip, lport, rip, rport))
    (\<lambda>_ _. False) s"
  using assms isn_range
  by (simp add: new_conn_def wp_simps net_at_new_conn conn_wf_def conn_key_def)

lemma send_ack_wp:
  assumes "net_at P nc nl nf s" "c < nc"
  shows "wp (send_ack env c sync) (\<lambda>_. net_at P nc nl nf) (\<lambda>_. net_at P nc nl nf) s"
  using send_segment_nowait_wp [OF assms, of F_ACK "[]"] ensure_future_wp [OF assms(1), of "CoSend c F_ACK []"] assms(2)
  by (auto simp: send_ack_def wp_simps F_ACK_def payload_ok_def TCP_MAX_PAYLOAD_def coro_wf_def)

lemma handle_data_wp:
  assumes "net_at P nc nl nf s" "c < nc"
  shows "wp (handle_data env c sg sync) (\<lambda>_. net_at P nc nl nf) (\<lambda>_. net_at P nc nl nf) s"
  using assms
  by (auto simp: handle_data_def wp_simps
      intro!: wp_mono [OF conn_update_wp [OF _ assms(2) conn_safe_intros(6)]] send_ack_wp)

lemma handle_fin_wp:
  assumes "net_at P nc nl nf s" "c < nc"
  shows "wp (handle_fin env c sg sync) (\<lambda>_. net_at P nc nl nf) (\<lambda>_. net_at P nc nl nf) s"
  using assms
  by (auto simp: handle_fin_def wp_simps conn_safe_intros conn_update_wp
      intro!: wp_mono [OF conn_update_wp [OF _ assms(2) conn_safe_intros(5)]] wp_mono [OF send_ack_wp])

lemma handle_segment_wp:
  assumes "net_at P nc nl nf s" "c < nc"
  shows "wp (handle_segment env c sg sync) (\<lambda>_. net_at P nc nl nf) (\<lambda>_. net_at P nc nl nf) s"
proof -
  note cu = conn_update_wp [OF _ assms(2) conn_safe_intros(3)] conn_update_wp [OF _ assms(2) conn_safe_intros(5)]
    conn_update_wp [OF _ assms(2) conn_safe_intros(7)]
  have co: "coro_wf nc nl (CoSend c F_ACK [])"
    using assms(2) by (simp add: coro_wf_def F_ACK_def payload_ok_def TCP_MAX_PAYLOAD_def)
  show ?thesis
    using assms
    by (auto simp: handle_segment_def wp_simps intro!: cu(1,3) wp_mono [OF cu(2)]
        wp_mono [OF ensure_future_wp] co wp_mono [OF handle_data_wp] handle_fin_wp)
qed

lemma handle_ip_packet_wp:
  assumes J: "net_at P nc nl nf s" and pkt: "ip_ok pkt"
  shows "wp (handle_ip_packet env pkt sync) (\<lambda>_. net_at P nc nl nf) (\<lambda>_. net_at P nc nl nf) s"
proof -
  have known: "wp (handle_segment env c sg sync) (\<lambda>_. net_at P nc nl nf) (\<lambda>_. net_at P nc nl nf) s"
    if "map_of (connections s) key = Some c" for key c sg
  proof -
    have "c < length (conns s)"
      using J map_of_SomeD [OF that] by (auto simp: net_at_def net_inv_def table_wf_def)
    then have J': "net_at P (max nc (Suc c)) nl nf s" using net_at_grow [OF J, of "Suc c" 0] by simp
    show ?thesis by (rule wp_mono [OF handle_segment_wp [OF J']]) (auto intro: net_at_shrink1)
  qed
  have fresh: "wp (bind (new_conn env (ip_dst pkt) (ip_src pkt) (dst_port sg) (src_port sg)
                                SYN_RCVD ((seq sg + 1) AND 0xFFFFFFFF) None) (\<lambda>c.
                   bind (modify (\<lambda>s. s\<lparr>connections := AList.update
                      (ip_dst pkt, dst_port sg, ip_src pkt, src_port sg) c (connections s)\<rparr>)) (\<lambda>_.
                   ensure_future (CoOnSyn l c)))) (\<lambda>_. net_at P nc nl nf) (\<lambda>_. net_at P nc nl nf) s"
    if l: "map_of (listeners s) (dst_port sg) = Some l" and sg: "tcp_decode (ip_payload pkt) = Some sg" for l sg
  proof -
    have "l < length (listener_objs s)"
      using J map_of_SomeD [OF l] by (auto simp: net_at_def net_inv_def listeners_wf_def)
    then have J': "net_at P (max nc 0) (max nl (Suc l)) nf s" using net_at_grow [OF J, of 0 "Suc l"] by simp
    show ?thesis
      unfolding wp_bind
      by (rule wp_mono [OF new_conn_wp [OF J']])
        (use pkt tcp_decode_ranges [OF sg] in
          \<open>auto simp: ip_ok_def and_mask_mod wp_simps coro_wf_def
            intro!: wp_mono [OF ensure_future_wp [OF net_at_table]] intro: net_at_shrink1 net_at_shrink\<close>)
  qed
  show ?thesis
    using J known fresh by (auto simp: handle_ip_packet_def wp_simps Let_def split: option.split)
qed

end

subsection \<open>Tasks\<close>

lemma task_wf_None [simp]: "task_wf nc nl n None"
  by (simp add: task_wf_def)

lemma flags_ok: "0 \<le> (F_ACK OR F_PSH)" "(F_ACK OR F_PSH) < 512" "0 \<le> (F_SYN OR F_ACK)" "(F_SYN OR F_ACK) < 512"
  "0 \<le> F_SYN" "F_SYN < 512" "0 \<le> F_ACK" "F_ACK < 512" "0 \<le> (F_FIN OR F_ACK)" "(F_FIN OR F_ACK) < 512"
  "payload_ok []"
  by (simp_all add: F_ACK_def F_PSH_def F_SYN_def F_FIN_def payload_ok_def TCP_MAX_PAYLOAD_def)

context nic_driver
begin

lemma set_task_wp:
  assumes "net_at P nc nl nf s" "task_wf nc nl (length (arp_futs (arp s))) t"
  shows "wp (set_task i t) (\<lambda>_. net_at P nc nl nf) (\<lambda>_. net_at P nc nl nf) s"
proof -
  have "net_at P nc nl (length (arp_futs (arp s))) s" using assms(1) by (simp add: net_at_def)
  then have "net_at P nc nl (length (arp_futs (arp s))) (s\<lparr>tasks := (tasks s)[i := t]\<rparr>)"
    by (rule net_at_tasks) (use assms(2) in \<open>auto dest: set_mp [OF set_update_subset_insert]\<close>)
  then show ?thesis using assms(1) by (simp add: set_task_def wp_simps net_at_def)
qed

lemma settle_wp:
  assumes "net_at P nc nl nf s" "coro_wf nc nl co" "turn_ok t s"
  shows "wp (settle i co t) (\<lambda>_. net_at P nc nl nf) (\<lambda>_. net_at P nc nl nf) s"
  using assms unfolding settle_def
  by (auto simp: task_wf_def pos_wf_def intro!: set_task_wp split: turn.split coro.split)

lemma remove_connection_wp:
  "net_at P nc nl nf s \<Longrightarrow> wp (remove_connection c) (\<lambda>_. net_at P nc nl nf) (\<lambda>_. net_at P nc nl nf) s"
  by (simp add: remove_connection_def wp_simps net_at_untable)

lemma task_failed_wp:
  assumes "net_at P nc nl nf s"
  shows "wp (task_failed i co e) (\<lambda>_. net_at P nc nl nf) (\<lambda>_. net_at P nc nl nf) s"
  unfolding task_failed_def wp_bind
  by (rule wp_mono [OF set_task_wp [OF assms]])
    (auto simp: wp_simps net_at_untable remove_connection_wp split: coro.split)

lemma send_chunks_wp:
  assumes "net_at P nc nl nf s" "c < nc" "\<forall>d \<in> set ds. payload_ok d"
  shows "wp (send_chunks env c ds)
    (\<lambda>r s. net_at P nc nl nf s \<and> turn_ok (fst r) s \<and> (\<forall>d \<in> set (snd r). payload_ok d))
    (\<lambda>_. net_at P nc nl nf) s"
  using assms(1,3)
proof (induction ds arbitrary: s)
  case (Cons d ds)
  then have d: "payload_ok d" by simp
  show ?case
    unfolding send_chunks.simps wp_bind
    by (rule wp_mono [OF send_segment_wp [OF Cons.prems(1) assms(2) flags_ok(1,2) d]])
      (use Cons in \<open>auto simp: wp_simps split: turn.split\<close>)
qed (simp add: wp_simps)

lemma send_rest_wp:
  assumes "net_at P nc nl nf s" "c < nc" "\<forall>d \<in> set ds. payload_ok d"
  shows "wp (send_rest env i c ds) (\<lambda>_. net_at P nc nl nf) (\<lambda>_. net_at P nc nl nf) s"
  unfolding send_rest_def wp_catch wp_bind
  by (rule wp_mono [OF send_chunks_wp [OF assms]])
    (use assms(2) in \<open>auto intro!: wp_mono [OF settle_wp] task_failed_wp simp: coro_wf_def\<close>)

lemma run_send_wp:
  assumes "net_at P nc nl nf s" "coro_wf nc nl co" "c < nc" "0 \<le> fl" "fl < 512" "payload_ok pl"
    "pos_wf (length (arp_futs (arp s))) p"
  shows "wp (run_send env i co c fl pl p) (\<lambda>_. net_at P nc nl nf) (\<lambda>_. net_at P nc nl nf) s"
proof -
  have "wp (tx_of env c fl pl p) (\<lambda>t s. net_at P nc nl nf s \<and> turn_ok t s) (\<lambda>_. net_at P nc nl nf) s"
    using assms by (auto simp: tx_of_def pos_wf_def send_segment_wp send_segment_resume_wp split: pos.split)
  then show ?thesis
    unfolding run_send_def wp_catch wp_bind
    by (rule wp_mono) (use assms(2) in \<open>auto intro!: wp_mono [OF settle_wp] task_failed_wp\<close>)
qed

lemma on_syn_accepted_wp:
  assumes "net_at P nc nl nf s" "c < nc"
  shows "wp (on_syn_accepted i l c) (\<lambda>_. net_at P nc nl nf) (\<lambda>_. net_at P nc nl nf) s"
  unfolding on_syn_accepted_def wp_simps
  using assms by (auto simp: wp_simps intro!: wp_mono [OF set_task_wp] net_at_queue [where c = c])

lemma connect_resumed_wp:
  assumes "net_at P nc nl nf s"
  shows "wp (connect_resumed i key c) (\<lambda>_. net_at P nc nl nf) (\<lambda>_. net_at P nc nl nf) s"
  unfolding connect_resumed_def wp_simps
  using assms by (auto simp: wp_simps set_task_wp task_failed_wp split: option.split fut.split)

lemma run_task_inv:
  assumes "net_inv P s"
  shows "wp (run_task env i) (\<lambda>_. net_inv P) (\<lambda>_. net_inv P) s"
proof -
  let ?J = "net_at P (length (conns s)) (length (listener_objs s)) (length (arp_futs (arp s)))"
  have J: "?J s" using net_at_refl [OF assms] .
  have "wp (run_task env i) (\<lambda>_. ?J) (\<lambda>_. ?J) s"
  proof (cases "task_at i s")
    case None
    then show ?thesis using J by (simp add: run_task_def wp_simps)
  next
    case (Some cp)
    then obtain co p where t: "task_at i s = Some (co, p)" by (cases cp) auto
    note w = net_at_task [OF assms t]
    show ?thesis
    proof (cases co)
      case (CoSend c fl pl)
      then show ?thesis
        using t w J by (auto simp: run_task_def wp_simps coro_wf_def intro!: run_send_wp)
    next
      case (CoSendAll c ds)
      then have c: "c < length (conns s)" and ds: "\<forall>d\<in>set ds. payload_ok d"
        using w by (simp_all add: coro_wf_def)
      show ?thesis
        using CoSendAll t w J c ds
        by (auto simp: run_task_def wp_simps pos_wf_def task_wf_def set_task_wp send_rest_wp coro_wf_def
            intro!: wp_mono [OF send_segment_resume_wp] wp_mono [OF set_task_wp] wp_mono [OF send_rest_wp] task_failed_wp
            split: pos.split list.split turn.split)
    next
      case (CoOnSyn l c)
      then show ?thesis
        using t w J flags_ok
        by (auto simp: run_task_def wp_simps coro_wf_def intro!: run_send_wp on_syn_accepted_wp split: pos.split)
    next
      case (CoConnect key c)
      then show ?thesis
        using t w J flags_ok
        by (auto simp: run_task_def wp_simps coro_wf_def intro!: run_send_wp connect_resumed_wp split: pos.split)
    qed
  qed
  then show ?thesis by (rule wp_mono) (simp_all add: net_at_def)
qed

lemma timeout_task_inv:
  assumes "net_inv P s"
  shows "wp (timeout_task env i) (\<lambda>_. net_inv P) (\<lambda>_. net_inv P) s"
proof -
  let ?J = "net_at P (length (conns s)) (length (listener_objs s)) (length (arp_futs (arp s)))"
  have J: "?J s" using net_at_refl [OF assms] .
  have "wp (timeout_task env i) (\<lambda>_. ?J) (\<lambda>_. ?J) s"
  proof (cases "task_at i s")
    case None
    then show ?thesis using J by (simp add: timeout_task_def wp_simps)
  next
    case (Some cp)
    then obtain co p where t: "task_at i s = Some (co, p)" by (cases cp) auto
    note w = net_at_task [OF assms t]
    show ?thesis
      using t w J
      by (auto simp: timeout_task_def wp_simps coro_wf_def conn_safe_intros
          intro!: wp_mono [OF send_segment_timeout_wp] settle_wp send_rest_wp wp_mono [OF set_task_wp]
            wp_mono [OF conn_update_wp] remove_connection_wp task_failed_wp
          split: pos.split coro.split tx_pc.split list.split)
  qed
  then show ?thesis by (rule wp_mono) (simp_all add: net_at_def)
qed

lemma spawn_run_inv:
  assumes "net_at P nc nl nf s" "coro_wf nc nl co"
  shows "wp (spawn_run env co) (\<lambda>_. net_inv P) (\<lambda>_. net_inv P) s"
  unfolding spawn_run_def wp_simps
  by (rule wp_mono [OF ensure_future_wp [OF assms]])
    (auto simp: net_at_def wp_simps intro!: wp_mono [OF run_task_inv])

end

subsection \<open>Application calls and reception\<close>

definition addr_ok :: "string \<Rightarrow> bool" where
  "addr_ok a \<longleftrightarrow> (case ip_from_str a of Inl _ \<Rightarrow> True | Inr bs \<Rightarrow> length bs = 4)"

lemma py_range_mem:
  assumes "off \<in> set (py_range n step)" "0 < step"
  shows "0 \<le> off" "off < n"
proof -
  define q where "q = (n + step - 1) div step"
  have "off \<in> (\<lambda>k. int k * step) ` {0..<nat q}" using assms(1) by (simp add: py_range_def q_def)
  then obtain k where k: "off = int k * step" "k < nat q" by fastforce
  show "0 \<le> off" using k(1) assms(2) by simp
  have "int k + 1 \<le> q" using k(2) by linarith
  then have "(int k + 1) * step \<le> q * step" using assms(2) by (intro mult_right_mono) auto
  moreover have "q * step = n + step - 1 - (n + step - 1) mod step"
    unfolding q_def by (simp only: minus_mod_eq_div_mult)
  moreover have "(int k + 1) * step = off + step" unfolding k(1) by (simp only: distrib_right mult_1)
  ultimately show "off < n" using pos_mod_sign [OF assms(2), of "n + step - 1"] by linarith
qed

lemma tcp_chunks_ok: "d \<in> set (tcp_chunks data) \<Longrightarrow> payload_ok d"
  using py_range_mem [of _ "int (length data)" TCP_MAX_PAYLOAD]
  by (auto simp: tcp_chunks_def payload_ok_def TCP_MAX_PAYLOAD_def slice_nat nat_add_distrib)

lemma net_at_zero: "net_at P 0 0 0 = net_inv P"
  by (simp add: net_at_def fun_eq_iff)

context nic_driver
begin

lemma tcp_connect_inv:
  assumes "net_inv P s" "addr_ok ip" "0 \<le> port" "port < 65536" "length lip = 4"
  shows "wp (tcp_connect env ip port lip) (\<lambda>_. net_inv P) (\<lambda>_. net_inv P) s"
proof (cases "ip_from_str ip")
  case (Inl e)
  then show ?thesis using assms(1) by (simp add: tcp_connect_def wp_simps)
next
  case (Inr rip)
  let ?s = "s\<lparr>next_port := (next_port s + 1 - 49152) mod 16384 + 49152\<rparr>"
  have J: "net_at P 0 0 0 ?s" and p: "0 \<le> next_port s" "next_port s < 65536"
    using assms(1) pos_mod_bound [of 16384 "next_port s + 1 - 49152"]
    by (auto simp: net_at_def net_inv_def)
  have rip: "length rip = 4" using assms(2) Inr by (simp add: addr_ok_def)
  show ?thesis
    unfolding tcp_connect_def alloc_port_def Let_def wp_simps Inr sum.case
    by (rule wp_mono [OF new_conn_wp [OF J assms(5) rip p assms(3,4)]])
      (auto simp: wp_simps coro_wf_def intro!: wp_mono [OF spawn_run_inv [OF net_at_table]])
qed

lemma tcp_send_inv:
  assumes "net_inv P s" "c < length (conns s)"
  shows "wp (tcp_send env c data) (\<lambda>_. net_inv P) (\<lambda>_. net_inv P) s"
  unfolding tcp_send_def
  by (rule spawn_run_inv [OF net_at_refl [OF assms(1)]])
    (use assms(2) tcp_chunks_ok in \<open>auto simp: coro_wf_def\<close>)

lemma tcp_recv_inv:
  assumes "net_inv P s" "c < length (conns s)"
  shows "wp (tcp_recv c n) (\<lambda>_. net_inv P) (\<lambda>_. net_inv P) s"
proof -
  obtain r k where rk: "conn_recv n (conns s ! c) = (r, k)" by fastforce
  have "conn_wf (conns s ! c)" using net_at_conn_wf [OF net_at_refl [OF assms(1)] assms(2)] .
  then have k: "conn_wf k" "conn_key k = conn_key (conns s ! c)"
    using rk by (auto simp: conn_recv_def conn_wf_def conn_key_def split: if_splits)
  have "net_inv P (s\<lparr>conns := (conns s)[c := k]\<rparr>)"
    using assms(1) k table_wf_update [of "connections s" "conns s" k c]
    by (auto simp: net_inv_def dest: set_mp [OF set_update_subset_insert])
  then show ?thesis by (simp add: tcp_recv_def wp_simps conn_update_def rk)
qed

lemma conn_close_inv:
  assumes "net_inv P s" "c < length (conns s)"
  shows "wp (conn_close c) (\<lambda>_. net_inv P) (\<lambda>_. net_inv P) s"
proof -
  let ?J = "net_at P (length (conns s)) (length (listener_objs s)) (length (arp_futs (arp s)))"
  have co: "coro_wf (length (conns s)) (length (listener_objs s)) (CoSend c (F_FIN OR F_ACK) [])"
    using assms(2) flags_ok by (simp add: coro_wf_def)
  have "wp (conn_close c) (\<lambda>_. ?J) (\<lambda>_. ?J) s"
    using net_at_refl [OF assms(1)] assms(2) co
    by (auto simp: conn_close_def wp_simps conn_safe_intros
        intro!: wp_mono [OF ensure_future_wp] conn_update_wp)
  then show ?thesis by (rule wp_mono) (simp_all add: net_at_def)
qed

lemma tcp_listen_inv:
  assumes "net_inv P s"
  shows "wp (tcp_listen port) (\<lambda>_. net_inv P) (\<lambda>_. net_inv P) s"
proof -
  let ?l = "length (listener_objs s)"
  have "listeners_wf (AList.update port ?l (listeners s)) (listener_objs s @ [\<lparr>l_port = port, l_queue = []\<rparr>]) (length (conns s))"
    using assms
    by (fastforce simp: net_inv_def listeners_wf_def distinct_update nth_append dest!: alist_update_mem)
  moreover have "task_wf (length (conns s)) (Suc ?l) (length (arp_futs (arp s))) t" if "t \<in> set (tasks s)" for t
    by (rule task_wf_mono) (use assms that in \<open>auto simp: net_inv_def\<close>)
  ultimately show ?thesis
    using assms by (auto simp: tcp_listen_def wp_simps net_inv_def)
qed

lemma tcp_unlisten_inv:
  "net_inv P s \<Longrightarrow> wp (tcp_unlisten port lst) (\<lambda>_. net_inv P) (\<lambda>_. net_inv P) s"
  by (auto simp: tcp_unlisten_def wp_simps net_inv_def listeners_wf_def distinct_delete)

lemma listener_close_inv:
  "net_inv P s \<Longrightarrow> wp (listener_close l) (\<lambda>_. net_inv P) (\<lambda>_. net_inv P) s"
  by (simp add: listener_close_def wp_simps tcp_unlisten_inv)

lemma listener_accept_inv:
  assumes "net_inv P s" "l < length (listener_objs s)"
  shows "wp (listener_accept l) (\<lambda>_. net_inv P) (\<lambda>_. net_inv P) s"
proof (cases "l_queue (listener_objs s ! l)")
  case Nil
  then show ?thesis using assms(1) by (simp add: listener_accept_def wp_simps)
next
  case (Cons c q)
  have "\<forall>c \<in> set (l_queue (listener_objs s ! l)). c < length (conns s)"
    using assms(1) nth_mem [OF assms(2)] unfolding net_inv_def listeners_wf_def by blast
  then have "c < length (conns s)" using Cons by simp
  then have "net_at P (length (conns s)) 0 0
      (s\<lparr>listener_objs := (listener_objs s)[l := (listener_objs s ! l)\<lparr>l_queue := q\<rparr>]\<rparr>)"
    using assms(1) Cons by (intro net_at_queue [where c = c]) (auto simp: net_at_def)
  then show ?thesis by (simp add: listener_accept_def wp_simps Cons net_at_def)
qed

lemma arp_reply_wp:
  assumes "net_inv P s"
  shows "wp (arp_reply payload) (\<lambda>r t. t = s \<and> (\<forall>frame. r = Some frame \<longrightarrow> wire_ok frame)) (\<lambda>_ t. t = s) s"
proof -
  have m: "length (local_mac s) = 6" using assms by (simp add: net_inv_def)
  have "\<exists>raw. ether_encode \<lparr>eth_dst = slice payload 8 14, eth_src = local_mac s,
      ethertype = ETHERTYPE_ARP, eth_payload = p\<rparr> = Inr raw \<and> wire_ok raw"
    if "arp_packet 2 (local_mac s) (local_ip s) (slice payload 8 14) (slice payload 14 18) = Inr p"
      "28 \<le> length payload" for p
    using that m by (intro arp_frame_wire [OF that(1)]) (auto simp: ARP_REPLY_def slice_nat)
  then show ?thesis
    by (auto simp: arp_reply_def wp_simps Let_def unpack_be_def split: sum.split)
qed

lemma ip_handle_wp:
  assumes "net_at P nc nl nf s" "length (eth_src frame) = 6"
  shows "wp (ip_handle env frame sync) (\<lambda>_. net_at P nc nl nf) (\<lambda>_. net_at P nc nl nf) s"
proof -
  have a: "arp_wf (arp s)" using assms(1) by (simp add: net_at_def net_inv_def)
  show ?thesis
    unfolding ip_handle_def wp_simps
    using assms a
    by (auto intro!: handle_ip_packet_wp net_at_arp arp_wf_learn dest: ipv4_decode_ok split: sum.split)
qed

lemma arp_handle_wp:
  assumes "net_at P nc nl nf s"
  shows "wp (arp_handle payload) (\<lambda>_. net_at P nc nl nf) (\<lambda>_. net_at P nc nl nf) s"
proof -
  have a: "arp_wf (arp s)" using assms by (simp add: net_at_def net_inv_def)
  have "net_at P nc nl nf (s\<lparr>arp := arp_handle_frame payload (arp s)\<rparr>)"
    using assms a by (intro net_at_arp) (auto simp: arp_handle_frame_def slice_nat intro!: arp_wf_learn)
  then show ?thesis by (simp add: arp_handle_def wp_simps)
qed

lemma dispatch_sync_wp:
  assumes "net_at P nc nl nf s" "length (eth_src frame) = 6"
  shows "wp (dispatch_sync env frame) (\<lambda>_. net_at P nc nl nf) (\<lambda>_. net_at P nc nl nf) s"
proof -
  have reply: "wp (maybe_send_arp_reply_sync env pl) (\<lambda>_. net_at P nc nl nf) (\<lambda>_. net_at P nc nl nf) t"
    if t: "net_at P nc nl nf t" for t pl
  proof -
    have "net_inv P t" using t by (simp add: net_at_def)
    from arp_reply_wp [OF this] show ?thesis
      unfolding maybe_send_arp_reply_sync_def wp_bind
      by (rule wp_mono) (use t in \<open>auto simp: wp_simps send_frame_nowait_wp split: option.split\<close>)
  qed
  show ?thesis
    unfolding dispatch_sync_def
    using assms ip_handle_wp reply by (auto simp: wp_simps intro!: wp_mono [OF arp_handle_wp])
qed

lemma poll_once_wp:
  assumes "net_at P nc nl nf s"
  shows "wp (poll_once env) (\<lambda>_. net_at P nc nl nf) (\<lambda>_ _. False) s"
proof -
  have rx: "net_at P nc nl nf (s\<lparr>nic := Some (snd (g d))\<rparr>)" if "nic s = Some d" "nic_recv_nowait env = Some g" for d g
    using assms that recv_nowait_keeps by (simp add: net_at_def net_inv_def)
  show ?thesis
    unfolding poll_once_def wp_simps
    using assms rx
    by (auto simp: wp_simps case_prod_unfold Let_def ether_decode_lengths
        intro!: wp_mono [OF dispatch_sync_wp] split: option.split sum.split)
qed

end

context nic_driver
begin

lemma poll_all_keeps:
  assumes "poll_all env s = Some s'" "net_at P nc nl nf s"
  shows "net_at P nc nl nf s'"
proof -
  let ?J = "net_at P nc nl nf"
  have "env = env \<longrightarrow> ?J s \<longrightarrow> ?J s'"
  proof (rule poll_all.raw_induct [OF _ assms(1), where P = "\<lambda>e t t'. e = env \<longrightarrow> ?J t \<longrightarrow> ?J t'"])
    fix f :: "'n NIC \<Rightarrow> 'n net \<Rightarrow> 'n net option" and e t t'
    assume IH: "\<And>e t t'. f e t = Some t' \<Longrightarrow> e = env \<longrightarrow> ?J t \<longrightarrow> ?J t'"
      and step: "(case poll_once e t of (Inl x, u) \<Rightarrow> Some u
                  | (Inr again, u) \<Rightarrow> if again then f e u else Some u) = Some t'"
    show "e = env \<longrightarrow> ?J t \<longrightarrow> ?J t'"
    proof (intro impI)
      assume e: "e = env" and "?J t"
      from poll_once_wp [OF this(2)] obtain again u where u: "poll_once env t = (Inr again, u)" "?J u"
        by (rule wp_totalE)
      show "?J t'" using step IH u by (auto simp: e split: if_splits)
    qed
  qed
  then show ?thesis using assms(2) by blast
qed

lemma send_nowait_loop_keeps:
  assumes "send_nowait_loop env c sent ds s = Some (r, s')" "net_at P nc nl nf s" "c < nc"
    "\<forall>d \<in> set ds. payload_ok d"
  shows "net_at P nc nl nf s'"
  using assms
proof (induction ds arbitrary: s sent)
  case Nil
  then show ?case by (auto intro: poll_all_keeps split: option.splits)
next
  case (Cons d ds)
  obtain x t where x: "send_segment_nowait env c (F_ACK OR F_PSH) d s = (x, t)" by fastforce
  have t: "net_at P nc nl nf t"
    using send_segment_nowait_wp [OF Cons.prems(2,3) flags_ok(1,2), of d] Cons.prems(4) x
    by (auto simp: wp_def split: sum.splits)
  show ?case
    using Cons.prems(1,4) Cons.IH [OF _ _ Cons.prems(3)] t
    by (auto simp: x intro: poll_all_keeps split: sum.splits if_splits option.splits)
qed

lemma rx_reply_turn_inv:
  assumes "net_inv P s" "wire_ok frame"
  shows "wp (rx_reply_turn env frame) (\<lambda>_. net_inv P) (\<lambda>_. net_inv P) s"
  unfolding rx_reply_turn_def wp_bind
  by (rule wp_mono [OF nic_send_turn_wp [of 0 0 0 s frame]])
    (use assms in \<open>auto simp: net_at_zero wp_simps net_inv_def\<close>)

lemma rx_turn_inv:
  assumes "net_inv P s"
  shows "wp (rx_turn env) (\<lambda>_. net_inv P) (\<lambda>_ _. False) s"
proof -
  have dispatch: "wp (net_dispatch env frame) (\<lambda>_. net_inv P) (\<lambda>_. net_inv P) t"
    if t: "net_inv P t" and f: "length (eth_src frame) = 6" for t frame
  proof -
    have "wp (arp_reply pl) (\<lambda>r. wp (case r of None \<Rightarrow> ret () | Some reply \<Rightarrow> rx_reply_turn env reply)
        (\<lambda>_. net_inv P) (\<lambda>_. net_inv P)) (\<lambda>_. net_inv P) u" if u: "net_inv P u" for u pl
      by (rule wp_mono [OF arp_reply_wp [OF u]]) (use u in \<open>auto simp: wp_simps rx_reply_turn_inv split: option.split\<close>)
    then show ?thesis
      using t f ip_handle_wp [of 0 0 0 t frame False]
      by (auto simp: net_dispatch_def wp_simps net_at_zero
          intro!: wp_mono [OF arp_handle_wp [of 0 0 0, unfolded net_at_zero]])
  qed
  have rx: "net_inv P (s\<lparr>nic := Some (snd (nic_recv env d))\<rparr>)" if "nic s = Some d" for d
    using assms that recv_keeps by (simp add: net_inv_def)
  have reply: "wire_ok r" if "rx_loop s = RxReply r" for r using assms that by (simp add: net_inv_def)
  have idle: "net_inv P (t\<lparr>rx_loop := RxRecv\<rparr>)" if "net_inv P t" for t using that by (simp add: net_inv_def)
  show ?thesis
    unfolding rx_turn_def wp_simps
    using assms rx reply
    by (auto simp: wp_simps case_prod_unfold Let_def ether_decode_lengths idle
        intro!: wp_mono [OF dispatch] wp_mono [OF rx_reply_turn_inv] split: option.split sum.split rx_pc.split)
qed

lemma net_init_inv:
  assumes "net_inv P s" "P d" "length (nic_mac env d) = 6" "addr_ok a" "addr_ok g"
  shows "wp (net_init env d a g m) (\<lambda>_. net_inv P) (\<lambda>_. net_inv P) s"
  using assms
  by (auto simp: net_init_def wp_simps net_inv_def addr_ok_def split: sum.splits)

end

subsection \<open>All interleavings\<close>

text \<open>
  One step is one uninterrupted stretch of execution. Application calls name connections and
  listeners they were given; every other argument is arbitrary, and so is the order of steps.
\<close>

inductive net_step :: "'n NIC \<Rightarrow> ('n \<Rightarrow> bool) \<Rightarrow> 'n net \<Rightarrow> 'n net \<Rightarrow> bool" for env P where
  Init: "P d \<Longrightarrow> length (nic_mac env d) = 6 \<Longrightarrow> addr_ok a \<Longrightarrow> addr_ok g \<Longrightarrow>
           net_step env P s (snd (net_init env d a g m s))"
| Listen: "net_step env P s (snd (tcp_listen port s))"
| Unlisten: "net_step env P s (snd (tcp_unlisten port lst s))"
| Listener_close: "l < length (listener_objs s) \<Longrightarrow> net_step env P s (snd (listener_close l s))"
| Accept: "l < length (listener_objs s) \<Longrightarrow> net_step env P s (snd (listener_accept l s))"
| Connect: "addr_ok ip \<Longrightarrow> 0 \<le> port \<Longrightarrow> port < 65536 \<Longrightarrow> length lip = 4 \<Longrightarrow>
           net_step env P s (snd (tcp_connect env ip port lip s))"
| Send: "c < length (conns s) \<Longrightarrow> net_step env P s (snd (tcp_send env c data s))"
| Send_nowait: "c < length (conns s) \<Longrightarrow> tcp_send_nowait env c data s = Some (r, s') \<Longrightarrow> net_step env P s s'"
| Recv: "c < length (conns s) \<Longrightarrow> net_step env P s (snd (tcp_recv c n s))"
| Close: "c < length (conns s) \<Longrightarrow> net_step env P s (snd (conn_close c s))"
| Run: "net_step env P s (snd (run_task env i s))"
| Timeout: "net_step env P s (snd (timeout_task env i s))"
| Rx: "net_step env P s (snd (rx_turn env s))"
| Poll: "net_step env P s (snd (poll_once env s))"

context nic_driver
begin

lemma net_step_inv: "net_step env P s s' \<Longrightarrow> net_inv P s \<Longrightarrow> net_inv P s'"
proof (induction rule: net_step.induct)
  case (Send_nowait c s data r s')
  have "net_at P (length (conns s)) 0 0 s'"
    by (rule send_nowait_loop_keeps [OF Send_nowait(2) [unfolded tcp_send_nowait_def]])
      (use Send_nowait tcp_chunks_ok in \<open>auto simp: net_at_def\<close>)
  then show ?case by (simp add: net_at_def)
next
  case (Poll s)
  from poll_once_wp [of 0 0 0 s, unfolded net_at_zero, OF this] show ?case by (rule wp_totalE) simp
next
  case (Rx s)
  from rx_turn_inv [OF this] show ?case by (rule wp_totalE) simp
qed (simp_all add: wp_snd [symmetric] net_init_inv tcp_listen_inv tcp_unlisten_inv listener_close_inv
  listener_accept_inv tcp_connect_inv tcp_send_inv tcp_recv_inv conn_close_inv run_task_inv timeout_task_inv)

lemma net_boot_inv: "net_inv P net_boot"
  by (simp add: net_inv_def net_boot_def arp_wf_def arp_empty_def table_wf_def listeners_wf_def)

lemma net_reachable_inv: "(net_step env P)\<^sup>*\<^sup>* net_boot s \<Longrightarrow> net_inv P s"
  by (induction rule: rtranclp_induct) (auto intro: net_boot_inv net_step_inv)

end

end
