(* ===== verification/NetWire.thy ===== *)
theory NetWire
  imports NetInv
begin

unbundle bit_operations_syntax

section \<open>Two hosts on a wire\<close>

text \<open>
  A driver that is a pair of queues, which meets the contract of \<open>nic_driver\<close>, and what two stacks
  connected by it guarantee: the bytes one side sends are the bytes the other side's receive buffer
  gains, in order and complete, and the acknowledgement number follows the sender's sequence number.
\<close>

record wire =
  inbox :: "byte list list"
  outbox :: "byte list list"

definition wire_recv :: "wire \<Rightarrow> byte list option \<times> wire" where
  "wire_recv w = (case inbox w of [] \<Rightarrow> (None, w) | f # fs \<Rightarrow> (Some f, w\<lparr>inbox := fs\<rparr>))"

definition wire_send :: "wire \<Rightarrow> byte list \<Rightarrow> bool \<times> wire" where
  "wire_send w f = (True, w\<lparr>outbox := outbox w @ [f]\<rparr>)"

definition wire_nic :: "byte list \<Rightarrow> int \<Rightarrow> wire NIC" where
  "wire_nic mac isn0 = \<lparr>nic_mac = (\<lambda>_. mac), nic_send_nowait = Some wire_send,
     nic_recv_nowait = Some wire_recv, nic_send = wire_send, nic_recv = wire_recv,
     nic_isn = (\<lambda>k. (isn0 + int k) mod 2 ^ 32)\<rparr>"

interpretation wn: nic_driver "wire_nic mac isn0" "\<lambda>w. \<forall>f \<in> set (outbox w). wire_ok f" for mac isn0
  by unfold_locales
    (auto simp: wire_nic_def wire_send_def wire_recv_def split: list.splits)

subsection \<open>The sender\<close>

abbreviation data_flags :: int where
  "data_flags \<equiv> F_ACK OR F_PSH"

definition hop_of :: "'n net \<Rightarrow> byte list \<Rightarrow> byte list" where
  "hop_of s dst = (if slice dst 0 3 = slice (local_ip s) 0 3 then dst else gateway s)"

text \<open>The connection can transmit: its peer's next hop is resolved and a driver is attached.\<close>

definition tx_ready :: "wire net \<Rightarrow> nat \<Rightarrow> byte list \<Rightarrow> bool" where
  "tx_ready s c mac \<longleftrightarrow> c < length (conns s) \<and> conn_wf (conns s ! c) \<and> length (local_mac s) = 6
     \<and> nic s \<noteq> None \<and> arp_lookup (arp s) (hop_of s (c_remote_ip (conns s ! c))) = Some mac \<and> length mac = 6"

lemma wire_send_segment:
  assumes "tx_ready s c mac" "nic s = Some w" "payload_ok d" "0 \<le> fl" "fl < 512"
  defines "k \<equiv> conns s ! c"
  shows "\<exists>f i. send_segment_nowait (wire_nic m i0) c fl d s =
      (Inr True, s\<lparr>nic := Some (w\<lparr>outbox := outbox w @ [f]\<rparr>), ip_counter := i,
                   conns := (conns s)[c := advance_seq fl d k]\<rparr>)
    \<and> carries mac (local_mac s) (c_local_ip k) (c_remote_ip k) f (conn_segment k fl d)"
proof -
  have k: "conn_wf k" "length (local_mac s) = 6" "length mac = 6"
    and hop: "arp_lookup (arp s) (hop_of s (c_remote_ip k)) = Some mac"
    using assms(1) by (simp_all add: tx_ready_def k_def)
  have ips: "length (c_local_ip k) = 4" "length (c_remote_ip k) = 4" using k(1) by (simp_all add: conn_wf_def)
  obtain f where f: "build_tcp_frame (conn_segment k fl d) (c_local_ip k) (c_remote_ip k) mac s
      = (Inr f, s\<lparr>ip_counter := (ip_counter s + 1) mod 65536\<rparr>)"
      "carries mac (local_mac s) (c_local_ip k) (c_remote_ip k) f (conn_segment k fl d)"
    using build_tcp_frame_spec [OF conn_segment_ok [OF k(1) assms(4,5,3)] ips k(3,2)] by blast
  have "send_segment_nowait (wire_nic m i0) c fl d s =
      (Inr True, s\<lparr>nic := Some (w\<lparr>outbox := outbox w @ [f]\<rparr>), ip_counter := (ip_counter s + 1) mod 65536,
                   conns := (conns s)[c := advance_seq fl d k]\<rparr>)"
    using hop assms(2) f(1)
    by (simp add: send_segment_nowait_def send_tcp_segment_nowait_def choose_hop_def hop_of_def
        send_frame_nowait_def wire_nic_def wire_send_def conn_update_def bind_def k_def [symmetric])
  then show ?thesis using f(2) by blast
qed

lemma poll_all_quiet:
  assumes "nic s = Some w" "inbox w = []"
  shows "poll_all (wire_nic m i0) s = Some s"
proof -
  have "s\<lparr>nic := Some w\<rparr> = s" using assms(1) by simp
  then have "poll_once (wire_nic m i0) s = (Inr False, s)"
    using assms by (simp add: poll_once_def wire_nic_def wire_recv_def)
  then show ?thesis by (subst poll_all.simps) simp
qed

text \<open>The segments a run of chunks is sent as.\<close>

fun stream :: "TCPConnection \<Rightarrow> byte list list \<Rightarrow> TCPSegment list" where
  "stream k [] = []"
| "stream k (d # ds) = conn_segment k data_flags d # stream (advance_seq data_flags d k) ds"

lemma advance_seq_keeps [simp]:
  "c_local_ip (advance_seq fl d k) = c_local_ip k" "c_remote_ip (advance_seq fl d k) = c_remote_ip k"
  "c_local_port (advance_seq fl d k) = c_local_port k" "c_remote_port (advance_seq fl d k) = c_remote_port k"
  "conn_wf k \<Longrightarrow> conn_wf (advance_seq fl d k)"
  using advance_seq_safe by (auto simp: advance_seq_def conn_wf_def and_mask_mod)

lemma wire_send_loop:
  assumes "tx_ready s c mac" "nic s = Some w" "inbox w = []" "\<forall>d \<in> set ds. payload_ok d"
  shows "\<exists>s' w' fs. send_nowait_loop (wire_nic m i0) c n ds s = Some (Inr True, s')
    \<and> nic s' = Some w' \<and> inbox w' = [] \<and> outbox w' = outbox w @ fs
    \<and> list_all2 (carries mac (local_mac s) (c_local_ip (conns s ! c)) (c_remote_ip (conns s ! c))) fs (stream (conns s ! c) ds)
    \<and> conns s' ! c = fold (advance_seq data_flags) ds (conns s ! c)"
  using assms
proof (induction ds arbitrary: s w n)
  case Nil
  then show ?case using poll_all_quiet [OF Nil(2,3)] by (auto intro!: exI [of _ "[]"])
next
  case (Cons d ds)
  let ?k = "conns s ! c"
  obtain f i where f: "send_segment_nowait (wire_nic m i0) c data_flags d s =
      (Inr True, s\<lparr>nic := Some (w\<lparr>outbox := outbox w @ [f]\<rparr>), ip_counter := i,
                   conns := (conns s)[c := advance_seq data_flags d ?k]\<rparr>)"
      (is "_ = (_, ?t)")
      "carries mac (local_mac s) (c_local_ip ?k) (c_remote_ip ?k) f (conn_segment ?k data_flags d)"
    using wire_send_segment [OF Cons.prems(1,2) _ flags_ok(1,2)] Cons.prems(4) by force
  have k: "conns ?t ! c = advance_seq data_flags d ?k" using Cons.prems(1) by (simp add: tx_ready_def)
  have rdy: "tx_ready ?t c mac" using Cons.prems(1) by (auto simp: tx_ready_def hop_of_def split: if_splits)
  obtain s' w' fs where IH: "send_nowait_loop (wire_nic m i0) c (Suc n) ds ?t = Some (Inr True, s')"
      "nic s' = Some w'" "inbox w' = []" "outbox w' = (outbox w @ [f]) @ fs"
      "list_all2 (carries mac (local_mac s) (c_local_ip ?k) (c_remote_ip ?k)) fs
         (stream (advance_seq data_flags d ?k) ds)"
      "conns s' ! c = fold (advance_seq data_flags) ds (advance_seq data_flags d ?k)"
    using Cons.IH [OF rdy, of "w\<lparr>outbox := outbox w @ [f]\<rparr>" "Suc n"] Cons.prems(3,4) k by auto
  have "poll_all (wire_nic m i0) ?t = Some ?t" by (rule poll_all_quiet [of _ "w\<lparr>outbox := outbox w @ [f]\<rparr>"]) (use Cons.prems(3) in auto)
  then have "send_nowait_loop (wire_nic m i0) c n (d # ds) s = Some (Inr True, s')"
    using f(1) IH(1) by simp
  then show ?case using IH f(2) by (auto intro!: exI [of _ "f # fs"])
qed

subsection \<open>The receiver\<close>

text \<open>Sending a bare acknowledgement changes no connection, no table and no frame to come.\<close>

definition same_conns :: "wire net \<Rightarrow> wire net \<Rightarrow> bool" where
  "same_conns s t \<longleftrightarrow> conns t = conns s \<and> connections t = connections s
     \<and> map_option inbox (nic t) = map_option inbox (nic s)"

lemma send_ack_quiet:
  "wp (send_ack (wire_nic m i0) c True) (\<lambda>_. same_conns s) (\<lambda>_. same_conns s) s"
proof -
  have adv: "advance_seq F_ACK [] k = k" for k
    by (simp add: advance_seq_def F_ACK_def F_SYN_def F_FIN_def)
  have frame: "wp (send_frame_nowait (wire_nic m i0) f) (\<lambda>_. same_conns s) (\<lambda>_. same_conns s) t"
    if "same_conns s t" for f t
    using that by (auto simp: wp_def send_frame_nowait_def wire_nic_def wire_send_def same_conns_def split: option.split)
  have build: "wp (build_tcp_frame sg src dst mac) (\<lambda>_. same_conns s) (\<lambda>_. same_conns s) t"
    if "same_conns s t" for sg src dst mac t
    using that
    by (auto simp: build_tcp_frame_def wp_simps ip_encode_def same_conns_def wp_def split: sum.split prod.split)
  have refl: "same_conns s s" by (simp add: same_conns_def)
  have "wp (send_tcp_segment_nowait (wire_nic m i0) sg src dst) (\<lambda>_. same_conns s) (\<lambda>_. same_conns s) s" for sg src dst
    using refl frame [OF refl]
    by (auto simp: send_tcp_segment_nowait_def wp_simps choose_hop_def
        intro!: wp_mono [OF build] frame wp_mono [OF frame] split: option.split sum.split)
  then show ?thesis
    unfolding send_ack_def if_True send_segment_nowait_def wp_simps
    by (rule wp_mono) (auto simp: wp_simps conn_update_def adv same_conns_def)
qed

definition absorb :: "TCPSegment \<Rightarrow> TCPConnection \<Rightarrow> TCPConnection" where
  "absorb sg k = k\<lparr>snd_ack := (seq sg + int (length (seg_payload sg))) AND 0xFFFFFFFF,
     rcv_buf := rcv_buf k @ seg_payload sg, rx_event := True\<rparr>"

definition rx_ready :: "wire net \<Rightarrow> nat \<Rightarrow> TCPConnection \<Rightarrow> bool" where
  "rx_ready t r peer \<longleftrightarrow> r < length (conns t) \<and> c_state (conns t ! r) = ESTABLISHED
     \<and> map_of (connections t) (c_remote_ip peer, c_remote_port peer, c_local_ip peer, c_local_port peer) = Some r"

lemma poll_deliver:
  assumes "rx_ready t r k" "nic t = Some w" "inbox w = f # fs"
    and f: "carries mac smac (c_local_ip k) (c_remote_ip k) f sg"
    and sg: "src_port sg = c_local_port k" "dst_port sg = c_remote_port k" "seg_payload sg \<noteq> []" "flags sg AND F_FIN = 0"
  shows "wp (poll_once (wire_nic m i0)) (\<lambda>again t'. again \<and> conns t' = (conns t)[r := absorb sg (conns t ! r)]
      \<and> connections t' = connections t \<and> map_option inbox (nic t') = Some fs) (\<lambda>_ _. False) t"
proof -
  obtain pkt payload where d: "ether_decode f = Inr \<lparr>eth_dst = mac, eth_src = smac,
        ethertype = ETHERTYPE_IPv4, eth_payload = pkt\<rparr>"
      "ipv4_decode pkt = Inr (tcp_packet (c_local_ip k) (c_remote_ip k) payload)" "tcp_decode payload = Some sg"
    using f by (auto simp: carries_def)
  have len: "\<not> length f < 14" using d(1) by (auto simp: ether_decode_def split: if_splits)
  let ?a = "arp_learn (c_local_ip k) smac"
  let ?t = "t\<lparr>nic := Some (w\<lparr>inbox := fs\<rparr>), arp := ?a (arp t), conns := (conns t)[r := absorb sg (conns t ! r)]\<rparr>"
  have ack: "wp (send_ack (wire_nic m i0) r True) (\<lambda>_. same_conns ?t) (\<lambda>_. same_conns ?t) ?t"
    by (rule send_ack_quiet)
  let ?Q = "\<lambda>t'. conns t' = (conns t)[r := absorb sg (conns t ! r)]
      \<and> connections t' = connections t \<and> map_option inbox (nic t') = Some fs"
  have ackQ: "wp (send_ack (wire_nic m i0) r True) (\<lambda>_. ?Q) (\<lambda>_. ?Q) ?t"
    by (rule wp_mono [OF ack]) (simp_all add: same_conns_def)
  have fin: "handle_fin (wire_nic m i0) r sg True = ret ()" using sg(4) by (simp add: handle_fin_def)
  have rcv: "poll_once (wire_nic m i0) t = bind (catch (bind (lift_res (ether_decode f)) (dispatch_sync (wire_nic m i0)))
      (\<lambda>e. ret ())) (\<lambda>_. ret True) (t\<lparr>nic := Some (w\<lparr>inbox := fs\<rparr>)\<rparr>)"
    using assms(2,3) len by (simp add: poll_once_def wire_nic_def wire_recv_def)
  have "wp (dispatch_sync (wire_nic m i0) \<lparr>eth_dst = mac, eth_src = smac, ethertype = ETHERTYPE_IPv4, eth_payload = pkt\<rparr>)
      (\<lambda>_. ?Q) (\<lambda>_. ?Q) (t\<lparr>nic := Some (w\<lparr>inbox := fs\<rparr>)\<rparr>)"
    using assms(1-3) sg
    by (simp add: dispatch_sync_def ETHERTYPE_IPv4_def ETHERTYPE_ARP_def ip_handle_def d(2,3) wp_simps
        handle_ip_packet_def tcp_packet_def PROTO_TCP_def Let_def rx_ready_def handle_segment_def
        handle_data_def conn_update_def fin absorb_def [symmetric] ackQ [simplified])
  then show ?thesis unfolding wp_def rcv by (auto simp: bind_def catch_def d(1) split: sum.splits prod.splits)
qed

lemma poll_all_stream:
  assumes "rx_ready t r k" "nic t = Some w"
    "list_all2 (carries mac smac (c_local_ip k) (c_remote_ip k)) (inbox w) (stream k ds)" "\<forall>d \<in> set ds. d \<noteq> []"
  shows "\<exists>t'. poll_all (wire_nic m i0) t = Some t' \<and> conns t' ! r = fold absorb (stream k ds) (conns t ! r)"
  using assms
proof (induction ds arbitrary: k t w)
  case Nil
  then show ?case using poll_all_quiet by fastforce
next
  case (Cons d ds)
  let ?sg = "conn_segment k data_flags d"
  obtain f fs where fs: "inbox w = f # fs" "carries mac smac (c_local_ip k) (c_remote_ip k) f ?sg"
      "list_all2 (carries mac smac (c_local_ip k) (c_remote_ip k)) fs (stream (advance_seq data_flags d k) ds)"
    using Cons.prems(3) by (auto simp: list_all2_Cons2)
  have "data_flags AND F_FIN = 0" by (simp add: F_ACK_def F_PSH_def F_FIN_def)
  then obtain t' where t': "poll_once (wire_nic m i0) t = (Inr True, t')"
      "conns t' = (conns t)[r := absorb ?sg (conns t ! r)]" "connections t' = connections t"
      "map_option inbox (nic t') = Some fs"
    using poll_deliver [OF Cons.prems(1,2) fs(1,2), of m i0] Cons.prems(4)
    by (auto simp: conn_segment_def elim!: wp_totalE)
  then obtain w' where w': "nic t' = Some w'" "inbox w' = fs" by auto
  have r: "rx_ready t' r (advance_seq data_flags d k)"
    using Cons.prems(1) t'(2,3) by (auto simp: rx_ready_def absorb_def)
  have "conns t' ! r = absorb ?sg (conns t ! r)" using Cons.prems(1) t'(2) by (simp add: rx_ready_def)
  with Cons.IH [OF r w'(1)] fs(3) w'(2) Cons.prems(4) t'(1) show ?case
    by (subst poll_all.simps) simp
qed

lemma absorb_stream:
  assumes "conn_wf k" "\<forall>d \<in> set ds. d \<noteq> []"
  shows "rcv_buf (fold absorb (stream k ds) q) = rcv_buf q @ concat ds"
    and "ds \<noteq> [] \<Longrightarrow> snd_ack (fold absorb (stream k ds) q) = snd_seq (fold (advance_seq data_flags) ds k)"
proof -
  show "rcv_buf (fold absorb (stream k ds) q) = rcv_buf q @ concat ds"
    by (induction ds arbitrary: k q) (simp_all add: absorb_def conn_segment_def)
  show "snd_ack (fold absorb (stream k ds) q) = snd_seq (fold (advance_seq data_flags) ds k)" if "ds \<noteq> []"
    using that assms(2)
  proof (induction ds arbitrary: k q)
    case (Cons d ds)
    show ?case
    proof (cases ds)
      case Nil
      have "1 \<le> int (length d)" using Cons.prems(2) by (cases d) auto
      with Nil Cons.prems(2) show ?thesis
        by (simp add: absorb_def conn_segment_def advance_seq_def max_def)
    next
      case (Cons d' ds')
      then show ?thesis using Cons.IH [of "advance_seq data_flags d k"] Cons.prems by simp
    qed
  qed simp
qed

subsection \<open>Cutting into chunks\<close>

lemma py_range_step:
  assumes "0 < n" "0 < step"
  shows "py_range n step = 0 # map ((+) step) (py_range (n - step) step)"
proof -
  have q: "(n + step - 1) div step = (n - 1) div step + 1"
    using assms(2) div_add_self2 [of step "n - 1"] by (simp add: algebra_simps)
  have "nat ((n + step - 1) div step) = Suc (nat ((n - step + step - 1) div step))"
    unfolding q using assms by (simp add: pos_imp_zdiv_nonneg_iff Suc_nat_eq_nat_zadd1 add.commute)
  then show ?thesis
    unfolding py_range_def
    by (simp add: upt_conv_Cons map_Suc_upt [symmetric] comp_def algebra_simps del: upt_Suc)
qed

lemma tcp_chunks_rec:
  "tcp_chunks data = (if data = [] then [] else take 1200 data # tcp_chunks (drop 1200 data))"
proof (cases "data = []")
  case False
  have "py_range (int (length data) - 1200) 1200 = py_range (int (length (drop 1200 data))) 1200"
    by (cases "1200 \<le> length data") (auto simp: py_range_def of_nat_diff)
  moreover have "slice data (1200 + off) (1200 + off + 1200) = slice (drop 1200 data) off (off + 1200)"
    if "0 \<le> off" for off
    using that by (simp add: slice_nat nat_add_distrib drop_drop add.commute)
  ultimately show ?thesis
    using False py_range_step [of "int (length data)" 1200] py_range_mem(1) [of _ _ 1200]
    by (auto simp: tcp_chunks_def TCP_MAX_PAYLOAD_def slice_nat comp_def)
qed (simp add: tcp_chunks_def py_range_def TCP_MAX_PAYLOAD_def)

lemma tcp_chunks_concat: "concat (tcp_chunks data) = data" "d \<in> set (tcp_chunks data) \<Longrightarrow> d \<noteq> []"
proof -
  have "concat (tcp_chunks data) = data \<and> (\<forall>d \<in> set (tcp_chunks data). d \<noteq> [])"
  proof (induction data rule: length_induct)
    case (1 data)
    then show ?case
      using 1 [rule_format, of "drop 1200 data"]
      by (cases "data = []") (simp_all add: tcp_chunks_rec [of data] tcp_chunks_rec [of "[]"])
  qed
  then show "concat (tcp_chunks data) = data" "d \<in> set (tcp_chunks data) \<Longrightarrow> d \<noteq> []" by auto
qed

subsection \<open>Properties\<close>

definition test_nic :: "wire NIC" where
  "test_nic = wire_nic [2, 0, 0, 0, 0, 1] 7"

definition configured :: "wire net" where
  "configured = snd (net_init test_nic \<lparr>inbox = [], outbox = []\<rparr> ''10.0.2.15'' ''10.0.2.2'' ''255.255.255.0'' net_boot)"

definition connecting :: "wire net" where
  "connecting = snd (tcp_connect test_nic ''10.0.2.2'' 80 [10, 0, 2, 15] configured)"

text \<open>
  C1. Whatever the order of application calls, task turns, timer expiries, synchronous polls and
  arriving frames, the stack keeps its invariant, and the driver is only handed well-formed
  frames of at most 1254 bytes: any property of the driver that such frames preserve still holds.
  The invariant says that the connection table maps each address-and-port key to the one
  connection that has it, that listeners know their port, that accept queues and suspended tasks
  refer to existing objects, and that sequence numbers and ports stay in range.
\<close>

theorem net_stack_safe:
  assumes "nic_driver env P" and "(net_step env P)\<^sup>*\<^sup>* net_boot s"
  shows "net_inv P s"
  using nic_driver.net_reachable_inv [OF assms] .

theorem net_stack_safe_witness:
  "\<exists>w f. nic connecting = Some w \<and> outbox w = [f] \<and> length f = 42 \<and> wire_ok f
     \<and> net_inv (\<lambda>w. \<forall>f \<in> set (outbox w). wire_ok f) connecting"
proof -
  let ?P = "\<lambda>w. \<forall>f \<in> set (outbox w). wire_ok f"
  have addr: "addr_ok ''10.0.2.15''" "addr_ok ''10.0.2.2''" "length (nic_mac test_nic \<lparr>inbox = [], outbox = []\<rparr>) = 6" by code_simp+
  then have "net_step test_nic ?P net_boot configured" unfolding configured_def by (intro Init) simp_all
  moreover have "net_step test_nic ?P configured connecting" unfolding connecting_def by (intro Connect addr) simp_all
  ultimately have "(net_step test_nic ?P)\<^sup>*\<^sup>* net_boot connecting"
    by (meson converse_rtranclp_into_rtranclp rtranclp.rtrancl_refl)
  then have inv: "net_inv ?P connecting" using net_stack_safe [OF wn.nic_driver_axioms] unfolding test_nic_def by blast
  have "map_option (\<lambda>w. map length (outbox w)) (nic connecting) = Some [42]" by code_simp
  then obtain w f where "nic connecting = Some w" "outbox w = [f]" "length f = 42" by auto
  then show ?thesis using inv by (auto simp: net_inv_def)
qed

text \<open>
  C2. Between two hosts with an established connection, everything \<open>send_nowait\<close> is given
  arrives: the call returns, and when the peer has polled the frames it produced, the peer's
  receive buffer has grown by exactly the data, and its acknowledgement number is the sender's
  next sequence number.
\<close>

theorem tcp_stream_delivered:
  assumes "tx_ready s c mac" "nic s = Some w" "inbox w = []" "outbox w = []"
    and "rx_ready t r (conns s ! c)" "nic t = Some v"
  shows "\<exists>s' w' t'. tcp_send_nowait (wire_nic m i) c data s = Some (Inr True, s') \<and> nic s' = Some w'
    \<and> poll_all (wire_nic m' i') (t\<lparr>nic := Some (v\<lparr>inbox := outbox w'\<rparr>)\<rparr>) = Some t'
    \<and> rcv_buf (conns t' ! r) = rcv_buf (conns t ! r) @ data
    \<and> (data = [] \<or> snd_ack (conns t' ! r) = snd_seq (conns s' ! c))"
proof -
  let ?k = "conns s ! c" and ?ds = "tcp_chunks data"
  obtain s' w' fs where s': "tcp_send_nowait (wire_nic m i) c data s = Some (Inr True, s')"
      "nic s' = Some w'" "outbox w' = fs"
      "list_all2 (carries mac (local_mac s) (c_local_ip ?k) (c_remote_ip ?k)) fs (stream ?k ?ds)"
      "conns s' ! c = fold (advance_seq data_flags) ?ds ?k"
    using wire_send_loop [OF assms(1-3), of ?ds m i 0] tcp_chunks_ok assms(4)
    by (auto simp: tcp_send_nowait_def)
  let ?t = "t\<lparr>nic := Some (v\<lparr>inbox := fs\<rparr>)\<rparr>"
  have "rx_ready ?t r ?k" using assms(5) by (simp add: rx_ready_def)
  with s'(4) obtain t' where t': "poll_all (wire_nic m' i') ?t = Some t'"
      "conns t' ! r = fold absorb (stream ?k ?ds) (conns t ! r)"
    using poll_all_stream [of ?t r ?k "v\<lparr>inbox := fs\<rparr>" mac "local_mac s" ?ds m' i'] tcp_chunks_concat(2) by auto
  have "conn_wf ?k" using assms(1) by (simp add: tx_ready_def)
  note a = absorb_stream [OF this, of ?ds "conns t ! r"]
  have "data \<noteq> [] \<Longrightarrow> ?ds \<noteq> []" using tcp_chunks_concat(1) [of data] by auto
  with s' t' a tcp_chunks_concat show ?thesis by metis
qed

text \<open>Two concrete hosts with one established connection between them.\<close>

definition example_conn :: "byte list \<Rightarrow> byte list \<Rightarrow> int \<Rightarrow> int \<Rightarrow> TCPConnection" where
  "example_conn lip rip lport rport = \<lparr>c_local_ip = lip, c_remote_ip = rip, c_local_port = lport,
     c_remote_port = rport, c_state = ESTABLISHED, snd_seq = 4294967290, snd_ack = 0, snd_wnd = 65535,
     rcv_buf = [], rx_event = False, accept_event = True, c_connected = None\<rparr>"

definition example_host :: "byte list \<Rightarrow> byte list \<Rightarrow> byte list \<Rightarrow> byte list \<Rightarrow> int \<Rightarrow> int \<Rightarrow> wire net" where
  "example_host mac lip pmac rip lport rport = net_boot\<lparr>local_ip := lip, local_mac := mac,
     nic := Some \<lparr>inbox = [], outbox = []\<rparr>, arp := arp_learn rip pmac arp_empty,
     conns := [example_conn lip rip lport rport], connections := [((lip, lport, rip, rport), 0)]\<rparr>"

theorem tcp_stream_delivered_witness:
  "\<exists>s' w' t'. tcp_send_nowait (wire_nic [2, 0, 0, 0, 0, 1] 0) 0 [1, 2, 3, 4, 5, 6, 7, 8]
      (example_host [2, 0, 0, 0, 0, 1] [10, 0, 2, 15] [2, 0, 0, 0, 0, 2] [10, 0, 2, 2] 5000 23)
        = Some (Inr True, s') \<and> nic s' = Some w'
    \<and> poll_all (wire_nic [2, 0, 0, 0, 0, 2] 0)
        (example_host [2, 0, 0, 0, 0, 2] [10, 0, 2, 2] [2, 0, 0, 0, 0, 1] [10, 0, 2, 15] 23 5000
           \<lparr>nic := Some \<lparr>inbox = outbox w', outbox = []\<rparr>\<rparr>) = Some t'
    \<and> rcv_buf (conns t' ! 0) = [1, 2, 3, 4, 5, 6, 7, 8]
    \<and> snd_ack (conns t' ! 0) = snd_seq (conns s' ! 0)"
proof -
  let ?a = "example_host [2, 0, 0, 0, 0, 1] [10, 0, 2, 15] [2, 0, 0, 0, 0, 2] [10, 0, 2, 2] 5000 23"
  let ?b = "example_host [2, 0, 0, 0, 0, 2] [10, 0, 2, 2] [2, 0, 0, 0, 0, 1] [10, 0, 2, 15] 23 5000"
  have "tx_ready ?a 0 [2, 0, 0, 0, 0, 2]"
    by (simp add: tx_ready_def example_host_def example_conn_def conn_wf_def hop_of_def arp_lookup_learn
        slice_nat net_boot_def)
  moreover have "rx_ready ?b 0 (conns ?a ! 0)"
    by (simp add: rx_ready_def example_host_def example_conn_def)
  moreover have "nic ?a = Some \<lparr>inbox = [], outbox = []\<rparr>" "nic ?b = Some \<lparr>inbox = [], outbox = []\<rparr>"
    "rcv_buf (conns ?b ! 0) = []"
    by (simp_all add: example_host_def example_conn_def)
  ultimately show ?thesis
    using tcp_stream_delivered [of ?a 0 "[2, 0, 0, 0, 0, 2]" "\<lparr>inbox = [], outbox = []\<rparr>" ?b 0
        "\<lparr>inbox = [], outbox = []\<rparr>" "[2, 0, 0, 0, 0, 1]" 0 "[1, 2, 3, 4, 5, 6, 7, 8]" "[2, 0, 0, 0, 0, 2]" 0]
    by simp
qed

lemma alloc_port_nth:
  assumes "49152 \<le> next_port s" "next_port s < 65536"
  shows "replicate_io n alloc_port s =
    (Inr (map (\<lambda>k. (next_port s - 49152 + int k) mod 16384 + 49152) [0..<n]),
     s\<lparr>next_port := (next_port s - 49152 + int n) mod 16384 + 49152\<rparr>)"
  using assms
proof (induction n arbitrary: s)
  case 0
  then show ?case by simp
next
  case (Suc n)
  define p where "p = next_port s - 49152"
  let ?s = "s\<lparr>next_port := (p + 1) mod 16384 + 49152\<rparr>"
  have p: "0 \<le> p" "p < 16384" "next_port s = p + 49152" using Suc.prems by (simp_all add: p_def)
  have one: "alloc_port s = (Inr (p + 49152), ?s)" by (simp add: alloc_port_def p(3) add.commute)
  have "next_port ?s < 65536" using pos_mod_bound [of 16384 "p + 1"] by simp
  then have IH: "replicate_io n alloc_port ?s =
      (Inr (map (\<lambda>k. ((p + 1) mod 16384 + int k) mod 16384 + 49152) [0..<n]),
       ?s\<lparr>next_port := ((p + 1) mod 16384 + int n) mod 16384 + 49152\<rparr>)"
    using Suc.IH [of ?s] by simp
  have m: "((p + 1) mod 16384 + int k) mod 16384 = (p + int (Suc k)) mod 16384" for k
    using mod_add_left_eq [of "p + 1" 16384 "int k"] by (simp only: of_nat_Suc ac_simps)
  have c: "map f [0..<Suc n] = f 0 # map (\<lambda>k. f (Suc k)) [0..<n]" for f :: "nat \<Rightarrow> int"
    by (simp add: upt_conv_Cons map_Suc_upt [symmetric] comp_def del: upt_Suc)
  have "replicate_io (Suc n) alloc_port s =
      (Inr ((p + 49152) # map (\<lambda>k. (p + int (Suc k)) mod 16384 + 49152) [0..<n]),
       s\<lparr>next_port := (p + int (Suc n)) mod 16384 + 49152\<rparr>)"
    unfolding replicate_io.simps bind_def by (simp add: one IH m del: of_nat_Suc)
  then show ?case using p(1,2) unfolding c p(3) by simp
qed

text \<open>
  C21. Ephemeral ports: in a reachable range, up to 16384 consecutive allocations give distinct
  ports, all from 49152 to 65535.
\<close>

theorem ephemeral_ports_distinct:
  assumes "49152 \<le> next_port s" "next_port s < 65536" "n \<le> 16384"
  shows "\<exists>ps s'. replicate_io n alloc_port s = (Inr ps, s') \<and> length ps = n \<and> distinct ps
    \<and> (\<forall>p \<in> set ps. 49152 \<le> p \<and> p < 65536)"
proof -
  define f where "f = (\<lambda>k. (next_port s - 49152 + int k) mod 16384 + 49152)"
  have inj: "x = y" if "x < n" "y < n" "f x = f y" for x y
  proof -
    have "16384 dvd (next_port s - 49152 + int x) - (next_port s - 49152 + int y)"
      using that(3) unfolding f_def by (simp only: mod_eq_dvd_iff add_right_cancel)
    then have "16384 dvd (int x - int y)" by simp
    moreover have "\<bar>int x - int y\<bar> < 16384" using that(1,2) assms(3) by linarith
    ultimately show ?thesis using dvd_imp_le_int [of "int x - int y" 16384] by (cases "x = y") simp_all
  qed
  have "distinct (map f [0..<n])" using inj unfolding distinct_map inj_on_def by simp
  moreover have "49152 \<le> f k \<and> f k < 65536" for k
    unfolding f_def using pos_mod_bound [of 16384 "next_port s - 49152 + int k"] by simp
  moreover have "replicate_io n alloc_port s =
      (Inr (map f [0..<n]), s\<lparr>next_port := (next_port s - 49152 + int n) mod 16384 + 49152\<rparr>)"
    unfolding f_def by (rule alloc_port_nth [OF assms(1,2)])
  ultimately show ?thesis by simp
qed

theorem ephemeral_ports_distinct_witness:
  "\<exists>ps s'. replicate_io 3 alloc_port ((net_boot :: wire net)\<lparr>next_port := 65534\<rparr>) = (Inr ps, s')
    \<and> length ps = 3 \<and> distinct ps \<and> (\<forall>p \<in> set ps. 49152 \<le> p \<and> p < 65536)"
  using ephemeral_ports_distinct [of "(net_boot :: wire net)\<lparr>next_port := 65534\<rparr>" 3] by simp

subsection \<open>What does not work\<close>

text \<open>
  Two coroutines that resolve the same address: the second registration replaces the first, so the
  answer completes only the second future. The first stays pending whatever is learnt later, and
  its segment is dropped after the timeout although the address is known.
\<close>

lemma arp_learn_other_fut:
  assumes "f \<notin> snd ` set (arp_pending t)"
  shows "arp_futs (arp_learn ip mac t) ! f = arp_futs t ! f"
    and "f \<notin> snd ` set (arp_pending (arp_learn ip mac t))"
proof -
  have "g \<noteq> f" if "map_of (arp_pending t) ip = Some g" for g
    using assms map_of_SomeD [OF that] by force
  then show "arp_futs (arp_learn ip mac t) ! f = arp_futs t ! f"
    by (auto simp: arp_learn_def Let_def split: option.split)
  show "f \<notin> snd ` set (arp_pending (arp_learn ip mac t))"
    using assms by (auto simp: arp_learn_def Let_def split: option.split)
qed

lemma arp_second_resolver_orphans_first:
  assumes "arp_map t = []" "arp_pending t = []" "length (arp_futs t) = f"
  shows "let t2 = snd (arp_resolve ip (snd (arp_resolve ip t)));
             t3 = fold (\<lambda>(a, m). arp_learn a m) ((ip, mac) # kms) t2
         in arp_futs t3 ! f = FutPending \<and> arp_lookup (arp_learn ip mac t2) ip = Some mac"
proof -
  let ?t2 = "snd (arp_resolve ip (snd (arp_resolve ip t)))"
  have t2: "f \<notin> snd ` set (arp_pending ?t2)" "arp_futs ?t2 ! f = FutPending"
    using assms by (auto simp: arp_resolve_def nth_append)
  have "arp_futs (fold (\<lambda>(a, m). arp_learn a m) l u) ! f = arp_futs u ! f"
    if "f \<notin> snd ` set (arp_pending u)" for l u
    using that by (induction l arbitrary: u) (auto simp: arp_learn_other_fut)
  then show ?thesis using t2 by (auto simp: Let_def arp_lookup_learn simp del: fold.simps)
qed

text \<open>
  The transitions out of the closing states are missing: a connection that has sent its FIN
  ignores every segment, so it never reaches \<open>FIN_WAIT_2\<close>, \<open>TIME_WAIT\<close> or \<open>CLOSED\<close>, and a
  reader on it waits for ever.
\<close>

lemma closing_ignores_segments:
  assumes "c_state (conns s ! c) = FIN_WAIT_1 \<or> c_state (conns s ! c) = LAST_ACK"
  shows "handle_segment env c sg sync s = (Inr (), s)"
  using assms by (auto simp: handle_segment_def)

lemma closing_recv_waits:
  "c_state k = FIN_WAIT_1 \<Longrightarrow> rcv_buf k = [] \<Longrightarrow> fst (conn_recv n k) = RecvWait"
  by (simp add: conn_recv_def)

text \<open>A segment that carries both data and FIN is acknowledged as if it carried none.\<close>

lemma fin_with_data_ack:
  assumes "c < length (conns s)" "c_state (conns s ! c) = ESTABLISHED" "seg_payload sg \<noteq> []" "flags sg AND F_FIN \<noteq> 0"
  shows "snd_ack (conns (snd (handle_segment env c sg False s)) ! c) = (seq sg + 1) AND 0xFFFFFFFF"
  using assms
  by (simp add: handle_segment_def handle_data_def handle_fin_def send_ack_def ensure_future_def
      conn_update_def bind_def)

text \<open>
  An unspecified local address, four zero bytes, is not replaced by the configured one: a byte
  string is false only when it is empty, so the frame carries the source 0.0.0.0.
\<close>

lemma default_source_is_zero:
  assumes "seg_ok sg" "length dst = 4" "length mac = 6" "length (local_mac s) = 6"
  shows "\<exists>raw s'. build_tcp_frame sg (replicate 4 0) dst mac s = (Inr raw, s')
    \<and> carries mac (local_mac s) (replicate 4 0) dst raw sg"
  using build_tcp_frame_spec [OF assms(1) _ assms(2-4), of "replicate 4 0"] by auto

end
