(* ===== verification/Paths.thy ===== *)
theory Paths
  imports PyString
begin

section \<open>Pure paths\<close>

text \<open>
  Models \<^verbatim>\<open>tools/stdlib_stubs/pathlib.py\<close>, the path class the virtual filesystem
  uses. A path is its normalised string; \<open>pure_path\<close> is the constructor, which joins its
  arguments and collapses runs of slashes.
\<close>

abbreviation slash :: char where "slash \<equiv> CHR ''/''"

text \<open>\<open>s.replace('//', '/')\<close> scans from the left without overlap; the loop repeats it.\<close>

fun replace_dslash :: "string \<Rightarrow> string" where
  "replace_dslash [] = []"
| "replace_dslash [c] = [c]"
| "replace_dslash (c # d # s) =
     (if c = slash \<and> d = slash then slash # replace_dslash s else c # replace_dslash (d # s))"

fun has_dslash :: "string \<Rightarrow> bool" where
  "has_dslash [] = False"
| "has_dslash [c] = False"
| "has_dslash (c # d # s) = (c = slash \<and> d = slash \<or> has_dslash (d # s))"

lemma replace_dslash_le: "length (replace_dslash s) \<le> length s"
  by (induction s rule: replace_dslash.induct) auto

lemma replace_dslash_less: "has_dslash s \<Longrightarrow> length (replace_dslash s) < length s"
proof (induction s rule: replace_dslash.induct)
  case (3 c d s)
  then show ?case using replace_dslash_le [of s] by auto
qed auto

function collapse :: "string \<Rightarrow> string" where
  "collapse s = (if has_dslash s then collapse (replace_dslash s) else s)"
  by auto
termination by (relation "measure length") (auto dest: replace_dslash_less)

declare collapse.simps [simp del]

definition pure_path :: "string list \<Rightarrow> string" where
  "pure_path args =
     (let s = (if args = [] then ''.'' else join_with ''/'' args); s = collapse s
      in if s = [] then ''.'' else s)"

text \<open>\<open>s.rfind(c)\<close>: the last position, or \<open>-1\<close>.\<close>

definition rfind :: "char \<Rightarrow> string \<Rightarrow> int" where
  "rfind c s =
     (if c \<in> set s then int (length s) - 1 - int (length (takeWhile (\<lambda>x. x \<noteq> c) (rev s))) else -1)"

definition path_truediv :: "string \<Rightarrow> string \<Rightarrow> string" where
  "path_truediv p other =
     (if starts_with other ''/'' then pure_path [other] else pure_path [rstrip slash p @ ''/'' @ other])"

definition path_rtruediv :: "string \<Rightarrow> string \<Rightarrow> string" where
  "path_rtruediv p other = path_truediv (pure_path [other]) p"

definition path_parts :: "string \<Rightarrow> string list" where
  "path_parts s =
     (if s = ''/'' then [''/'']
      else if starts_with s ''/'' then ''/'' # split_on slash (tl s)
      else split_on slash s)"

definition path_parent :: "string \<Rightarrow> string" where
  "path_parent s =
     (if slash \<notin> set s \<or> s = ''/'' then pure_path [''.'']
      else let idx = rfind slash s
           in if idx = 0 then pure_path [''/''] else pure_path [slice s 0 idx])"

definition path_name :: "string \<Rightarrow> string" where
  "path_name s = last (split_on slash s)"

definition path_suffix :: "string \<Rightarrow> string" where
  "path_suffix s =
     (let name = path_name s; idx = rfind (CHR ''.'') name
      in if idx > 0 then slice_from name idx else [])"

definition path_suffixes :: "string \<Rightarrow> string list" where
  "path_suffixes s = map (\<lambda>p. ''.'' @ p) (tl (split_on (CHR ''.'') (path_name s)))"

definition path_stem :: "string \<Rightarrow> string" where
  "path_stem s =
     (let name = path_name s; idx = rfind (CHR ''.'') name
      in if idx > 0 then slice name 0 idx else name)"

definition path_with_name :: "string \<Rightarrow> string \<Rightarrow> string" where
  "path_with_name s name = path_truediv (path_parent s) name"

definition path_with_suffix :: "string \<Rightarrow> string \<Rightarrow> string" where
  "path_with_suffix s suffix = path_truediv (path_parent s) (path_stem s @ suffix)"

definition path_is_absolute :: "string \<Rightarrow> bool" where
  "path_is_absolute s = starts_with s ''/''"

subsection \<open>Normal forms\<close>

lemma collapse_normal: "\<not> has_dslash (collapse s)"
  by (induction s rule: collapse.induct) (metis collapse.simps)

lemma collapse_id [simp]: "\<not> has_dslash s \<Longrightarrow> collapse s = s"
  by (simp add: collapse.simps)

lemma has_dslash_append:
  "has_dslash (xs @ ys) \<longleftrightarrow> has_dslash xs \<or> has_dslash ys
     \<or> (xs \<noteq> [] \<and> ys \<noteq> [] \<and> last xs = slash \<and> hd ys = slash)"
proof (induction xs rule: has_dslash.induct)
  case (2 c)
  then show ?case by (cases ys) auto
qed auto

lemma no_slash_no_dslash: "slash \<notin> set s \<Longrightarrow> \<not> has_dslash s"
  by (induction s rule: has_dslash.induct) auto

lemma pure_path_normal: "pure_path args \<noteq> []" "\<not> has_dslash (pure_path args)"
  using collapse_normal by (auto simp: pure_path_def Let_def)

lemma split_on_last:
  assumes "c \<notin> set w"
  shows "last (split_on c (p @ c # w)) = w" "last (split_on c w) = w"
proof -
  have "split_on c (p @ c # w) = split_on c p @ [w]"
  proof (induction p)
    case (Cons x p)
    then show ?case using assms by (cases "split_on c p") (auto simp: split_on_no_sep)
  qed (use assms in \<open>simp add: split_on_no_sep\<close>)
  then show "last (split_on c (p @ c # w)) = w" by simp
qed (use assms in \<open>simp add: split_on_no_sep\<close>)

lemma rfind_last:
  assumes "c \<notin> set w"
  shows "rfind c (p @ c # w) = int (length p)"
proof -
  have "takeWhile (\<lambda>x. x \<noteq> c) (rev w @ c # rev p) = rev w"
    using assms by (subst takeWhile_append2) auto
  then show ?thesis by (simp add: rfind_def)
qed

lemma last_slash_split:
  assumes "slash \<in> set s"
  obtains p w where "s = p @ slash # w" "slash \<notin> set w"
  using split_list_last [OF assms] by blast

lemma path_name_split: "slash \<notin> set w \<Longrightarrow> path_name (p @ slash # w) = w"
  by (simp add: path_name_def split_on_last)

lemma rfind_bounds: "0 < rfind c s \<Longrightarrow> rfind c s < int (length s)"
  by (auto simp: rfind_def split: if_splits)

lemma pure_path_one: "s \<noteq> [] \<Longrightarrow> \<not> has_dslash s \<Longrightarrow> pure_path [s] = s"
  by (simp add: pure_path_def Let_def)

lemma stem_suffix: "path_stem s @ path_suffix s = path_name s"
proof -
  let ?n = "path_name s" and ?i = "rfind (CHR ''.'') (path_name s)"
  show ?thesis
  proof (cases "0 < ?i")
    case True
    then show ?thesis
      using append_take_drop_id [of "nat ?i" ?n]
      by (simp add: path_stem_def path_suffix_def Let_def slice_nat slice_from_nat)
  qed (simp add: path_stem_def path_suffix_def Let_def)
qed

lemma parent_div_name:
  assumes "s = p @ slash # w" "slash \<notin> set w" "\<not> has_dslash s" "s \<noteq> ''/''"
  shows "path_truediv (path_parent s) (path_name s) = s"
proof -
  have w: "\<not> starts_with w ''/''" using assms(2) by (cases w) auto
  have nd: "\<not> has_dslash p" and lp: "p \<noteq> [] \<Longrightarrow> last p \<noteq> slash"
    using assms(3) by (auto simp: assms(1) has_dslash_append)
  have "path_parent s = (if p = [] then ''/'' else p)"
    using rfind_last [OF assms(2), of p] assms(4) nd
    by (auto simp: path_parent_def assms(1) Let_def pure_path_one slice_nat append_eq_Cons_conv)
  then have "rstrip slash (path_parent s) = p" using lp by (auto simp: rstrip_id) (simp add: rstrip_def)
  then show ?thesis using w assms by (simp add: path_truediv_def path_name_split pure_path_one)
qed

text \<open>
  C20. For every path the constructor makes: its name has no slash and is its stem followed by its
  suffix; its parent joined with its name is the path again, also with a trailing slash, unless the path is the
  root or has no slash, when the parent is the current directory and the join gives \<open>./\<close> and the name.
\<close>

theorem path_parent_name:
  assumes "s = pure_path args"
  shows "path_truediv (path_parent s) (path_name s) = (if slash \<in> set s \<and> s \<noteq> ''/'' then s else ''./'' @ path_name s)
    \<and> path_stem s @ path_suffix s = path_name s \<and> slash \<notin> set (path_name s)"
proof (cases "slash \<in> set s")
  case True
  obtain p w where s: "s = p @ slash # w" "slash \<notin> set w" using last_slash_split [OF True] .
  have "path_truediv (path_parent ''/'') (path_name ''/'') = ''./''"
    by code_simp
  moreover have "path_name ''/'' = []" by (simp add: path_name_def)
  ultimately show ?thesis
    using parent_div_name [OF s] pure_path_normal(2) [of args] True assms s path_name_split [OF s(2), of p] stem_suffix
    by (cases "s = ''/''") auto
next
  case False
  then have n: "path_name s = s" by (simp add: path_name_def split_on_no_sep)
  have "\<not> starts_with s ''/''" using False by (cases s) auto
  moreover have "\<not> has_dslash (CHR ''.'' # slash # s)"
    using False no_slash_no_dslash [OF False] by (cases s) auto
  ultimately have "path_truediv (path_parent s) s = ''./'' @ s"
    using False by (simp add: path_parent_def path_truediv_def pure_path_one rstrip_def)
  then show ?thesis using False stem_suffix [of s] by (simp add: n)
qed

theorem path_parent_name_witness:
  "path_truediv (path_parent ''/home/a.txt'') (path_name ''/home/a.txt'') = ''/home/a.txt''
   \<and> path_truediv (path_parent ''a.txt'') (path_name ''a.txt'') = ''./a.txt''"
proof -
  have p: "''/home/a.txt'' = pure_path [''/home'', ''a.txt'']" "''a.txt'' = pure_path [''a.txt'']" and n: "path_name ''a.txt'' = ''a.txt''"
    by code_simp+
  show ?thesis using path_parent_name [OF p(1)] path_parent_name [OF p(2)] by (simp add: n)
qed

text \<open>
  A trailing slash is kept, so the name is empty and the parent is the path itself without the
  slash; and the parent of the root is the current directory.
\<close>

lemma trailing_slash_name: "path_name (p @ ''/'') = []"
  using path_name_split [of "[]" p] by simp

lemma parent_of_root: "path_parent ''/'' = ''.''"
  by (simp add: path_parent_def pure_path_def Let_def)

end
