(* ===== verification/Tmpfs.thy ===== *)
theory Tmpfs
  imports PyString
begin

section \<open>The filesystem protocol and the in-memory filesystem\<close>

text \<open>
  The node protocol of \<^verbatim>\<open>kernel/fs/vfs.py\<close> and its first implementation,
  \<^verbatim>\<open>kernel/fs/tmpfs.py\<close>. Nodes are mutable objects shared by the tree and by open
  files, so they live in a heap and are named by their position. What a client of a node relies
  on is the locale \<open>file_node\<close>.
\<close>

unbundle bit_operations_syntax

datatype InodeType = FILE | DIR | SYMLINK | DEVICE | PIPE

record Stat =
  st_type :: InodeType
  st_size :: int
  st_uid :: int
  st_gid :: int
  st_mode :: int
  st_nlink :: int

text \<open>The operations of a node of type \<open>'d\<close> over a filesystem state \<open>'s\<close>.\<close>

record ('s, 'd) fsnode =
  n_stat :: "'d \<Rightarrow> ('s, Stat) io"
  n_read :: "'d \<Rightarrow> int \<Rightarrow> int \<Rightarrow> ('s, byte list) io"
  n_write :: "'d \<Rightarrow> int \<Rightarrow> byte list \<Rightarrow> ('s, int) io"
  n_truncate :: "'d \<Rightarrow> int \<Rightarrow> ('s, unit) io"
  n_readdir :: "'d \<Rightarrow> ('s, string list) io"
  n_lookup :: "'d \<Rightarrow> string \<Rightarrow> ('s, 'd) io"
  n_create :: "'d \<Rightarrow> string \<Rightarrow> InodeType \<Rightarrow> ('s, 'd) io"
  n_unlink :: "'d \<Rightarrow> string \<Rightarrow> ('s, unit) io"

subsection \<open>Nodes\<close>

record TmpfsNode =
  t_type :: InodeType
  t_mode :: int
  t_data :: "byte list"
  t_children :: "(string \<times> nat) list"

type_synonym tmp_heap = "TmpfsNode list"

definition new_node :: "InodeType \<Rightarrow> int \<Rightarrow> TmpfsNode" where
  "new_node ty mode = \<lparr>t_type = ty, t_mode = mode, t_data = [], t_children = []\<rparr>"

definition alloc_node :: "TmpfsNode \<Rightarrow> (tmp_heap, nat) io" where
  "alloc_node k = (\<lambda>h. (Inr (length h), h @ [k]))"

definition node_update :: "nat \<Rightarrow> (TmpfsNode \<Rightarrow> TmpfsNode) \<Rightarrow> (tmp_heap, unit) io" where
  "node_update d f = modify (\<lambda>h. h[d := f (h ! d)])"

definition tmp_stat :: "nat \<Rightarrow> (tmp_heap, Stat) io" where
  "tmp_stat d = gets (\<lambda>h. let k = h ! d in
     \<lparr>st_type = t_type k, st_size = int (length (t_data k)), st_uid = 0, st_gid = 0, st_mode = t_mode k,
      st_nlink = (if t_type k = DIR then 1 + int (length (t_children k)) else 1)\<rparr>)"

definition tmp_read :: "nat \<Rightarrow> int \<Rightarrow> int \<Rightarrow> (tmp_heap, byte list) io" where
  "tmp_read d offset n =
     bind (gets (\<lambda>h. h ! d)) (\<lambda>k.
       if t_type k \<noteq> FILE then raise IsADirectoryError
       else ret (slice (t_data k) offset (offset + n)))"

text \<open>Writing past the end first extends the data with zero bytes.\<close>

definition extend_to :: "int \<Rightarrow> byte list \<Rightarrow> byte list" where
  "extend_to n xs = (if n > int (length xs) then xs @ replicate (nat (n - int (length xs))) 0 else xs)"

definition tmp_write :: "nat \<Rightarrow> int \<Rightarrow> byte list \<Rightarrow> (tmp_heap, int) io" where
  "tmp_write d offset data =
     bind (gets (\<lambda>h. h ! d)) (\<lambda>k.
       if t_type k \<noteq> FILE then raise IsADirectoryError
       else let e = offset + int (length data) in
            bind (node_update d (\<lambda>k. k\<lparr>t_data := slice_assign (extend_to e (t_data k)) offset e data\<rparr>)) (\<lambda>_.
            ret (int (length data))))"

definition tmp_truncate :: "nat \<Rightarrow> int \<Rightarrow> (tmp_heap, unit) io" where
  "tmp_truncate d sz =
     bind (gets (\<lambda>h. h ! d)) (\<lambda>k.
       if t_type k \<noteq> FILE then raise IsADirectoryError
       else node_update d (\<lambda>k. k\<lparr>t_data := slice (t_data k) 0 sz\<rparr>))"

definition tmp_readdir :: "nat \<Rightarrow> (tmp_heap, string list) io" where
  "tmp_readdir d =
     bind (gets (\<lambda>h. h ! d)) (\<lambda>k.
       if t_type k \<noteq> DIR then raise NotADirectoryError
       else ret ([''.'', ''..''] @ map fst (t_children k)))"

definition tmp_lookup :: "nat \<Rightarrow> string \<Rightarrow> (tmp_heap, nat) io" where
  "tmp_lookup d name =
     (if name = ''.'' \<or> name = [] then ret d
      else bind (gets (\<lambda>h. map_of (t_children (h ! d)) name)) (\<lambda>c.
           case c of None \<Rightarrow> raise FileNotFoundError | Some e \<Rightarrow> ret e))"

definition tmp_create :: "nat \<Rightarrow> string \<Rightarrow> InodeType \<Rightarrow> (tmp_heap, nat) io" where
  "tmp_create d name ty =
     bind (gets (\<lambda>h. t_type (h ! d))) (\<lambda>dt.
       if dt \<noteq> DIR then raise NotADirectoryError
       else bind (alloc_node (new_node ty 0x1A4)) (\<lambda>e.
            bind (node_update d (\<lambda>k. k\<lparr>t_children := AList.update name e (t_children k)\<rparr>)) (\<lambda>_.
            ret e)))"

definition tmp_unlink :: "nat \<Rightarrow> string \<Rightarrow> (tmp_heap, unit) io" where
  "tmp_unlink d name =
     bind (gets (\<lambda>h. map_of (t_children (h ! d)) name)) (\<lambda>c.
       if c = None then raise FileNotFoundError
       else node_update d (\<lambda>k. k\<lparr>t_children := AList.delete name (t_children k)\<rparr>))"

definition tmp_ops :: "(tmp_heap, nat) fsnode" where
  "tmp_ops = \<lparr>n_stat = tmp_stat, n_read = tmp_read, n_write = tmp_write, n_truncate = tmp_truncate,
     n_readdir = tmp_readdir, n_lookup = tmp_lookup, n_create = tmp_create, n_unlink = tmp_unlink\<rparr>"

subsection \<open>The filesystem\<close>

text \<open>A filesystem is its root node; \<open>tmpfs_new\<close> allocates it.\<close>

definition tmpfs_new :: "(tmp_heap, nat) io" where
  "tmpfs_new = alloc_node (new_node DIR 0x1ED)"

definition path_components :: "string \<Rightarrow> string list" where
  "path_components path = filter (\<lambda>p. p \<noteq> []) (split_on (CHR ''/'') (''/'' @ strip (CHR ''/'') path))"

fun walk_sync :: "tmp_heap \<Rightarrow> nat \<Rightarrow> string list \<Rightarrow> nat option" where
  "walk_sync h d [] = Some d"
| "walk_sync h d (p # ps) =
     (if t_type (h ! d) \<noteq> DIR then None
      else case map_of (t_children (h ! d)) p of None \<Rightarrow> None | Some e \<Rightarrow> walk_sync h e ps)"

definition tmpfs_read_sync :: "nat \<Rightarrow> string \<Rightarrow> tmp_heap \<Rightarrow> byte list option" where
  "tmpfs_read_sync root path h =
     (case walk_sync h root (path_components path) of
        None \<Rightarrow> None
      | Some d \<Rightarrow> if t_type (h ! d) \<noteq> FILE then None else Some (t_data (h ! d)))"

definition tmpfs_isdir_sync :: "nat \<Rightarrow> string \<Rightarrow> tmp_heap \<Rightarrow> bool" where
  "tmpfs_isdir_sync root path h =
     (case walk_sync h root (path_components path) of None \<Rightarrow> False | Some d \<Rightarrow> t_type (h ! d) = DIR)"

text \<open>Populating from a nested dictionary; a string is stored as its UTF-8 bytes.\<close>

datatype seed_tree = SeedDir "(string \<times> seed_tree) list" | SeedBytes "byte list" | SeedStr string | SeedOther

definition set_child :: "nat \<Rightarrow> string \<Rightarrow> nat \<Rightarrow> (tmp_heap, unit) io" where
  "set_child d name e = node_update d (\<lambda>k. k\<lparr>t_children := AList.update name e (t_children k)\<rparr>)"

fun seed_node :: "nat \<Rightarrow> (string \<times> seed_tree) list \<Rightarrow> (tmp_heap, unit) io" where
  "seed_node d [] = ret ()"
| "seed_node d ((name, SeedDir sub) # tree) =
     bind (alloc_node (new_node DIR 0x1ED)) (\<lambda>e.
     bind (set_child d name e) (\<lambda>_.
     bind (seed_node e sub) (\<lambda>_. seed_node d tree)))"
| "seed_node d ((name, SeedBytes b) # tree) =
     bind (alloc_node (new_node FILE 0x1A4\<lparr>t_data := b\<rparr>)) (\<lambda>e.
     bind (set_child d name e) (\<lambda>_. seed_node d tree))"
| "seed_node d ((name, SeedStr s) # tree) =
     bind (alloc_node (new_node FILE 0x1A4\<lparr>t_data := utf8_encode s\<rparr>)) (\<lambda>e.
     bind (set_child d name e) (\<lambda>_. seed_node d tree))"
| "seed_node d ((name, SeedOther) # tree) = seed_node d tree"

subsection \<open>Files as flat contents\<close>

text \<open>
  The abstract file is a byte list. Writing overwrites in place, and a write past the end leaves a
  gap of zero bytes.
\<close>

definition file_splice :: "nat \<Rightarrow> byte list \<Rightarrow> byte list \<Rightarrow> byte list" where
  "file_splice off data xs = take off xs @ replicate (off - length xs) 0 @ data @ drop (off + length data) xs"

definition file_byte :: "byte list \<Rightarrow> nat \<Rightarrow> byte" where
  "file_byte xs i = (if i < length xs then xs ! i else 0)"

lemma length_file_splice [simp]: "length (file_splice off data xs) = max (length xs) (off + length data)"
  by (simp add: file_splice_def)

lemma file_byte_splice:
  "file_byte (file_splice off data xs) i =
     (if off \<le> i \<and> i < off + length data then data ! (i - off) else file_byte xs i)"
  by (auto simp: file_byte_def file_splice_def nth_append min_def)

lemma file_splice_read: "take (length data) (drop off (file_splice off data xs)) = data"
  by (simp add: file_splice_def)

lemma file_splice_Nil: "off \<le> length xs \<Longrightarrow> file_splice off [] xs = xs"
  by (simp add: file_splice_def)

lemma file_splice_append: "file_splice (length xs) data xs = xs @ data"
  by (simp add: file_splice_def)

lemma file_eqI: "length xs = length ys \<Longrightarrow> (\<And>i. file_byte xs i = file_byte ys i) \<Longrightarrow> xs = ys"
  by (metis file_byte_def nth_equalityI)

lemma file_splice_twice:
  "length data \<le> length data' \<Longrightarrow> file_splice off data' (file_splice off data xs) = file_splice off data' xs"
  by (rule file_eqI) (auto simp: file_byte_splice)

lemma file_splice_cat:
  "file_splice (off + length a) b (file_splice off a xs) = file_splice off (a @ b) xs"
  by (rule file_eqI) (auto simp: file_byte_splice nth_append)

text \<open>
  What a client of a regular file relies on: \<open>contents s d\<close> is the contents of node \<open>d\<close>, if it is
  one; reading returns a slice and changes no file, a write that returns has spliced its data in
  and changed no other file, truncation cuts, and \<open>stat\<close> reports the length.
\<close>

locale file_node =
  fixes ops :: "('s, 'd) fsnode" and contents :: "'s \<Rightarrow> 'd \<Rightarrow> byte list option"
  assumes read_file: "contents s d = Some xs \<Longrightarrow> 0 \<le> off \<Longrightarrow> 0 \<le> n \<Longrightarrow>
      \<exists>s'. n_read ops d off n s = (Inr (take (nat n) (drop (nat off) xs)), s') \<and> contents s' = contents s"
    and write_file: "contents s d = Some xs \<Longrightarrow> 0 \<le> off \<Longrightarrow> n_write ops d off data s = (Inr m, s') \<Longrightarrow>
      m = int (length data) \<and> contents s' = (contents s)(d \<mapsto> file_splice (nat off) data xs)"
    and truncate_file: "contents s d = Some xs \<Longrightarrow> 0 \<le> sz \<Longrightarrow> sz \<le> int (length xs) \<Longrightarrow>
      n_truncate ops d sz s = (Inr u, s') \<Longrightarrow> contents s' = (contents s)(d \<mapsto> take (nat sz) xs)"
    and stat_file: "contents s d = Some xs \<Longrightarrow>
      \<exists>st s'. n_stat ops d s = (Inr st, s') \<and> st_size st = int (length xs) \<and> contents s' = contents s"
begin

lemma read_after_write:
  assumes "contents s d = Some xs" "0 \<le> off" "n_write ops d off data s = (Inr m, s')"
  shows "\<exists>t. n_read ops d off m s' = (Inr data, t) \<and> contents t = contents s'"
proof -
  have w: "m = int (length data)" "contents s' d = Some (file_splice (nat off) data xs)"
    using write_file [OF assms] by simp_all
  show ?thesis
    using read_file [OF w(2) assms(2), of m] by (simp add: w(1) file_splice_read)
qed

lemma read_whole:
  assumes "contents s d = Some xs" "int (length xs) \<le> n"
  shows "\<exists>t. n_read ops d 0 n s = (Inr xs, t) \<and> contents t = contents s"
  using read_file [OF assms(1), of 0 n] assms(2) by force

lemma write_other:
  assumes "contents s d = Some xs" "0 \<le> off" "n_write ops d off data s = (Inr m, s')" "e \<noteq> d"
  shows "contents s' e = contents s e"
  using write_file [OF assms(1-3)] assms(4) by simp

end

definition tmp_file :: "tmp_heap \<Rightarrow> nat \<Rightarrow> byte list option" where
  "tmp_file h d = (if d < length h \<and> t_type (h ! d) = FILE then Some (t_data (h ! d)) else None)"

lemma tmp_write_splice:
  assumes "0 \<le> off"
  shows "slice_assign (extend_to (off + int (length data)) xs) off (off + int (length data)) data
    = file_splice (nat off) data xs"
proof -
  obtain k where k: "off = int k" using assms nonneg_int_cases by blast
  have "int k + int (length data) \<le> int (length (extend_to (int k + int (length data)) xs))"
    by (simp add: extend_to_def)
  then show ?thesis
    by (simp add: k slice_assign_nat nat_add_distrib)
      (auto simp: extend_to_def file_splice_def nat_diff_distrib')
qed

lemma tmp_file_update:
  assumes "tmp_file h d = Some xs"
  shows "tmp_file (h[d := (h ! d)\<lparr>t_data := ys\<rparr>]) = (tmp_file h)(d \<mapsto> ys)"
  using assms by (auto simp: tmp_file_def fun_eq_iff nth_list_update split: if_splits)

interpretation tf: file_node tmp_ops tmp_file
proof
  fix s d xs and off n :: int
  assume "tmp_file s d = Some xs" "0 \<le> off" "0 \<le> n"
  then show "\<exists>s'. n_read tmp_ops d off n s = (Inr (take (nat n) (drop (nat off) xs)), s') \<and> tmp_file s' = tmp_file s"
    by (auto simp: tmp_file_def tmp_ops_def tmp_read_def slice_nat nat_add_distrib split: if_splits)
next
  fix s d xs data m s' and off :: int
  assume a: "tmp_file s d = Some xs" "0 \<le> off" "n_write tmp_ops d off data s = (Inr m, s')"
  then have "t_type (s ! d) = FILE" "t_data (s ! d) = xs" by (auto simp: tmp_file_def split: if_splits)
  then show "m = int (length data) \<and> tmp_file s' = (tmp_file s)(d \<mapsto> file_splice (nat off) data xs)"
    using a tmp_file_update [OF a(1)]
    by (auto simp: tmp_ops_def tmp_write_def Let_def node_update_def tmp_write_splice)
next
  fix s d xs u s' and sz :: int
  assume a: "tmp_file s d = Some xs" "0 \<le> sz" "sz \<le> int (length xs)" "n_truncate tmp_ops d sz s = (Inr u, s')"
  then have "t_type (s ! d) = FILE" "t_data (s ! d) = xs" by (auto simp: tmp_file_def split: if_splits)
  then show "tmp_file s' = (tmp_file s)(d \<mapsto> take (nat sz) xs)"
    using a tmp_file_update [OF a(1)]
    by (auto simp: tmp_ops_def tmp_truncate_def node_update_def slice_nat)
next
  fix s d xs
  assume "tmp_file s d = Some xs"
  then show "\<exists>st s'. n_stat tmp_ops d s = (Inr st, s') \<and> st_size st = int (length xs) \<and> tmp_file s' = tmp_file s"
    by (auto simp: tmp_file_def tmp_ops_def tmp_stat_def Let_def split: if_splits)
qed

end
