(* ===== verification/Vfs.thy ===== *)
theory Vfs
  imports Paths Tmpfs
begin

section \<open>The virtual filesystem switch\<close>

text \<open>
  Models \<^verbatim>\<open>kernel/fs/vfs.py\<close>. The switch is written against the node protocol only:
  \<open>'d\<close> is the type of nodes, \<open>'f\<close> of filesystems and \<open>'s\<close> of the state they live in, and the
  operations of a filesystem are a record of functions in which the optional methods may be absent.
\<close>

unbundle bit_operations_syntax

subsection \<open>State\<close>

definition RDONLY :: int where "RDONLY = 0"
definition WRONLY :: int where "WRONLY = 1"
definition RDWR :: int where "RDWR = 2"
definition CREAT :: int where "CREAT = 0x040"
definition TRUNC :: int where "TRUNC = 0x200"
definition APPEND :: int where "APPEND = 0x400"
definition NONBLOCK :: int where "NONBLOCK = 0x800"

datatype SeekWhence = SEEK_SET | SEEK_CUR | SEEK_END

record ('f, 's, 'd) fs_ops =
  nodes :: "('s, 'd) fsnode"
  fs_root :: "'f \<Rightarrow> 'd"
  fs_flush :: "'f \<Rightarrow> ('s, unit) io option"
  fs_read_sync :: "'f \<Rightarrow> (string \<Rightarrow> 's \<Rightarrow> byte list option) option"
  fs_isdir_sync :: "'f \<Rightarrow> (string \<Rightarrow> 's \<Rightarrow> bool) option"

record 'd FileDescription =
  fd_node :: 'd
  fd_flags :: int
  fd_offset :: int

record ('f, 's, 'd) VFS =
  mounts :: "(string \<times> 'f) list"
  fds :: "(int \<times> 'd FileDescription) list"
  next_fd :: int
  fs_state :: 's

definition vfs_new :: "'s \<Rightarrow> ('f, 's, 'd) VFS" where
  "vfs_new s = \<lparr>mounts = [], fds = [], next_fd = 3, fs_state = s\<rparr>"

definition on_fs :: "('s, 'a) io \<Rightarrow> (('f, 's, 'd) VFS, 'a) io" where
  "on_fs m = (\<lambda>v. let (r, s) = m (fs_state v) in (r, v\<lparr>fs_state := s\<rparr>))"

subsection \<open>Mounting\<close>

definition norm_mount :: "string \<Rightarrow> string" where
  "norm_mount path = (let p = rstrip slash path in if p = [] then ''/'' else p)"

definition vfs_mount :: "string \<Rightarrow> 'f \<Rightarrow> (('f, 's, 'd) VFS, unit) io" where
  "vfs_mount path fs = modify (\<lambda>v.
     let norm = norm_mount path; ms = filter (\<lambda>(p, f). p \<noteq> norm) (mounts v) @ [(norm, fs)]
     in v\<lparr>mounts := sort_key (\<lambda>m. - int (length (fst m))) ms\<rparr>)"

fun unmount_at :: "('f, 's, 'd) fs_ops \<Rightarrow> string \<Rightarrow> (string \<times> 'f) list \<Rightarrow> (string \<times> 'f) list \<Rightarrow>
    (('f, 's, 'd) VFS, unit) io" where
  "unmount_at ops norm pre [] = raise KeyError"
| "unmount_at ops norm pre ((p, fs) # ms) =
     (if p = norm
      then bind (case fs_flush ops fs of None \<Rightarrow> ret () | Some flush \<Rightarrow> on_fs flush) (\<lambda>_.
           modify (\<lambda>v. v\<lparr>mounts := rev pre @ ms\<rparr>))
      else unmount_at ops norm ((p, fs) # pre) ms)"

definition vfs_unmount :: "('f, 's, 'd) fs_ops \<Rightarrow> string \<Rightarrow> (('f, 's, 'd) VFS, unit) io" where
  "vfs_unmount ops path = bind (gets mounts) (unmount_at ops (norm_mount path) [])"

subsection \<open>Resolution\<close>

definition norm_path :: "string \<Rightarrow> string" where
  "norm_path path = ''/'' @ strip slash path"

definition split_parts :: "string \<Rightarrow> string list" where
  "split_parts s = filter (\<lambda>p. p \<noteq> []) (split_on slash s)"

text \<open>The path relative to a mount point, or nothing when the mount point does not cover it.\<close>

definition rel_parts :: "string \<Rightarrow> string \<Rightarrow> string list option" where
  "rel_parts s mp =
     (if mp = ''/'' then Some (split_parts (tl s))
      else if s = mp then Some []
      else if starts_with s (mp @ ''/'') then Some (split_parts (drop (length mp + 1) s))
      else None)"

definition rel_string :: "string \<Rightarrow> string \<Rightarrow> string option" where
  "rel_string s mp =
     (if mp = ''/'' then Some s
      else if s = mp then Some ''/''
      else if starts_with s (mp @ ''/'') then Some (''/'' @ drop (length mp + 1) s)
      else None)"

fun find_mount :: "(string \<Rightarrow> string \<Rightarrow> 'r option) \<Rightarrow> string \<Rightarrow> (string \<times> 'f) list \<Rightarrow> ('f \<times> 'r) option" where
  "find_mount rel s [] = None"
| "find_mount rel s ((mp, fs) # ms) =
     (case rel s mp of None \<Rightarrow> find_mount rel s ms | Some r \<Rightarrow> Some (fs, r))"

fun walk :: "('s, 'd) fsnode \<Rightarrow> 'd \<Rightarrow> string list \<Rightarrow> ('s, 'd) io" where
  "walk ops d [] = ret d"
| "walk ops d (p # ps) = bind (n_lookup ops d p) (\<lambda>e. walk ops e ps)"

definition vfs_resolve :: "('f, 's, 'd) fs_ops \<Rightarrow> string \<Rightarrow> (('f, 's, 'd) VFS, 'd) io" where
  "vfs_resolve ops path =
     bind (gets (\<lambda>v. find_mount rel_parts (norm_path path) (mounts v))) (\<lambda>m.
       case m of None \<Rightarrow> raise FileNotFoundError
               | Some (fs, ps) \<Rightarrow> on_fs (walk (nodes ops) (fs_root ops fs) ps))"

definition vfs_read_sync :: "('f, 's, 'd) fs_ops \<Rightarrow> string \<Rightarrow> ('f, 's, 'd) VFS \<Rightarrow> byte list option" where
  "vfs_read_sync ops path v =
     (case find_mount rel_string (norm_path path) (mounts v) of
        None \<Rightarrow> None
      | Some (fs, rel) \<Rightarrow>
          (case fs_read_sync ops fs of None \<Rightarrow> None | Some reader \<Rightarrow> reader rel (fs_state v)))"

definition vfs_isdir_sync :: "('f, 's, 'd) fs_ops \<Rightarrow> string \<Rightarrow> ('f, 's, 'd) VFS \<Rightarrow> bool" where
  "vfs_isdir_sync ops path v =
     (case find_mount rel_string (norm_path path) (mounts v) of
        None \<Rightarrow> False
      | Some (fs, rel) \<Rightarrow>
          (case fs_isdir_sync ops fs of None \<Rightarrow> False | Some checker \<Rightarrow> checker rel (fs_state v)))"

subsection \<open>File descriptors\<close>

definition open_create :: "('f, 's, 'd) fs_ops \<Rightarrow> string \<Rightarrow> (('f, 's, 'd) VFS, 'd) io" where
  "open_create ops path =
     (let parts = split_parts (norm_path path) in
      if parts = [] then raise IsADirectoryError
      else bind (vfs_resolve ops (if length parts > 1 then ''/'' @ join_with ''/'' (butlast parts) else ''/'')) (\<lambda>parent.
           on_fs (n_create (nodes ops) parent (last parts) FILE)))"

definition vfs_open :: "('f, 's, 'd) fs_ops \<Rightarrow> string \<Rightarrow> int \<Rightarrow> (('f, 's, 'd) VFS, int) io" where
  "vfs_open ops path flags =
     bind (if flags AND CREAT \<noteq> 0
           then catch (vfs_resolve ops path)
                  (\<lambda>e. if e = FileNotFoundError then open_create ops path else raise e)
           else vfs_resolve ops path) (\<lambda>node.
     bind (if flags AND TRUNC \<noteq> 0 then on_fs (n_truncate (nodes ops) node 0) else ret ()) (\<lambda>_.
     bind (gets next_fd) (\<lambda>fd.
     bind (modify (\<lambda>v. v\<lparr>next_fd := next_fd v + 1,
        fds := AList.update fd \<lparr>fd_node = node, fd_flags = flags, fd_offset = 0\<rparr> (fds v)\<rparr>)) (\<lambda>_.
     ret fd))))"

definition get_desc :: "int \<Rightarrow> (('f, 's, 'd) VFS, 'd FileDescription) io" where
  "get_desc fd = bind (gets (\<lambda>v. map_of (fds v) fd)) (\<lambda>d. case d of None \<Rightarrow> raise KeyError | Some x \<Rightarrow> ret x)"

definition set_offset :: "int \<Rightarrow> int \<Rightarrow> (('f, 's, 'd) VFS, unit) io" where
  "set_offset fd off = modify (\<lambda>v. v\<lparr>fds := map (\<lambda>(k, d). (k, if k = fd then d\<lparr>fd_offset := off\<rparr> else d)) (fds v)\<rparr>)"

definition vfs_read :: "('f, 's, 'd) fs_ops \<Rightarrow> int \<Rightarrow> int \<Rightarrow> (('f, 's, 'd) VFS, byte list) io" where
  "vfs_read ops fd n =
     bind (get_desc fd) (\<lambda>d.
     bind (on_fs (n_read (nodes ops) (fd_node d) (fd_offset d) n)) (\<lambda>data.
     bind (set_offset fd (fd_offset d + int (length data))) (\<lambda>_.
     ret data)))"

definition vfs_write :: "('f, 's, 'd) fs_ops \<Rightarrow> int \<Rightarrow> byte list \<Rightarrow> (('f, 's, 'd) VFS, int) io" where
  "vfs_write ops fd data =
     bind (get_desc fd) (\<lambda>d.
     bind (if fd_flags d AND APPEND \<noteq> 0
           then bind (on_fs (n_stat (nodes ops) (fd_node d))) (\<lambda>st.
                bind (set_offset fd (st_size st)) (\<lambda>_. ret (st_size st)))
           else ret (fd_offset d)) (\<lambda>off.
     bind (on_fs (n_write (nodes ops) (fd_node d) off data)) (\<lambda>written.
     bind (set_offset fd (off + written)) (\<lambda>_.
     ret written))))"

definition vfs_seek :: "int \<Rightarrow> int \<Rightarrow> SeekWhence \<Rightarrow> (('f, 's, 'd) VFS, int) io" where
  "vfs_seek fd offset whence =
     bind (get_desc fd) (\<lambda>d.
     let off = (case whence of SEEK_SET \<Rightarrow> offset | SEEK_CUR \<Rightarrow> fd_offset d + offset | SEEK_END \<Rightarrow> fd_offset d)
     in bind (set_offset fd off) (\<lambda>_. ret off))"

definition vfs_close :: "int \<Rightarrow> (('f, 's, 'd) VFS, unit) io" where
  "vfs_close fd = modify (\<lambda>v. v\<lparr>fds := AList.delete fd (fds v)\<rparr>)"

definition vfs_opened ::
  "('f, 's, 'd) fs_ops \<Rightarrow> string \<Rightarrow> int \<Rightarrow> (int \<Rightarrow> (('f, 's, 'd) VFS, 'a) io) \<Rightarrow> (('f, 's, 'd) VFS, 'a) io" where
  "vfs_opened ops path flags body =
     bind (vfs_open ops path flags) (\<lambda>fd v. let (r, v') = body fd v in (r, snd (vfs_close fd v')))"

subsection \<open>Directories\<close>

definition vfs_stat :: "('f, 's, 'd) fs_ops \<Rightarrow> string \<Rightarrow> (('f, 's, 'd) VFS, Stat) io" where
  "vfs_stat ops path = bind (vfs_resolve ops path) (\<lambda>node. on_fs (n_stat (nodes ops) node))"

definition vfs_mkdir :: "('f, 's, 'd) fs_ops \<Rightarrow> string \<Rightarrow> (('f, 's, 'd) VFS, unit) io" where
  "vfs_mkdir ops path =
     (let p = pure_path [path] in
      bind (vfs_resolve ops (path_parent p)) (\<lambda>parent.
      bind (on_fs (n_create (nodes ops) parent (path_name p) DIR)) (\<lambda>_. ret ())))"

definition vfs_unlink :: "('f, 's, 'd) fs_ops \<Rightarrow> string \<Rightarrow> (('f, 's, 'd) VFS, unit) io" where
  "vfs_unlink ops path =
     (let p = pure_path [path] in
      bind (vfs_resolve ops (path_parent p)) (\<lambda>parent.
      on_fs (n_unlink (nodes ops) parent (path_name p))))"

definition child_prefix :: "string \<Rightarrow> string" where
  "child_prefix norm = (if norm = ''/'' then ''/'' else norm @ ''/'')"

fun add_mount_names :: "string \<Rightarrow> (string \<times> 'f) list \<Rightarrow> string list \<Rightarrow> string list" where
  "add_mount_names norm [] entries = entries"
| "add_mount_names norm ((mp, fs) # ms) entries =
     (let prefix = child_prefix norm; child = drop (length prefix) mp in
      add_mount_names norm ms
        (if mp = ''/'' \<or> mp = norm \<or> \<not> starts_with mp prefix \<or> slash \<in> set child \<or> child \<in> set entries
         then entries else entries @ [child]))"

definition vfs_readdir :: "('f, 's, 'd) fs_ops \<Rightarrow> string \<Rightarrow> (('f, 's, 'd) VFS, string list) io" where
  "vfs_readdir ops path =
     bind (vfs_resolve ops path) (\<lambda>node.
     bind (on_fs (n_readdir (nodes ops) node)) (\<lambda>entries.
     gets (\<lambda>v. add_mount_names (norm_path path) (mounts v) entries)))"

lemma wp_on_fs [wp_simps]:
  "wp (on_fs m) Q E v = wp m (\<lambda>x s. Q x (v\<lparr>fs_state := s\<rparr>)) (\<lambda>e s. E e (v\<lparr>fs_state := s\<rparr>)) (fs_state v)"
  by (auto simp: wp_def on_fs_def split: prod.splits sum.splits)

lemma wp_TrueI: "(\<And>x t. Q x t) \<Longrightarrow> (\<And>e t. E e t) \<Longrightarrow> wp m Q E s"
  by (auto simp: wp_def split: prod.splits sum.splits)

subsection \<open>The most specific mount wins\<close>

definition mounts_ok :: "(string \<times> 'f) list \<Rightarrow> bool" where
  "mounts_ok ms \<longleftrightarrow> distinct (map fst ms) \<and> sorted_wrt (\<lambda>m m'. length (fst m') \<le> length (fst m)) ms"

lemma mounts_ok_sort:
  assumes "distinct (map fst ms)"
  shows "mounts_ok (sort_key (\<lambda>m. - int (length (fst m))) ms)"
proof -
  let ?k = "\<lambda>m :: string \<times> 'a. - int (length (fst m))"
  have "sorted_wrt (\<lambda>m m'. ?k m \<le> ?k m') (sort_key ?k ms)"
    using sorted_sort_key [of ?k ms] by (simp only: sorted_map)
  moreover have "mset (map fst (sort_key ?k ms)) = mset (map fst ms)" by (simp only: mset_map mset_sort)
  ultimately show ?thesis
    using assms by (simp add: mounts_ok_def mset_eq_imp_distinct_iff [of "map fst (sort_key ?k ms)" "map fst ms"])
qed

lemma mounts_ok_mount:
  assumes "mounts_ok (mounts v)"
  shows "mounts_ok (mounts (snd (vfs_mount path fs v)))"
proof -
  have "distinct (map fst (filter (\<lambda>(p, f). p \<noteq> norm_mount path) (mounts v) @ [(norm_mount path, fs)]))"
    using assms by (auto simp: mounts_ok_def distinct_map_filter)
  from mounts_ok_sort [OF this] show ?thesis by (simp add: vfs_mount_def Let_def modify_def)
qed

lemma unmount_split: "\<exists>a b f. (n, g) # ms = a @ (n, f) # b \<and> pre @ ms = pre @ a @ b"
  by (rule exI [of _ "[]"]) simp

lemma unmount_shift:
  "ms = a @ (n, g) # b \<Longrightarrow> \<exists>a' b' f. x # ms = a' @ (n, f) # b' \<and> pre @ x # a @ b = pre @ a' @ b'"
  by (rule exI [of _ "x # a"]) auto

lemma unmount_at_wp:
  assumes "mounts v = m0"
  shows "wp (unmount_at ops norm pre ms)
    (\<lambda>_ v'. \<exists>a b fs. ms = a @ (norm, fs) # b \<and> mounts v' = rev pre @ a @ b) (\<lambda>_ v'. mounts v' = m0) v"
  using assms
proof (induction ops norm pre ms arbitrary: v rule: unmount_at.induct)
  case (2 ops norm pre p fs ms)
  show ?case
  proof (cases "p = norm")
    case True
    then show ?thesis
      using 2(2) unmount_split by (auto simp: wp_simps intro!: wp_TrueI split: option.split)
  next
    case False
    have "wp (unmount_at ops norm ((p, fs) # pre) ms)
      (\<lambda>_ v'. \<exists>a b fs'. (p, fs) # ms = a @ (norm, fs') # b \<and> mounts v' = rev pre @ a @ b) (\<lambda>_ v'. mounts v' = m0) v"
      by (rule wp_mono [OF 2(1) [OF False 2(2)]]) (use unmount_shift in fastforce)+
    then show ?thesis using False by simp
  qed
qed (simp add: wp_simps)

lemma mounts_ok_unmount:
  assumes "mounts_ok (mounts v)"
  shows "mounts_ok (mounts (snd (vfs_unmount ops path v)))"
proof -
  have "wp (vfs_unmount ops path) (\<lambda>_ v'. mounts_ok (mounts v')) (\<lambda>_ v'. mounts_ok (mounts v')) v"
    unfolding vfs_unmount_def wp_simps
    by (rule wp_mono [OF unmount_at_wp [OF refl]]) (use assms in \<open>auto simp: mounts_ok_def sorted_wrt_append\<close>)
  then show ?thesis by (simp add: wp_snd)
qed

text \<open>A history of mounting and unmounting.\<close>

inductive mounted :: "('f, 's, 'd) fs_ops \<Rightarrow> ('f, 's, 'd) VFS \<Rightarrow> bool" for ops where
  Boot: "mounted ops (vfs_new s)"
| Mount: "mounted ops v \<Longrightarrow> mounted ops (snd (vfs_mount path fs v))"
| Unmount: "mounted ops v \<Longrightarrow> mounted ops (snd (vfs_unmount ops path v))"

lemma mounted_ok: "mounted ops v \<Longrightarrow> mounts_ok (mounts v)"
proof (induction rule: mounted.induct)
  case (Boot s)
  show ?case by (simp add: vfs_new_def mounts_ok_def)
qed (rule mounts_ok_mount mounts_ok_unmount; assumption)+

lemma find_mount_longest:
  assumes "mounts_ok ms" "find_mount rel s ms = Some (fs, r)"
  shows "\<exists>mp. (mp, fs) \<in> set ms \<and> rel s mp = Some r
    \<and> (\<forall>(mp', fs') \<in> set ms. rel s mp' \<noteq> None \<longrightarrow> length mp' \<le> length mp)"
  using assms
proof (induction rel s ms rule: find_mount.induct)
  case (2 rel s mp f ms)
  show ?case
  proof (cases "rel s mp")
    case None
    obtain mp' where "(mp', fs) \<in> set ms" "rel s mp' = Some r"
      "\<forall>(m, fs') \<in> set ms. rel s m \<noteq> None \<longrightarrow> length m \<le> length mp'"
      using 2(1) [OF None] 2(2,3) None by (auto simp: mounts_ok_def)
    then show ?thesis using None by (intro exI [of _ mp']) simp
  next
    case (Some r')
    then show ?thesis using 2(2,3) by (intro exI [of _ mp]) (auto simp: mounts_ok_def)
  qed
qed simp

lemma find_mount_None: "find_mount rel s ms = None \<longleftrightarrow> (\<forall>(mp, fs) \<in> set ms. rel s mp = None)"
  by (induction rel s ms rule: find_mount.induct) (auto split: option.splits)

text \<open>
  When a mount point covers a path: it is the root, the path itself, or ends where a component of
  the path ends. Below it the path goes on with the components of the rest.
\<close>

definition covers :: "string \<Rightarrow> string \<Rightarrow> bool" where
  "covers mp s \<longleftrightarrow> mp = ''/'' \<or> s = mp \<or> (\<exists>rest. s = mp @ ''/'' @ rest)"

definition below :: "string \<Rightarrow> string \<Rightarrow> string list" where
  "below mp s = split_parts (if mp = ''/'' then s else drop (length mp) s)"

lemma split_parts_Cons [simp]: "split_parts (slash # s) = split_parts s"
  by (simp add: split_parts_def)

lemma rel_parts_covers: "rel_parts (norm_path path) mp = (if covers mp (norm_path path) then Some (below mp (norm_path path)) else None)"
proof (cases "mp = ''/'' \<or> norm_path path = mp")
  case True
  then show ?thesis by (auto simp: rel_parts_def covers_def below_def norm_path_def) (simp_all add: split_parts_def)
next
  case False
  then show ?thesis by (auto simp: rel_parts_def covers_def below_def starts_with_iff)
qed

text \<open>
  C9. However filesystems have been mounted and unmounted, mount points are distinct, and a path is
  resolved by walking from the root of the filesystem whose mount point is the longest that covers the path, along
  the components below it; a path no mount point covers is not found. Covering goes by whole
  components: \<^verbatim>\<open>/home\<close> covers \<^verbatim>\<open>/home/a\<close> and not \<^verbatim>\<open>/homework\<close>.
\<close>

theorem vfs_resolve_longest:
  assumes "mounted ops v"
  shows "distinct (map fst (mounts v)) \<and>
    (if \<forall>(mp, fs) \<in> set (mounts v). \<not> covers mp (norm_path path)
     then vfs_resolve ops path v = (Inl FileNotFoundError, v)
     else \<exists>(mp, fs) \<in> set (mounts v). covers mp (norm_path path)
       \<and> (\<forall>(mp', fs') \<in> set (mounts v). covers mp' (norm_path path) \<longrightarrow> length mp' \<le> length mp)
       \<and> vfs_resolve ops path v = on_fs (walk (nodes ops) (fs_root ops fs) (below mp (norm_path path))) v)"
proof (cases "find_mount rel_parts (norm_path path) (mounts v)")
  case None
  then have "\<forall>(mp, fs) \<in> set (mounts v). \<not> covers mp (norm_path path)"
    by (auto simp: find_mount_None rel_parts_covers split: if_splits)
  then show ?thesis using None mounted_ok [OF assms] by (simp add: vfs_resolve_def mounts_ok_def)
next
  case (Some x)
  obtain fs ps where x: "x = (fs, ps)" by fastforce
  obtain mp where mp: "(mp, fs) \<in> set (mounts v)" "rel_parts (norm_path path) mp = Some ps"
    "\<forall>(mp', fs') \<in> set (mounts v). rel_parts (norm_path path) mp' \<noteq> None \<longrightarrow> length mp' \<le> length mp"
    using find_mount_longest [OF mounted_ok [OF assms] Some [unfolded x]] by blast
  then have c: "covers mp (norm_path path)" "ps = below mp (norm_path path)"
    "\<forall>(mp', fs') \<in> set (mounts v). covers mp' (norm_path path) \<longrightarrow> length mp' \<le> length mp"
    by (auto simp: rel_parts_covers split: if_splits)
  have "vfs_resolve ops path v = on_fs (walk (nodes ops) (fs_root ops fs) ps) v" by (simp add: vfs_resolve_def Some x)
  then show ?thesis using mp(1) c mounted_ok [OF assms] by (auto simp: mounts_ok_def)
qed

subsection \<open>A tmpfs as a mounted filesystem\<close>

definition tmp_fs :: "(nat, tmp_heap, nat) fs_ops" where
  "tmp_fs = \<lparr>nodes = tmp_ops, fs_root = (\<lambda>r. r), fs_flush = (\<lambda>r. None),
     fs_read_sync = (\<lambda>r. Some (tmpfs_read_sync r)), fs_isdir_sync = (\<lambda>r. Some (tmpfs_isdir_sync r))\<rparr>"

lemma tmp_sel [simp]:
  "nodes tmp_fs = tmp_ops" "fs_root tmp_fs r = r" "n_stat tmp_ops = tmp_stat" "n_read tmp_ops = tmp_read"
  "n_write tmp_ops = tmp_write" "n_truncate tmp_ops = tmp_truncate" "n_lookup tmp_ops = tmp_lookup"
  "n_create tmp_ops = tmp_create"
  by (simp_all add: tmp_fs_def tmp_ops_def)

theorem vfs_resolve_longest_witness:
  "\<exists>v :: (nat, tmp_heap, nat) VFS. mounted tmp_fs v \<and>
     vfs_resolve tmp_fs ''/home/a'' v = on_fs (walk tmp_ops 7 [''a'']) v \<and>
     vfs_resolve tmp_fs ''/homework/a'' v = on_fs (walk tmp_ops 0 [''homework'', ''a'']) v"
proof -
  obtain v :: "(nat, tmp_heap, nat) VFS" where m: "mounted tmp_fs v" and v: "mounts v = [(''/home'', 7), (''/'', 0)]"
  proof
    show "mounted tmp_fs (snd (vfs_mount ''/home/'' 7 (snd (vfs_mount ''/'' 0 (vfs_new [])))))"
      by (intro mounted.Mount mounted.Boot)
    show "mounts (snd (vfs_mount ''/home/'' 7 (snd (vfs_mount ''/'' 0 (vfs_new []))))) = [(''/home'', 7), (''/'', 0)]"
      by (simp add: vfs_mount_def vfs_new_def Let_def norm_mount_def rstrip_def modify_def)
  qed
  have n: "norm_path ''/home/a'' = ''/home/a''" "norm_path ''/homework/a'' = ''/homework/a''"
    "below ''/home'' ''/home/a'' = [''a'']" "below ''/'' ''/homework/a'' = [''homework'', ''a'']"
    by (simp_all add: norm_path_def strip_def rstrip_def below_def split_parts_def)
  have c: "covers ''/home'' ''/home/a''" "\<not> covers ''/home'' ''/homework/a''" "covers ''/'' x" for x
    by (simp_all add: covers_def)
  show ?thesis
    using m vfs_resolve_longest [OF m, of "''/home/a''"] vfs_resolve_longest [OF m, of "''/homework/a''"]
    by (intro exI [of _ v]) (simp add: v n c)
qed

lemma strip_ends: "strip c s = [] \<or> hd (strip c s) \<noteq> c \<and> last (strip c s) \<noteq> c"
proof -
  let ?d = "dropWhile (\<lambda>x. x = c) s"
  have d: "?d \<noteq> [] \<Longrightarrow> hd ?d \<noteq> c" using hd_dropWhile [of "\<lambda>x. x = c" s] by simp
  obtain r where r: "?d = rstrip c ?d @ r"
    by (metis rstrip_def takeWhile_dropWhile_id rev_append rev_rev_ident)
  then have "rstrip c ?d \<noteq> [] \<Longrightarrow> hd (rstrip c ?d) \<noteq> c" using d by (metis append_is_Nil_conv hd_append2)
  then show ?thesis using rstrip_last [of c ?d] by (auto simp: strip_def)
qed

lemma strip_id: "s = [] \<or> hd s \<noteq> c \<and> last s \<noteq> c \<Longrightarrow> strip c s = s"
  by (cases s) (auto simp: strip_def rstrip_id)

lemma strip_Cons [simp]: "strip c (c # s) = strip c s"
  by (simp add: strip_def)

lemma strip_strip [simp]: "strip c (strip c s) = strip c s"
  using strip_ends strip_id by blast

lemma join_ends:
  assumes "ps \<noteq> []" "\<forall>p \<in> set ps. p \<noteq> [] \<and> c \<notin> set p"
  shows "join_with [c] ps \<noteq> [] \<and> hd (join_with [c] ps) \<noteq> c \<and> last (join_with [c] ps) \<noteq> c"
  using assms
proof (induction "[c]" ps rule: join_with.induct)
  case (2 w)
  then show ?case by (metis join_with.simps(2) hd_in_set last_in_set list.set_intros(1))
next
  case (3 w w' ws)
  moreover have "hd w \<noteq> c" "w \<noteq> []" using 3(3) hd_in_set by force+
  ultimately show ?case by auto
qed simp

lemma parts_ok: "\<forall>p \<in> set (split_parts s). p \<noteq> [] \<and> slash \<notin> set p"
  using split_on_parts_no_sep by (fastforce simp: split_parts_def)

lemma split_parts_join:
  assumes "\<forall>p \<in> set ps. p \<noteq> [] \<and> slash \<notin> set p"
  shows "split_parts (join_with [slash] ps) = ps"
proof (cases "ps = []")
  case False
  then have "split_on slash (join_with [slash] ps) = ps" using assms by (intro split_on_join) auto
  then show ?thesis using assms by (simp add: split_parts_def)
qed (simp add: split_parts_def)

lemma norm_path_join:
  assumes "\<forall>p \<in> set ps. p \<noteq> [] \<and> slash \<notin> set p"
  shows "norm_path (slash # join_with [slash] ps) = slash # join_with [slash] ps"
  using join_ends [of ps slash] assms by (cases "ps = []") (auto simp: norm_path_def strip_id)

lemma path_components_norm: "path_components (norm_path path) = split_parts (strip slash path)"
  by (simp add: path_components_def norm_path_def split_parts_def)

lemma open_create_parts:
  "open_create ops path = (let ps = split_parts (strip slash path) in
     if ps = [] then raise IsADirectoryError
     else bind (vfs_resolve ops (slash # join_with [slash] (butlast ps))) (\<lambda>parent.
          on_fs (n_create (nodes ops) parent (last ps) FILE)))"
proof -
  have "length ps \<le> 1 \<Longrightarrow> butlast ps = []" for ps :: "string list" by (cases ps) auto
  then show ?thesis by (auto simp: open_create_def norm_path_def Let_def)
qed

text \<open>
  A path that belongs to the filesystem mounted at the root: no other mount point covers it, as it is written or
  with its empty components removed, which is how \<open>open\<close> spells the parent of a new file.
\<close>

definition on_root :: "string \<Rightarrow> 'f \<Rightarrow> (string \<times> 'f) list \<Rightarrow> bool" where
  "on_root path r ms \<longleftrightarrow> map_of ms ''/'' = Some r \<and> (\<forall>(mp, fs) \<in> set ms. mp \<noteq> ''/'' \<longrightarrow>
     \<not> covers mp (norm_path path) \<and> \<not> covers mp (slash # join_with [slash] (split_parts (strip slash path))))"

lemma find_mount_root:
  assumes "map_of ms ''/'' = Some r" "\<forall>(mp, fs) \<in> set ms. mp \<noteq> ''/'' \<longrightarrow> rel s mp = None" "rel s ''/'' = Some x"
  shows "find_mount rel s ms = Some (r, x)"
  using assms by (induction ms) (auto split: if_splits)

lemma join_snoc: "ps \<noteq> [] \<Longrightarrow> join_with sep (ps @ [p]) = join_with sep ps @ sep @ p"
  by (induction sep ps rule: join_with.induct) auto

lemma covers_longer: "mp \<noteq> ''/'' \<Longrightarrow> covers mp s \<Longrightarrow> covers mp (s @ slash # t)"
  by (auto simp: covers_def)

lemma on_root_parent:
  assumes "on_root path r ms" "split_parts (strip slash path) = ps" "ps \<noteq> []"
  shows "on_root (slash # join_with [slash] (butlast ps)) r ms"
proof -
  let ?q = "slash # join_with [slash] (butlast ps)"
  have "\<forall>p \<in> set ps. p \<noteq> [] \<and> slash \<notin> set p" using parts_ok assms(2) by blast
  then have ok: "\<forall>p \<in> set (butlast ps). p \<noteq> [] \<and> slash \<notin> set p" by (meson in_set_butlastD)
  have n: "norm_path ?q = ?q" "split_parts (strip slash ?q) = butlast ps"
    using norm_path_join [OF ok] split_parts_join [OF ok] by (simp_all add: norm_path_def)
  have "covers mp (slash # join_with [slash] ps)" if "covers mp ?q" "mp \<noteq> ''/''" for mp
  proof (cases "butlast ps = []")
    case True
    then show ?thesis using that by (auto simp: covers_def Cons_eq_append_conv)
  next
    case False
    then have "slash # join_with [slash] ps = ?q @ slash # last ps"
      using join_snoc [OF False, of "[slash]" "last ps"] assms(3) by simp
    then show ?thesis using covers_longer [OF that(2,1)] by simp
  qed
  then show ?thesis using assms(1) unfolding on_root_def n assms(2) by blast
qed

lemma vfs_resolve_root:
  assumes "on_root path r (mounts v)"
  shows "vfs_resolve ops path v = on_fs (walk (nodes ops) (fs_root ops r) (split_parts (strip slash path))) v"
proof -
  have "find_mount rel_parts (norm_path path) (mounts v) = Some (r, split_parts (strip slash path))"
  proof (rule find_mount_root)
    show "map_of (mounts v) ''/'' = Some r" using assms by (simp add: on_root_def)
    show "\<forall>(mp, fs) \<in> set (mounts v). mp \<noteq> ''/'' \<longrightarrow> rel_parts (norm_path path) mp = None"
      using assms by (auto simp: on_root_def rel_parts_covers)
    show "rel_parts (norm_path path) ''/'' = Some (split_parts (strip slash path))" by (simp add: rel_parts_def norm_path_def)
  qed
  then show ?thesis by (simp add: vfs_resolve_def)
qed

definition tmp_type_data :: "TmpfsNode \<Rightarrow> byte list option" where
  "tmp_type_data k = (if t_type k \<noteq> FILE then None else Some (t_data k))"

lemma rel_string_covers: "\<not> covers mp s \<Longrightarrow> rel_string s mp = None" "rel_string s ''/'' = Some s"
  by (auto simp: rel_string_def covers_def starts_with_iff)

lemma vfs_read_sync_root:
  assumes "on_root path r (mounts v)"
  shows "vfs_read_sync tmp_fs path v =
    (case walk_sync (fs_state v) r (split_parts (strip slash path)) of
       None \<Rightarrow> None | Some d \<Rightarrow> tmp_type_data (fs_state v ! d))"
proof -
  have "find_mount rel_string (norm_path path) (mounts v) = Some (r, norm_path path)"
    using assms by (intro find_mount_root) (auto simp: on_root_def rel_string_covers)
  then show ?thesis
    by (simp add: vfs_read_sync_def tmp_fs_def tmpfs_read_sync_def path_components_norm tmp_type_data_def split: option.split)
qed

subsection \<open>The tree of a tmpfs\<close>

text \<open>Only directories have children, and children are nodes of the heap.\<close>

definition tmp_wf :: "tmp_heap \<Rightarrow> bool" where
  "tmp_wf h \<longleftrightarrow> (\<forall>k \<in> set h. (t_type k \<noteq> DIR \<longrightarrow> t_children k = []) \<and> (\<forall>(n, e) \<in> set (t_children k). e < length h))"

lemma tmp_wf_child:
  assumes "tmp_wf h" "d < length h" "map_of (t_children (h ! d)) n = Some e"
  shows "t_type (h ! d) = DIR" "e < length h"
proof -
  have "h ! d \<in> set h" "(n, e) \<in> set (t_children (h ! d))"
    using assms(2,3) by (auto dest: map_of_SomeD)
  then show "t_type (h ! d) = DIR" "e < length h" using assms(1) by (fastforce simp: tmp_wf_def)+
qed

lemma walk_sync_bound: "tmp_wf h \<Longrightarrow> d < length h \<Longrightarrow> walk_sync h d ps = Some e \<Longrightarrow> e < length h"
proof (induction h d ps rule: walk_sync.induct)
  case (2 h d p ps)
  then show ?case using tmp_wf_child [of h d p] by (auto split: if_splits option.splits)
qed simp

lemma walk_is_walk_sync:
  assumes "tmp_wf h" "d < length h" "''.'' \<notin> set ps" "[] \<notin> set ps"
  shows "walk tmp_ops d ps h =
    (case walk_sync h d ps of None \<Rightarrow> Inl FileNotFoundError | Some e \<Rightarrow> Inr e, h)"
  using assms
proof (induction ps arbitrary: d)
  case (Cons p ps)
  then have p: "tmp_lookup d p h =
      (case map_of (t_children (h ! d)) p of None \<Rightarrow> Inl FileNotFoundError | Some e \<Rightarrow> Inr e, h)"
    by (auto simp: tmp_lookup_def split: option.split)
  show ?case
  proof (cases "map_of (t_children (h ! d)) p")
    case (Some e)
    then show ?thesis using p Cons tmp_wf_child [of h d p e] by (simp add: bind_def)
  qed (simp add: p bind_def)
qed simp

lemma walk_sync_append:
  "walk_sync h d (ps @ qs) = (case walk_sync h d ps of None \<Rightarrow> None | Some e \<Rightarrow> walk_sync h e qs)"
  by (induction h d ps rule: walk_sync.induct) (auto split: option.split)

text \<open>A heap in which nodes keep their types and their children still has the old paths.\<close>

lemma walk_sync_mono:
  assumes "\<And>d. d < length h \<Longrightarrow> t_type (h' ! d) = t_type (h ! d) \<and> map_of (t_children (h ! d)) \<subseteq>\<^sub>m map_of (t_children (h' ! d))"
    and "tmp_wf h" "d < length h" "walk_sync h d ps = Some e"
  shows "walk_sync h' d ps = Some e"
  using assms(3,4)
proof (induction ps arbitrary: d)
  case (Cons p ps)
  then obtain c where c: "t_type (h ! d) = DIR" "map_of (t_children (h ! d)) p = Some c" "walk_sync h c ps = Some e"
    by (auto split: if_splits option.splits)
  moreover have "map_of (t_children (h' ! d)) p = Some c"
    using assms(1) [OF Cons(2)] c(2) by (metis domI map_le_def)
  ultimately show ?case
    using Cons tmp_wf_child(2) [OF assms(2) Cons(2) c(2)] assms(1) [OF Cons(2)] by simp
qed simp

definition tmp_linked :: "tmp_heap \<Rightarrow> nat \<Rightarrow> string \<Rightarrow> InodeType \<Rightarrow> tmp_heap" where
  "tmp_linked h d n ty = (h @ [new_node ty 0x1A4])
     [d := (h ! d)\<lparr>t_children := AList.update n (length h) (t_children (h ! d))\<rparr>]"

lemma tmp_create_eq:
  assumes "d < length h"
  shows "tmp_create d n ty h =
    (if t_type (h ! d) \<noteq> DIR then (Inl NotADirectoryError, h) else (Inr (length h), tmp_linked h d n ty))"
  using assms by (simp add: tmp_create_def alloc_node_def node_update_def tmp_linked_def bind_def nth_append)

lemma tmp_wf_linked:
  assumes "tmp_wf h" "d < length h" "t_type (h ! d) = DIR"
  shows "tmp_wf (tmp_linked h d n ty)"
proof -
  have "e \<le> length h" if "(m, e) \<in> set (AList.update n (length h) (t_children (h ! d)))" for m e
  proof -
    have "h ! d \<in> set h" using assms(2) by simp
    then show ?thesis using that assms(1) by (fastforce simp: tmp_wf_def dest: alist_update_mem)
  qed
  moreover have "k \<in> set h \<or> k = new_node ty 0x1A4 \<or> k = (h ! d)\<lparr>t_children := AList.update n (length h) (t_children (h ! d))\<rparr>"
    if "k \<in> set (tmp_linked h d n ty)" for k
    using that set_update_subset_insert by (fastforce simp: tmp_linked_def)
  ultimately show ?thesis
    using assms by (fastforce simp: tmp_wf_def new_node_def tmp_linked_def)
qed

lemma walk_sync_linked:
  assumes "tmp_wf h" "d < length h" "t_type (h ! d) = DIR" "map_of (t_children (h ! d)) n = None"
    "r < length h" "walk_sync h r ps = Some d"
  shows "walk_sync (tmp_linked h d n ty) r (ps @ [n]) = Some (length h)"
proof -
  have "walk_sync (tmp_linked h d n ty) r ps = Some d"
  proof (rule walk_sync_mono [OF _ assms(1,5,6)])
    fix x assume "x < length h"
    then show "t_type (tmp_linked h d n ty ! x) = t_type (h ! x)
        \<and> map_of (t_children (h ! x)) \<subseteq>\<^sub>m map_of (t_children (tmp_linked h d n ty ! x))"
      using assms(2,4)
      by (cases "x = d") (auto simp: tmp_linked_def nth_list_update nth_append map_le_def update_conv')
  qed
  then show ?thesis
    using assms(2,3) by (simp add: walk_sync_append tmp_linked_def update_conv' nth_append)
qed

lemma tmp_data_update:
  assumes "d < length h"
  shows "tmp_wf (h[d := (h ! d)\<lparr>t_data := xs\<rparr>]) = tmp_wf h"
    and "walk_sync (h[d := (h ! d)\<lparr>t_data := xs\<rparr>]) r ps = walk_sync h r ps"
proof -
  have n: "t_type (h[d := (h ! d)\<lparr>t_data := xs\<rparr>] ! x) = t_type (h ! x)"
    "t_children (h[d := (h ! d)\<lparr>t_data := xs\<rparr>] ! x) = t_children (h ! x)" for x
    using assms by (auto simp: nth_list_update)
  show "tmp_wf (h[d := (h ! d)\<lparr>t_data := xs\<rparr>]) = tmp_wf h"
    by (simp add: tmp_wf_def all_set_conv_all_nth n)
  show "walk_sync (h[d := (h ! d)\<lparr>t_data := xs\<rparr>]) r ps = walk_sync h r ps"
    by (induction ps arbitrary: r) (auto simp: n split: option.split)
qed

subsection \<open>Creating, writing and reading back\<close>

abbreviation open_node :: "('f, 's, 'd) fs_ops \<Rightarrow> string \<Rightarrow> (('f, 's, 'd) VFS, 'd) io" where
  "open_node ops path \<equiv> catch (vfs_resolve ops path)
     (\<lambda>e. if e = FileNotFoundError then open_create ops path else raise e)"

definition at_path :: "(string \<times> nat) list \<Rightarrow> nat \<Rightarrow> string list \<Rightarrow> nat \<Rightarrow> (nat, tmp_heap, nat) VFS \<Rightarrow> bool" where
  "at_path ms r ps d w \<longleftrightarrow> mounts w = ms \<and> tmp_wf (fs_state w) \<and> r < length (fs_state w)
     \<and> d < length (fs_state w) \<and> walk_sync (fs_state w) r ps = Some d"

lemma resolve_tmp:
  assumes "on_root path r (mounts v)" "tmp_wf (fs_state v)" "r < length (fs_state v)"
    "''.'' \<notin> set (split_parts (strip slash path))"
  shows "vfs_resolve tmp_fs path v = (case walk_sync (fs_state v) r (split_parts (strip slash path)) of
      None \<Rightarrow> Inl FileNotFoundError | Some e \<Rightarrow> Inr e, v)"
proof -
  have "[] \<notin> set (split_parts (strip slash path))" using parts_ok by blast
  then show ?thesis
    using walk_is_walk_sync [OF assms(2,3,4)] by (simp add: vfs_resolve_root [OF assms(1)] on_fs_def)
qed

lemma open_create_wp:
  assumes v: "on_root path r (mounts v)" "tmp_wf (fs_state v)" "r < length (fs_state v)"
    and ps: "split_parts (strip slash path) = ps" "''.'' \<notin> set ps"
    and none: "walk_sync (fs_state v) r ps = None"
  shows "wp (open_create tmp_fs path)
    (\<lambda>d w. at_path (mounts v) r ps d w \<and> fds w = fds v \<and> next_fd w = next_fd v) (\<lambda>_ _. True) v"
proof (cases "ps = []")
  case False
  let ?qs = "butlast ps"
  have ok: "\<forall>p \<in> set ps. p \<noteq> [] \<and> slash \<notin> set p" using parts_ok ps(1) by blast
  then have okq: "\<forall>p \<in> set ?qs. p \<noteq> [] \<and> slash \<notin> set p" by (meson in_set_butlastD)
  have sp: "split_parts (strip slash (slash # join_with [slash] ?qs)) = ?qs"
    using norm_path_join [OF okq] split_parts_join [OF okq] by (simp add: norm_path_def)
  have dot: "''.'' \<notin> set ?qs" using ps(2) by (meson in_set_butlastD)
  have none': "d < length (fs_state v) \<Longrightarrow> walk_sync (fs_state v) r ?qs = Some d \<Longrightarrow> t_type (fs_state v ! d) = DIR
      \<Longrightarrow> map_of (t_children (fs_state v ! d)) (last ps) = None" for d
    using none walk_sync_append [of "fs_state v" r ?qs "[last ps]"] False by (auto split: option.splits)
  have q: "on_root (slash # join_with [slash] ?qs) r (mounts v)" by (rule on_root_parent [OF v(1) ps(1) False])
  have psq: "ps = ?qs @ [last ps]" using False by simp
  show ?thesis
  proof (cases "walk_sync (fs_state v) r ?qs")
    case None
    then show ?thesis
      using False resolve_tmp [OF q v(2,3)] dot sp
      by (simp add: open_create_parts ps wp_simps) (simp add: wp_def sp)
  next
    case (Some d)
    have d: "d < length (fs_state v)" using walk_sync_bound [OF v(2,3) Some] .
    have res: "vfs_resolve tmp_fs (slash # join_with [slash] ?qs) v = (Inr d, v)"
      using resolve_tmp [OF q v(2,3)] dot sp Some by simp
    have "at_path (mounts v) r ps (length (fs_state v)) (v\<lparr>fs_state := tmp_linked (fs_state v) d (last ps) FILE\<rparr>)"
      if "t_type (fs_state v ! d) = DIR"
      using walk_sync_linked [OF v(2) d that none' [OF d Some that] v(3) Some, of FILE]
        tmp_wf_linked [OF v(2) d that, of "last ps" FILE] v psq
      by (simp add: at_path_def tmp_linked_def)
    then show ?thesis
      using False d
      by (simp add: open_create_parts ps wp_simps)
        (simp add: wp_def res tmp_create_eq on_fs_def)
  qed
qed (simp add: open_create_parts ps wp_simps)

lemma open_node_wp:
  assumes v: "on_root path r (mounts v)" "tmp_wf (fs_state v)" "r < length (fs_state v)"
    and ps: "split_parts (strip slash path) = ps" "''.'' \<notin> set ps"
  shows "wp (open_node tmp_fs path)
    (\<lambda>d w. at_path (mounts v) r ps d w \<and> fds w = fds v \<and> next_fd w = next_fd v) (\<lambda>_ _. True) v"
proof (cases "walk_sync (fs_state v) r ps")
  case None
  then show ?thesis
    using open_create_wp [OF v ps None] resolve_tmp [OF v] ps
    by (simp add: wp_simps) (simp add: wp_def)
next
  case (Some d)
  then show ?thesis
    using resolve_tmp [OF v] ps v walk_sync_bound [OF v(2,3) Some]
    by (simp add: wp_simps) (simp add: wp_def at_path_def)
qed

lemma at_path_data:
  assumes "at_path ms r ps d w"
  shows "at_path ms r ps d (w\<lparr>fs_state := (fs_state w)[d := (fs_state w ! d)\<lparr>t_data := xs\<rparr>]\<rparr>)"
  using assms by (simp add: at_path_def tmp_data_update)

lemma at_path_fds [simp]: "at_path ms r ps d (w\<lparr>next_fd := y, fds := x\<rparr>) = at_path ms r ps d w"
  by (simp add: at_path_def)

lemma open_trunc_wp:
  assumes v: "on_root path r (mounts v)" "tmp_wf (fs_state v)" "r < length (fs_state v)"
    and ps: "''.'' \<notin> set (split_parts (strip slash path))"
    and flags: "flags AND CREAT \<noteq> 0" "flags AND TRUNC \<noteq> 0"
  shows "wp (vfs_open tmp_fs path flags)
    (\<lambda>fd w. \<exists>d. at_path (mounts v) r (split_parts (strip slash path)) d w \<and> tmp_file (fs_state w) d = Some []
       \<and> map_of (fds w) fd = Some \<lparr>fd_node = d, fd_flags = flags, fd_offset = 0\<rparr>) (\<lambda>_ _. True) v"
proof -
  let ?ps = "split_parts (strip slash path)"
  have trunc: "wp (on_fs (tmp_truncate d 0)) (\<lambda>_ w'. at_path (mounts v) r ?ps d w' \<and> tmp_file (fs_state w') d = Some [])
      (\<lambda>_ _. True) w" if "at_path (mounts v) r ?ps d w" for d w
    using at_path_data [OF that, of "[]"] that
    by (auto simp: wp_simps tmp_truncate_def node_update_def tmp_file_def at_path_def slice_def)
  have "wp (open_node tmp_fs path) (\<lambda>d w. at_path (mounts v) r ?ps d w) (\<lambda>_ _. True) v"
    by (rule wp_mono [OF open_node_wp [OF v refl ps]]) auto
  then show ?thesis
    unfolding vfs_open_def wp_bind if_P [OF flags(1)] if_P [OF flags(2)] tmp_sel
    by (rule wp_mono) (auto simp: wp_gets wp_modify wp_ret wp_bind update_conv' intro!: wp_mono [OF trunc])
qed

subsection \<open>Descriptors over any filesystem\<close>

text \<open>
  What reading, writing and seeking through a descriptor do, for every filesystem whose nodes keep
  the contract of regular files.
\<close>

lemma map_of_offset [simp]:
  "map_of (map (\<lambda>(k, d). (k, if k = fd then d\<lparr>fd_offset := off\<rparr> else d)) ds) k
     = (if k = fd then map_option (\<lambda>d. d\<lparr>fd_offset := off\<rparr>) (map_of ds k) else map_of ds k)"
  by (induction ds) auto

locale vfs_files = file_node "nodes fo" contents
  for fo :: "('f, 's, 'd) fs_ops" and contents :: "'s \<Rightarrow> 'd \<Rightarrow> byte list option"
begin

definition opened_at where
  "opened_at v fd d fl off xs \<longleftrightarrow> map_of (fds v) fd = Some \<lparr>fd_node = d, fd_flags = fl, fd_offset = int off\<rparr>
     \<and> contents (fs_state v) d = Some xs"

lemma vfs_read_at:
  assumes "opened_at v fd d fl off xs"
  shows "\<exists>v'. vfs_read fo fd (int n) v = (Inr (take n (drop off xs)), v')
    \<and> opened_at v' fd d fl (off + length (take n (drop off xs))) xs \<and> mounts v' = mounts v"
proof -
  obtain s' where "n_read (nodes fo) d (int off) (int n) (fs_state v) = (Inr (take n (drop off xs)), s')"
    "contents s' = contents (fs_state v)"
    using read_file [of "fs_state v" d xs "int off" "int n"] assms by (auto simp: opened_at_def)
  then show ?thesis
    using assms by (simp add: vfs_read_def get_desc_def set_offset_def on_fs_def bind_def opened_at_def)
qed

lemma vfs_write_at:
  assumes "opened_at v fd d fl off xs" "vfs_write fo fd data v = (Inr m, v')"
  shows "m = int (length data)
    \<and> (let at = if fl AND APPEND \<noteq> 0 then length xs else off
       in opened_at v' fd d fl (at + length data) (file_splice at data xs)) \<and> mounts v' = mounts v"
proof -
  obtain st s1 where st: "n_stat (nodes fo) d (fs_state v) = (Inr st, s1)" "st_size st = int (length xs)"
    "contents s1 = contents (fs_state v)"
    using stat_file [of "fs_state v" d xs] assms(1) by (auto simp: opened_at_def)
  show ?thesis
  proof (cases "fl AND APPEND \<noteq> 0")
    case True
    then obtain s2 where "n_write (nodes fo) d (int (length xs)) data s1 = (Inr m, s2)"
      "v' = v\<lparr>fs_state := s2, fds := map (\<lambda>(k, e). (k, if k = fd then e\<lparr>fd_offset := int (length xs) + m\<rparr> else e))
          (map (\<lambda>(k, e). (k, if k = fd then e\<lparr>fd_offset := int (length xs)\<rparr> else e)) (fds v))\<rparr>"
      using assms st
      by (auto simp: vfs_write_def get_desc_def set_offset_def on_fs_def bind_def opened_at_def
          split: prod.splits sum.splits)
    then show ?thesis
      using write_file [of s1 d xs "int (length xs)" data m s2] assms(1) st True
      by (simp add: opened_at_def Let_def del: map_map)
  next
    case False
    then obtain s2 where "n_write (nodes fo) d (int off) data (fs_state v) = (Inr m, s2)"
      "v' = v\<lparr>fs_state := s2, fds := map (\<lambda>(k, e). (k, if k = fd then e\<lparr>fd_offset := int off + m\<rparr> else e)) (fds v)\<rparr>"
      using assms
      by (auto simp: vfs_write_def get_desc_def set_offset_def on_fs_def bind_def opened_at_def
          split: prod.splits sum.splits)
    then show ?thesis
      using write_file [of "fs_state v" d xs "int off" data m s2] assms(1) False
      by (simp add: opened_at_def Let_def)
  qed
qed

lemma vfs_seek_at:
  assumes "opened_at v fd d fl off xs"
  shows "\<exists>v'. vfs_seek fd (int k) SEEK_SET v = (Inr (int k), v') \<and> opened_at v' fd d fl k xs \<and> mounts v' = mounts v"
  using assms by (simp add: vfs_seek_def get_desc_def set_offset_def opened_at_def Let_def bind_def)

end

interpretation tv: vfs_files tmp_fs tmp_file
  unfolding vfs_files_def tmp_sel by (rule tf.file_node_axioms)

lemma tmp_write_ok:
  assumes "tmp_file h d = Some xs" "0 \<le> off"
  shows "tmp_write d off data h
    = (Inr (int (length data)), h[d := (h ! d)\<lparr>t_data := file_splice (nat off) data xs\<rparr>])"
  using assms by (auto simp: tmp_file_def tmp_write_def Let_def node_update_def tmp_write_splice split: if_splits)

lemma tmp_vfs_write:
  assumes "tv.opened_at v fd d fl off xs"
  shows "\<exists>v'. vfs_write tmp_fs fd data v = (Inr (int (length data)), v') \<and> mounts v' = mounts v
    \<and> fs_state v' = (let at = if fl AND APPEND \<noteq> 0 then length xs else off in
        (fs_state v)[d := (fs_state v ! d)\<lparr>t_data := file_splice at data xs\<rparr>])"
proof -
  have f: "map_of (fds v) fd = Some \<lparr>fd_node = d, fd_flags = fl, fd_offset = int off\<rparr>"
    "tmp_file (fs_state v) d = Some xs" using assms by (simp_all add: tv.opened_at_def)
  then have "length (t_data (fs_state v ! d)) = length xs" by (auto simp: tmp_file_def split: if_splits)
  with f show ?thesis
    by (cases "fl AND APPEND \<noteq> 0")
      (simp_all add: vfs_write_def get_desc_def set_offset_def on_fs_def bind_def tmp_stat_def Let_def
        tmp_write_ok [OF f(2)])
qed

text \<open>
  C8. Let a tmpfs be mounted at the root, other tmpfs mounts not covering the path, and the path have no
  component \<^verbatim>\<open>.\<close> (which the synchronous reader, unlike \<open>open\<close>, does not skip). Opening the path with \<^verbatim>\<open>CREAT | TRUNC\<close>, whether or not the file exists,
  and writing to the descriptor stores exactly the written bytes under that path: the write accepts
  all of them, a synchronous read of the path returns them, and so does seeking back to the start
  and reading through the descriptor.
\<close>

theorem tmpfs_create_write_read:
  assumes "on_root path r (mounts v)" "tmp_wf (fs_state v)" "r < length (fs_state v)"
    and "''.'' \<notin> set (split_parts (strip slash path))"
    and "flags AND CREAT \<noteq> 0" "flags AND TRUNC \<noteq> 0"
    and "vfs_open tmp_fs path flags v = (Inr fd, v1)"
  shows "\<exists>v2 v3. vfs_write tmp_fs fd data v1 = (Inr (int (length data)), v2)
    \<and> vfs_read_sync tmp_fs path v2 = Some data
    \<and> vfs_seek fd 0 SEEK_SET v2 = (Inr 0, v3)
    \<and> fst (vfs_read tmp_fs fd (int (length data)) v3) = Inr data"
proof -
  let ?ps = "split_parts (strip slash path)"
  obtain d where d: "at_path (mounts v) r ?ps d v1" "tv.opened_at v1 fd d flags 0 []"
    using wp_InrD [OF open_trunc_wp [OF assms(1-6)] assms(7)] by (auto simp: tv.opened_at_def)
  let ?h = "(fs_state v1)[d := (fs_state v1 ! d)\<lparr>t_data := data\<rparr>]"
  have f: "tmp_file (fs_state v1) d = Some []" using d(2) by (simp add: tv.opened_at_def)
  obtain v2 where w: "vfs_write tmp_fs fd data v1 = (Inr (int (length data)), v2)"
    "fs_state v2 = ?h" "mounts v2 = mounts v1"
    using tmp_vfs_write [OF d(2), of data] file_splice_append [of "[]" data] by (auto simp: Let_def)
  have "tv.opened_at v2 fd d flags (length data) data"
    using tv.vfs_write_at [OF d(2) w(1)] file_splice_append [of "[]" data] by (simp add: Let_def split: if_splits)
  moreover from this obtain v3 where v3: "vfs_seek fd 0 SEEK_SET v2 = (Inr 0, v3)" "tv.opened_at v3 fd d flags 0 data"
    using tv.vfs_seek_at [of v2 fd d flags "length data" data 0] by auto
  moreover have "vfs_read_sync tmp_fs path v2 = Some data"
    using d(1) w(2,3) f assms(1)
    by (subst vfs_read_sync_root [of _ r])
      (auto simp: at_path_def tmp_data_update tmp_type_data_def tmp_file_def split: if_splits)
  ultimately show ?thesis
    using tv.vfs_read_at [OF v3(2), of "length data"] w(1) by auto
qed


theorem tmpfs_create_write_read_witness:
  "\<exists>fd v1 v2 v3. vfs_open tmp_fs ''/a/b'' (WRONLY OR CREAT OR TRUNC)
     \<lparr>mounts = [(''/home'', 1), (''/'', 0)], fds = [], next_fd = 3,
       fs_state = [new_node DIR 0\<lparr>t_children := [(''a'', 1)]\<rparr>, new_node DIR 0]\<rparr> = (Inr fd, v1)
     \<and> vfs_write tmp_fs fd [1, 2, 3] v1 = (Inr 3, v2)
     \<and> vfs_read_sync tmp_fs ''/a/b'' v2 = Some [1, 2, 3]
     \<and> vfs_seek fd 0 SEEK_SET v2 = (Inr 0, v3)
     \<and> fst (vfs_read tmp_fs fd 3 v3) = Inr [1, 2, 3]"
proof -
  let ?v = "\<lparr>mounts = [(''/home'', 1), (''/'', 0)], fds = [], next_fd = 3,
       fs_state = [new_node DIR 0\<lparr>t_children := [(''a'', 1)]\<rparr>, new_node DIR 0]\<rparr> :: (nat, tmp_heap, nat) VFS"
  have ps: "split_parts (strip slash ''/a/b'') = [''a'', ''b'']"
    by (simp add: split_parts_def strip_def rstrip_def)
  have fl: "WRONLY OR CREAT OR TRUNC = (0x241 :: int)" by (simp add: WRONLY_def CREAT_def TRUNC_def)
  obtain v1 where o: "vfs_open tmp_fs ''/a/b'' (WRONLY OR CREAT OR TRUNC) ?v = (Inr 3, v1)"
    unfolding fl
    by (simp add: vfs_open_def CREAT_def TRUNC_def vfs_resolve_def rel_parts_def norm_path_def ps catch_def bind_def
        on_fs_def tmp_lookup_def open_create_parts new_node_def strip_def rstrip_def split_parts_def tmp_create_def
        alloc_node_def node_update_def tmp_truncate_def slice_def)
  have r: "on_root ''/a/b'' 0 (mounts ?v)"
    by (simp add: on_root_def covers_def norm_path_def strip_def rstrip_def split_parts_def)
  have "tmp_wf (fs_state ?v)" "0 < length (fs_state ?v)" "''.'' \<notin> set (split_parts (strip slash ''/a/b''))"
    by (simp_all add: tmp_wf_def new_node_def split_parts_def strip_def rstrip_def)
  from tmpfs_create_write_read [OF r this _ _ o, of "[1, 2, 3]"] o show ?thesis
    by (simp add: WRONLY_def CREAT_def TRUNC_def)
qed

subsection \<open>The descriptor table\<close>

definition fds_ok :: "('f, 's, 'd) VFS \<Rightarrow> bool" where
  "fds_ok v \<longleftrightarrow> distinct (map fst (fds v)) \<and> (\<forall>(k, d) \<in> set (fds v). 3 \<le> k \<and> k < next_fd v) \<and> 3 \<le> next_fd v"

definition same_fds :: "('f, 's, 'd) VFS \<Rightarrow> ('f, 's, 'd) VFS \<Rightarrow> bool" where
  "same_fds v w \<longleftrightarrow> fds w = fds v \<and> next_fd w = next_fd v \<and> mounts w = mounts v"

lemma same_fds_refl [simp]: "same_fds v v"
  by (simp add: same_fds_def)

lemma same_fds_on_fs: "same_fds v w \<Longrightarrow> wp (on_fs m) (\<lambda>_. same_fds v) (\<lambda>_. same_fds v) w"
  by (simp add: wp_on_fs same_fds_def) (rule wp_TrueI; simp)

lemma same_fds_resolve: "same_fds v w \<Longrightarrow> wp (vfs_resolve ops path) (\<lambda>_. same_fds v) (\<lambda>_. same_fds v) w"
  unfolding vfs_resolve_def
  by (auto simp: wp_bind wp_gets wp_raise same_fds_on_fs split: option.split prod.split)

lemma same_fds_create: "same_fds v w \<Longrightarrow> wp (open_create ops path) (\<lambda>_. same_fds v) (\<lambda>_. same_fds v) w"
  unfolding open_create_def Let_def
  by (auto simp: wp_bind wp_raise intro!: wp_mono [OF same_fds_resolve] same_fds_on_fs)

lemma vfs_open_wp:
  "wp (vfs_open ops path flags)
     (\<lambda>fd w. fd = next_fd v \<and> next_fd w = next_fd v + 1 \<and> mounts w = mounts v \<and>
        (\<exists>d. fds w = AList.update fd \<lparr>fd_node = d, fd_flags = flags, fd_offset = 0\<rparr> (fds v)))
     (\<lambda>_. same_fds v) v"
proof -
  have node: "wp (if flags AND CREAT \<noteq> 0 then open_node ops path else vfs_resolve ops path)
      (\<lambda>_. same_fds v) (\<lambda>_. same_fds v) v"
    by (auto simp: wp_catch intro!: wp_mono [OF same_fds_resolve] same_fds_resolve same_fds_create)
      (auto simp: wp_def raise_def)
  have trunc: "same_fds v w \<Longrightarrow> wp (if flags AND TRUNC \<noteq> 0 then on_fs (n_truncate (nodes ops) d 0) else ret ())
      (\<lambda>_. same_fds v) (\<lambda>_. same_fds v) w" for d w
    by (auto simp: wp_ret same_fds_on_fs)
  show ?thesis
    unfolding vfs_open_def wp_bind
    by (rule wp_mono [OF node]; (rule wp_mono [OF trunc]; (assumption | auto simp: wp_gets wp_modify wp_ret same_fds_def))?)
qed

text \<open>
  C16. Descriptors are fresh and private: in a well-formed table, opening a file hands out a number
  of at least three that no open file has and adds just that entry, with its position at the start,
  an open that fails changes no entry, and the table stays well formed.
\<close>

theorem vfs_open_fresh:
  assumes "fds_ok v"
  shows "case vfs_open ops path flags v of
      (Inr fd, w) \<Rightarrow> 3 \<le> fd \<and> map_of (fds v) fd = None \<and> fds_ok w
        \<and> (\<exists>d. map_of (fds w) = (map_of (fds v))(fd \<mapsto> \<lparr>fd_node = d, fd_flags = flags, fd_offset = 0\<rparr>))
    | (Inl e, w) \<Rightarrow> fds w = fds v \<and> fds_ok w"
proof -
  have new: "map_of (fds v) (next_fd v) = None"
    using assms by (auto simp: fds_ok_def map_of_eq_None_iff)
  have upd: "3 \<le> k \<and> k \<le> next_fd v" if "(k, x) \<in> set (AList.update (next_fd v) y (fds v))" for k x y
    using alist_update_mem [OF that] assms by (auto simp: fds_ok_def)
  show ?thesis
    using vfs_open_wp [of ops path flags v] assms new
    by (auto simp: wp_def fds_ok_def same_fds_def update_conv' distinct_update dest: upd split: prod.splits sum.splits)
qed

theorem vfs_open_fresh_witness:
  "fds_ok (vfs_new [new_node DIR 0] :: (nat, tmp_heap, nat) VFS)
   \<and> vfs_open tmp_fs ''/x'' 0 (vfs_new [new_node DIR 0]) = (Inl FileNotFoundError, vfs_new [new_node DIR 0])
   \<and> fds (snd (vfs_open tmp_fs ''/x'' 0 (vfs_new [new_node DIR 0]))) = []"
proof -
  have ok: "fds_ok (vfs_new [new_node DIR 0] :: (nat, tmp_heap, nat) VFS)" by (simp add: fds_ok_def vfs_new_def)
  have o: "vfs_open tmp_fs ''/x'' 0 (vfs_new [new_node DIR 0]) = (Inl FileNotFoundError, vfs_new [new_node DIR 0])"
    by (simp add: vfs_open_def vfs_resolve_def vfs_new_def bind_def)
  show ?thesis using vfs_open_fresh [OF ok, where ops = tmp_fs and path = "''/x''" and flags = 0] ok o by (simp add: vfs_new_def)
qed

text \<open>
  C17. \<^verbatim>\<open>opened\<close> leaks no descriptor: whatever the path does, and however the body ends, the table
  afterwards is the table before, provided the body itself leaves other descriptors as they are.
\<close>

theorem vfs_opened_no_leak:
  assumes "fds_ok v"
    and body: "\<And>fd w k. k \<noteq> fd \<Longrightarrow> map_of (fds (snd (body fd w))) k = map_of (fds w) k"
  shows "map_of (fds (snd (vfs_opened ops path flags body v))) = map_of (fds v)"
proof -
  have new: "map_of (fds v) (next_fd v) = None"
    using assms(1) by (auto simp: fds_ok_def map_of_eq_None_iff)
  show ?thesis
  proof (cases "vfs_open ops path flags v")
    case (Pair r w)
    show ?thesis
    proof (cases r)
      case (Inl e)
      then show ?thesis using Pair vfs_open_wp [of ops path flags v] by (simp add: wp_def vfs_opened_def bind_def same_fds_def)
    next
      case (Inr fd)
      then obtain d where d: "fd = next_fd v" "fds w = AList.update fd \<lparr>fd_node = d, fd_flags = flags, fd_offset = 0\<rparr> (fds v)"
        using Pair vfs_open_wp [of ops path flags v] by (auto simp: wp_def)
      show ?thesis
      proof
        fix k
        show "map_of (fds (snd (vfs_opened ops path flags body v))) k = map_of (fds v) k"
          using Pair Inr d new body [of k fd w]
          by (cases "k = fd") (auto simp: vfs_opened_def bind_def vfs_close_def modify_def delete_conv' update_conv'
              split: prod.splits)
      qed
    qed
  qed
qed

theorem vfs_opened_no_leak_witness:
  "fds_ok (vfs_new [new_node FILE 0] :: (nat, tmp_heap, nat) VFS)
   \<and> map_of (fds (snd (vfs_opened tmp_fs ''/'' 0 (\<lambda>fd. vfs_read tmp_fs fd 4)
        (snd (vfs_mount ''/'' 0 (vfs_new [new_node FILE 0])))))) = Map.empty"
proof -
  let ?v = "snd (vfs_mount ''/'' 0 (vfs_new [new_node FILE 0])) :: (nat, tmp_heap, nat) VFS"
  have ok: "fds_ok ?v" by (simp add: fds_ok_def vfs_new_def vfs_mount_def Let_def)
  have body: "k \<noteq> fd \<Longrightarrow> map_of (fds (snd (vfs_read tmp_fs fd 4 w))) k = map_of (fds w) k" for fd k and w :: "(nat, tmp_heap, nat) VFS"
    by (auto simp: vfs_read_def get_desc_def set_offset_def on_fs_def bind_def split: option.split prod.split sum.split)
  show ?thesis
    using vfs_opened_no_leak [of ?v "\<lambda>fd. vfs_read tmp_fs fd 4", OF ok body, where ops = tmp_fs and path = "''/''" and flags = 0]
    by (simp add: fds_ok_def vfs_new_def vfs_mount_def Let_def)
qed

subsection \<open>Listings\<close>

text \<open>A filesystem mounted at \<open>mp\<close> shows up in the listing of \<open>norm\<close> as \<open>c\<close>.\<close>

definition surfaces :: "string \<Rightarrow> string \<Rightarrow> string \<Rightarrow> bool" where
  "surfaces norm mp c \<longleftrightarrow> mp \<noteq> ''/'' \<and> slash \<notin> set c \<and> mp = child_prefix norm @ c"

lemma surfaces_drop:
  "surfaces norm mp c \<longleftrightarrow> \<not> (mp = ''/'' \<or> mp = norm \<or> \<not> starts_with mp (child_prefix norm)
     \<or> slash \<in> set (drop (length (child_prefix norm)) mp)) \<and> c = drop (length (child_prefix norm)) mp"
proof -
  have "child_prefix norm @ d = norm \<Longrightarrow> norm = ''/''" for d
    by (cases "norm = ''/''") (auto simp: child_prefix_def)
  then show ?thesis unfolding surfaces_def starts_with_iff by (metis append_eq_conv_conj)
qed

lemma add_mount_names_mem:
  "c \<in> set (add_mount_names norm ms es) \<longleftrightarrow> c \<in> set es \<or> (\<exists>mp \<in> fst ` set ms. surfaces norm mp c)"
proof (induction norm ms es rule: add_mount_names.induct)
  case (2 norm mp fs ms es)
  show ?case
    unfolding add_mount_names.simps Let_def 2 [OF refl refl] list.set image_insert fst_conv bex_simps surfaces_drop
    by (cases "drop (length (child_prefix norm)) mp \<in> set es") auto
qed simp

lemma add_mount_names_distinct: "distinct es \<Longrightarrow> distinct (add_mount_names norm ms es)"
  by (induction norm ms es rule: add_mount_names.induct) (auto simp: Let_def)

text \<open>
  C18. A directory listing crosses mount boundaries: it has exactly the names the directory's own
  filesystem lists and the names under which a filesystem is mounted directly below the directory,
  each once.
\<close>

theorem vfs_readdir_mounts:
  assumes "vfs_resolve ops path v = (Inr d, w)" "n_readdir (nodes ops) d (fs_state w) = (Inr es, s)"
  shows "\<exists>names. vfs_readdir ops path v = (Inr names, w\<lparr>fs_state := s\<rparr>)
    \<and> set names = set es \<union> {c. \<exists>mp \<in> fst ` set (mounts w). surfaces (norm_path path) mp c}
    \<and> (distinct es \<longrightarrow> distinct names)"
  using assms
  by (simp add: vfs_readdir_def bind_def on_fs_def add_mount_names_distinct set_eq_iff add_mount_names_mem)

theorem vfs_readdir_mounts_witness:
  "fst (vfs_readdir tmp_fs ''/'' (snd (vfs_mount ''/home'' 1 (snd (vfs_mount ''/'' 0
      (vfs_new [new_node DIR 0, new_node DIR 0])))))) = Inr [''.'', ''..'', ''home'']
   \<and> (\<exists>names. fst (vfs_readdir tmp_fs ''/'' (snd (vfs_mount ''/home'' 1 (snd (vfs_mount ''/'' 0
      (vfs_new [new_node DIR 0, new_node DIR 0])))))) = Inr names \<and> distinct names)"
proof -
  let ?v = "snd (vfs_mount ''/home'' 1 (snd (vfs_mount ''/'' 0 (vfs_new [new_node DIR 0, new_node DIR 0])))) :: (nat, tmp_heap, nat) VFS"
  have v: "?v = \<lparr>mounts = [(''/home'', 1), (''/'', 0)], fds = [], next_fd = 3, fs_state = [new_node DIR 0, new_node DIR 0]\<rparr>"
    by (simp add: vfs_mount_def vfs_new_def Let_def norm_mount_def rstrip_def)
  have r: "vfs_resolve tmp_fs ''/'' ?v = (Inr 0, ?v)"
    unfolding v by (simp add: vfs_resolve_def rel_parts_def norm_path_def strip_def rstrip_def on_fs_def split_parts_def)
  have e: "n_readdir (nodes tmp_fs) 0 (fs_state ?v) = (Inr [''.'', ''..''], fs_state ?v)"
    unfolding v by (simp add: tmp_ops_def tmp_readdir_def new_node_def)
  have "fst (vfs_readdir tmp_fs ''/'' ?v) = Inr [''.'', ''..'', ''home'']"
    unfolding vfs_readdir_def bind_def r on_fs_def using e
    unfolding v by (simp add: norm_path_def strip_def rstrip_def child_prefix_def)
  then show ?thesis using vfs_readdir_mounts [OF r e] by auto
qed

end
