(* ===== verification/Ext2Disk.thy ===== *)
theory Ext2Disk
  imports Tmpfs
begin

section \<open>ext2: device, superblock, blocks, bitmaps and inodes\<close>

text \<open>
  The lower half of \<^verbatim>\<open>kernel/fs/ext2.py\<close>: the file-backed block device, the superblock and
  the group descriptors, the block cache, the bitmap allocators and the inode table. The state is
  one record; calls run to completion. A buffer that \<^verbatim>\<open>_read_block\<close> returns is the cached
  one, so changing it in place is an update of the cache (\<open>poke\<close>) that precedes the write.
\<close>

unbundle bit_operations_syntax

subsection \<open>Constants\<close>

definition EXT2_SUPER_MAGIC :: int where "EXT2_SUPER_MAGIC = 0xEF53"
definition EXT2_ROOT_INO :: int where "EXT2_ROOT_INO = 2"
definition EXT2_S_IFLNK :: int where "EXT2_S_IFLNK = 0xA000"
definition EXT2_S_IFREG :: int where "EXT2_S_IFREG = 0x8000"
definition EXT2_S_IFBLK :: int where "EXT2_S_IFBLK = 0x6000"
definition EXT2_S_IFDIR :: int where "EXT2_S_IFDIR = 0x4000"
definition EXT2_S_IFCHR :: int where "EXT2_S_IFCHR = 0x2000"
definition EXT2_S_IFIFO :: int where "EXT2_S_IFIFO = 0x1000"
definition EXT2_S_IFMT :: int where "EXT2_S_IFMT = 0xF000"
definition EXT2_FT_REG_FILE :: int where "EXT2_FT_REG_FILE = 1"
definition EXT2_FT_DIR :: int where "EXT2_FT_DIR = 2"
definition EXT2_FT_SYMLINK :: int where "EXT2_FT_SYMLINK = 7"
definition EXT2_FEATURE_INCOMPAT_SUPPORTED :: int where "EXT2_FEATURE_INCOMPAT_SUPPORTED = 0x0002"
definition EXT2_FEATURE_RO_COMPAT_SUPPORTED :: int where
  "EXT2_FEATURE_RO_COMPAT_SUPPORTED = 0x0001 OR 0x0002 OR 0x0004"
definition EXT2_NDIR_BLOCKS :: int where "EXT2_NDIR_BLOCKS = 12"
definition EXT2_IND_BLOCK :: int where "EXT2_IND_BLOCK = EXT2_NDIR_BLOCKS"
definition EXT2_DIND_BLOCK :: int where "EXT2_DIND_BLOCK = EXT2_IND_BLOCK + 1"
definition SECTOR_SIZE :: nat where "SECTOR_SIZE = 512"
definition BGD_SIZE :: int where "BGD_SIZE = 32"

subsection \<open>State\<close>

record FileBlockDevice =
  d_sectors :: "byte list list"
  d_readonly :: bool

record Superblock =
  inodes_count :: int
  blocks_count :: int
  free_blocks_count :: int
  free_inodes_count :: int
  first_data_block :: int
  log_block_size :: int
  blocks_per_group :: int
  inodes_per_group :: int
  rev_level :: int
  first_ino :: int
  inode_size :: int
  feature_compat :: int
  feature_incompat :: int
  feature_ro_compat :: int
  sb_raw :: "byte list"

record Ext2FS =
  x_dev :: FileBlockDevice
  x_sb :: Superblock
  x_block_size :: int
  x_sectors_per_block :: int
  x_bgdt :: "byte list list"
  x_bgdt_block :: int
  x_cache :: "int \<rightharpoonup> byte list"

type_synonym 'a ext2 = "(Ext2FS, 'a) io"

subsection \<open>The device\<close>

fun sectors_of :: "nat \<Rightarrow> byte list \<Rightarrow> byte list list" where
  "sectors_of 0 img = []"
| "sectors_of (Suc n) img = take SECTOR_SIZE img # sectors_of n (drop SECTOR_SIZE img)"

definition file_block_device :: "byte list \<Rightarrow> bool \<Rightarrow> FileBlockDevice res" where
  "file_block_device img readonly =
     (if length img mod SECTOR_SIZE \<noteq> 0 then Inl ValueError
      else Inr \<lparr>d_sectors = sectors_of (length img div SECTOR_SIZE) img, d_readonly = readonly\<rparr>)"

definition num_sectors :: "FileBlockDevice \<Rightarrow> int" where
  "num_sectors d = int (length (d_sectors d))"

definition read_sector :: "int \<Rightarrow> byte list ext2" where
  "read_sector lba = bind (gets x_dev) (\<lambda>d.
     if lba < 0 \<or> lba \<ge> num_sectors d then raise IndexError else ret (d_sectors d ! nat lba))"

definition write_sector :: "int \<Rightarrow> byte list \<Rightarrow> unit ext2" where
  "write_sector lba data = bind (gets x_dev) (\<lambda>d.
     if length data \<noteq> SECTOR_SIZE then raise ValueError
     else if lba < 0 \<or> lba \<ge> num_sectors d then raise IndexError
     else if d_readonly d then raise OSError
     else modify (\<lambda>s. s\<lparr>x_dev := d\<lparr>d_sectors := (d_sectors d)[nat lba := data]\<rparr>\<rparr>))"

subsection \<open>The superblock\<close>

abbreviation u :: "nat \<Rightarrow> byte list \<Rightarrow> int \<Rightarrow> ('s, int) io" where
  "u n blob off \<equiv> lift_res (unpack_le_from n blob off)"

definition sb_parse :: "byte list \<Rightarrow> ('s, Superblock) io" where
  "sb_parse blob =
     bind (u 4 blob 0) (\<lambda>inodes.
     bind (u 4 blob 4) (\<lambda>blocks.
     bind (u 4 blob 12) (\<lambda>free_blocks.
     bind (u 4 blob 16) (\<lambda>free_inodes.
     bind (u 4 blob 20) (\<lambda>first_data.
     bind (u 4 blob 24) (\<lambda>log_bs.
     bind (u 4 blob 32) (\<lambda>bpg.
     bind (u 4 blob 40) (\<lambda>ipg.
     bind (u 2 blob 56) (\<lambda>magic.
     if magic \<noteq> EXT2_SUPER_MAGIC then raise ValueError else
     bind (u 4 blob 76) (\<lambda>rev.
     bind (if rev \<ge> 1 then u 4 blob 84 else ret 11) (\<lambda>fino.
     bind (if rev \<ge> 1 then u 2 blob 88 else ret 128) (\<lambda>isize.
     bind (if rev \<ge> 1 then u 4 blob 92 else ret 0) (\<lambda>compat.
     bind (if rev \<ge> 1 then u 4 blob 96 else ret 0) (\<lambda>incompat.
     bind (if rev \<ge> 1 then u 4 blob 100 else ret 0) (\<lambda>ro_compat.
     ret \<lparr>inodes_count = inodes, blocks_count = blocks, free_blocks_count = free_blocks,
          free_inodes_count = free_inodes, first_data_block = first_data, log_block_size = log_bs,
          blocks_per_group = bpg, inodes_per_group = ipg, rev_level = rev, first_ino = fino,
          inode_size = isize, feature_compat = compat, feature_incompat = incompat,
          feature_ro_compat = ro_compat, sb_raw = blob\<rparr>)))))))))))))))"

definition sb_block_size :: "Superblock \<Rightarrow> int" where
  "sb_block_size sb = push_bit (nat (log_block_size sb)) 1024"

definition py_div :: "int \<Rightarrow> int \<Rightarrow> int res" where
  "py_div a b = (if b = 0 then Inl ZeroDivisionError else Inr (a div b))"

definition num_groups :: "Superblock \<Rightarrow> int res" where
  "num_groups sb = py_div (blocks_count sb - first_data_block sb + blocks_per_group sb - 1) (blocks_per_group sb)"

definition set_raw :: "int \<Rightarrow> (Superblock \<Rightarrow> int) \<Rightarrow> unit ext2" where
  "set_raw off f = bind (gets x_sb) (\<lambda>sb. bind (lift_res (pack_le_into 4 (sb_raw sb) off (f sb))) (\<lambda>raw.
     modify (\<lambda>s. s\<lparr>x_sb := x_sb s\<lparr>sb_raw := raw\<rparr>\<rparr>)))"

definition serialize_counters :: "unit ext2" where
  "serialize_counters = bind (set_raw 12 free_blocks_count) (\<lambda>_. set_raw 16 free_inodes_count)"

definition read_superblock :: "unit ext2" where
  "read_superblock =
     bind (read_sector 2) (\<lambda>sec0.
     bind (read_sector 3) (\<lambda>sec1.
     bind (sb_parse (sec0 @ sec1)) (\<lambda>sb.
     bind (modify (\<lambda>s. s\<lparr>x_sb := sb\<rparr>)) (\<lambda>_.
     if feature_incompat sb AND NOT EXT2_FEATURE_INCOMPAT_SUPPORTED \<noteq> 0 then raise NotImplementedError
     else if feature_ro_compat sb AND NOT EXT2_FEATURE_RO_COMPAT_SUPPORTED \<noteq> 0 then raise NotImplementedError
     else let bs = sb_block_size sb in
       bind (modify (\<lambda>s. s\<lparr>x_block_size := bs\<rparr>)) (\<lambda>_.
       if bs < int SECTOR_SIZE \<or> bs mod int SECTOR_SIZE \<noteq> 0 then raise ValueError
       else modify (\<lambda>s. s\<lparr>x_sectors_per_block := bs div int SECTOR_SIZE\<rparr>))))))"

subsection \<open>Blocks\<close>

definition cache_put :: "int \<Rightarrow> byte list \<Rightarrow> unit ext2" where
  "cache_put b blk = modify (\<lambda>s. s\<lparr>x_cache := (x_cache s)(b \<mapsto> blk)\<rparr>)"

definition read_block :: "int \<Rightarrow> byte list ext2" where
  "read_block b =
     bind (gets (\<lambda>s. x_cache s b)) (\<lambda>c. case c of Some blk \<Rightarrow> ret blk | None \<Rightarrow>
       bind (gets x_sectors_per_block) (\<lambda>spb.
       bind (map_io (\<lambda>i. read_sector (b * spb + i)) [0..spb - 1]) (\<lambda>sectors.
       bind (cache_put b (concat sectors)) (\<lambda>_.
       ret (concat sectors)))))"

definition write_block :: "int \<Rightarrow> byte list \<Rightarrow> unit ext2" where
  "write_block b data =
     bind (gets x_block_size) (\<lambda>bs.
     bind (gets x_sectors_per_block) (\<lambda>spb.
     if int (length data) \<noteq> bs then raise ValueError
     else bind (for_each [0..spb - 1] (\<lambda>i.
                  write_sector (b * spb + i) (slice data (i * int SECTOR_SIZE) ((i + 1) * int SECTOR_SIZE)))) (\<lambda>_.
          cache_put b data)))"

text \<open>In-place changes of the cached buffer, and the write that follows them.\<close>

abbreviation poke :: "int \<Rightarrow> byte list \<Rightarrow> unit ext2" where
  "poke b blk \<equiv> cache_put b blk"

definition store_block :: "int \<Rightarrow> byte list \<Rightarrow> unit ext2" where
  "store_block b blk = bind (poke b blk) (\<lambda>_. write_block b blk)"

definition zero_block :: "byte list ext2" where
  "zero_block = gets (\<lambda>s. replicate (nat (x_block_size s)) 0)"

subsection \<open>Group descriptors\<close>

definition read_bgdt :: "unit ext2" where
  "read_bgdt =
     bind (gets x_sb) (\<lambda>sb.
     bind (gets x_block_size) (\<lambda>bs.
     let bgdt_block = (if bs = 1024 then first_data_block sb + 1 else 1) in
     bind (lift_res (num_groups sb)) (\<lambda>ngroups.
     bind (read_block bgdt_block) (\<lambda>bgdt_bytes.
     let total = ngroups * BGD_SIZE; rounds = (total - 1) div bs in
     bind (fold_io (\<lambda>_ extra. bind (read_block (bgdt_block + int (length extra) div bs + 1)) (\<lambda>blk. ret (extra @ blk)))
             [1..rounds] []) (\<lambda>extra.
     let full = bgdt_bytes @ extra in
     modify (\<lambda>s. s\<lparr>x_bgdt := map (\<lambda>i. slice full (i * BGD_SIZE) ((i + 1) * BGD_SIZE)) [0..ngroups - 1],
       x_bgdt_block := bgdt_block\<rparr>))))))"

definition ext2_new :: "FileBlockDevice \<Rightarrow> Ext2FS" where
  "ext2_new dev = \<lparr>x_dev = dev, x_sb = \<lparr>inodes_count = 0, blocks_count = 0, free_blocks_count = 0,
     free_inodes_count = 0, first_data_block = 0, log_block_size = 0, blocks_per_group = 0,
     inodes_per_group = 0, rev_level = 0, first_ino = 0, inode_size = 0, feature_compat = 0,
     feature_incompat = 0, feature_ro_compat = 0, sb_raw = []\<rparr>, x_block_size = 0,
     x_sectors_per_block = 0, x_bgdt = [], x_bgdt_block = 0, x_cache = Map.empty\<rparr>"

definition ext2_mount :: "FileBlockDevice \<Rightarrow> unit res \<times> Ext2FS" where
  "ext2_mount dev = bind read_superblock (\<lambda>_. read_bgdt) (ext2_new dev)"

record bgd =
  g_block_bitmap :: int
  g_inode_bitmap :: int
  g_inode_table :: int
  g_free_blocks :: int
  g_free_inodes :: int
  g_used_dirs :: int

definition bgd_get :: "int \<Rightarrow> bgd ext2" where
  "bgd_get g =
     bind (gets x_bgdt) (\<lambda>t.
     bind (lift_res (py_nth t g)) (\<lambda>d.
     bind (u 4 d 0) (\<lambda>bb. bind (u 4 d 4) (\<lambda>ib. bind (u 4 d 8) (\<lambda>it.
     bind (u 2 d 12) (\<lambda>fb. bind (u 2 d 14) (\<lambda>fi. bind (u 2 d 16) (\<lambda>ud.
     ret \<lparr>g_block_bitmap = bb, g_inode_bitmap = ib, g_inode_table = it, g_free_blocks = fb,
          g_free_inodes = fi, g_used_dirs = ud\<rparr>))))))))"

text \<open>\<open>struct.pack_into\<close> with several fields packs all or raises without touching the buffer.\<close>

fun pack_fields_into :: "byte list \<Rightarrow> int \<Rightarrow> (nat \<times> int) list \<Rightarrow> byte list res" where
  "pack_fields_into bs off [] = Inr bs"
| "pack_fields_into bs off ((n, v) # fs) =
     (case pack_le_into n bs off v of Inl e \<Rightarrow> Inl e | Inr bs' \<Rightarrow> pack_fields_into bs' (off + int n) fs)"

definition bgd_set_counters :: "int \<Rightarrow> int \<Rightarrow> int \<Rightarrow> int \<Rightarrow> unit ext2" where
  "bgd_set_counters g free_blocks free_inodes used_dirs =
     bind (gets x_bgdt) (\<lambda>t.
     bind (lift_res (py_nth t g)) (\<lambda>d.
     bind (lift_res (pack_fields_into d 12 [(2, free_blocks), (2, free_inodes), (2, used_dirs)])) (\<lambda>d'.
     bind (lift_res (py_set t g d')) (\<lambda>t'.
     modify (\<lambda>s. s\<lparr>x_bgdt := t'\<rparr>)))))"

definition flush_bgdt :: "unit ext2" where
  "flush_bgdt =
     bind (gets x_bgdt) (\<lambda>t. bind (gets x_block_size) (\<lambda>bs. bind (gets x_bgdt_block) (\<lambda>b0.
     let full = concat t; nblocks = (int (length full) + bs - 1) div bs in
     for_each [0..nblocks - 1] (\<lambda>bi.
       let chunk = slice full (bi * bs) ((bi + 1) * bs) in
       write_block (b0 + bi) (chunk @ replicate (nat (bs - int (length chunk))) 0)))))"

definition flush_superblock :: "unit ext2" where
  "flush_superblock =
     bind serialize_counters (\<lambda>_.
     bind (gets (\<lambda>s. sb_raw (x_sb s))) (\<lambda>raw.
     bind (write_sector 2 (slice raw 0 512)) (\<lambda>_.
     write_sector 3 (slice raw 512 1024))))"

subsection \<open>Bitmaps\<close>

fun scan_bits :: "int \<Rightarrow> int \<Rightarrow> byte \<Rightarrow> nat list \<Rightarrow> nat option" where
  "scan_bits cnt byte_i b [] = None"
| "scan_bits cnt byte_i b (k # ks) =
     (if byte_i * 8 + int k \<ge> cnt then None
      else if b AND push_bit k 1 = 0 then Some k
      else scan_bits cnt byte_i b ks)"

fun scan_bytes :: "byte list \<Rightarrow> int \<Rightarrow> int list \<Rightarrow> (int \<times> nat) option res" where
  "scan_bytes bm cnt [] = Inr None"
| "scan_bytes bm cnt (i # is) =
     (case py_nth bm i of Inl e \<Rightarrow> Inl e | Inr b \<Rightarrow>
        if b = 0xFF then scan_bytes bm cnt is
        else case scan_bits cnt i b [0..<8] of
               None \<Rightarrow> scan_bytes bm cnt is
             | Some k \<Rightarrow> Inr (Some (i, k)))"

definition alloc_in_bitmap :: "int \<Rightarrow> int \<Rightarrow> int ext2" where
  "alloc_in_bitmap bitmap_block cnt =
     bind (read_block bitmap_block) (\<lambda>bm.
     bind (lift_res (scan_bytes bm cnt [0..(cnt + 7) div 8 - 1])) (\<lambda>r. case r of
       None \<Rightarrow> raise OSError
     | Some (i, k) \<Rightarrow>
         bind (store_block bitmap_block (bm[nat i := (bm ! nat i) OR push_bit k 1])) (\<lambda>_.
         ret (i * 8 + int k))))"

definition free_in_bitmap :: "int \<Rightarrow> int \<Rightarrow> unit ext2" where
  "free_in_bitmap bitmap_block idx =
     bind (read_block bitmap_block) (\<lambda>bm.
     let byte_i = idx div 8; k = nat (idx mod 8) in
     bind (lift_res (py_nth bm byte_i)) (\<lambda>b.
     if b AND push_bit k 1 = 0 then ret ()
     else bind (lift_res (py_set bm byte_i (b AND NOT (push_bit k 1)))) (\<lambda>bm'.
          store_block bitmap_block bm')))"

subsection \<open>Allocation\<close>

definition add_free_blocks :: "int \<Rightarrow> unit ext2" where
  "add_free_blocks k = modify (\<lambda>s. s\<lparr>x_sb := x_sb s\<lparr>free_blocks_count := free_blocks_count (x_sb s) + k\<rparr>\<rparr>)"

definition add_free_inodes :: "int \<Rightarrow> unit ext2" where
  "add_free_inodes k = modify (\<lambda>s. s\<lparr>x_sb := x_sb s\<lparr>free_inodes_count := free_inodes_count (x_sb s) + k\<rparr>\<rparr>)"

fun alloc_block_from :: "Superblock \<Rightarrow> int \<Rightarrow> int list \<Rightarrow> int ext2" where
  "alloc_block_from sb n [] = raise OSError"
| "alloc_block_from sb n (g # gs) =
     bind (bgd_get g) (\<lambda>d.
     if g_free_blocks d = 0 then alloc_block_from sb n gs
     else let group_blocks = (if g = n - 1 then blocks_count sb - (first_data_block sb + g * blocks_per_group sb)
                              else blocks_per_group sb) in
       bind (alloc_in_bitmap (g_block_bitmap d) group_blocks) (\<lambda>local.
       bind (bgd_set_counters g (g_free_blocks d - 1) (g_free_inodes d) (g_used_dirs d)) (\<lambda>_.
       bind (add_free_blocks (- 1)) (\<lambda>_.
       bind flush_bgdt (\<lambda>_.
       bind flush_superblock (\<lambda>_.
       ret (first_data_block sb + g * blocks_per_group sb + local)))))))"

definition alloc_block :: "int ext2" where
  "alloc_block = bind (gets x_sb) (\<lambda>sb. bind (lift_res (num_groups sb)) (\<lambda>n. alloc_block_from sb n [0..n - 1]))"

definition free_block :: "int \<Rightarrow> unit ext2" where
  "free_block block_no =
     bind (gets x_sb) (\<lambda>sb.
     let rel = block_no - first_data_block sb in
     bind (lift_res (py_div rel (blocks_per_group sb))) (\<lambda>g.
     let local = rel mod blocks_per_group sb in
     bind (bgd_get g) (\<lambda>d.
     bind (free_in_bitmap (g_block_bitmap d) local) (\<lambda>_.
     bind (bgd_set_counters g (g_free_blocks d + 1) (g_free_inodes d) (g_used_dirs d)) (\<lambda>_.
     bind (add_free_blocks 1) (\<lambda>_.
     bind flush_bgdt (\<lambda>_.
     flush_superblock)))))))"

fun alloc_inode_from :: "Superblock \<Rightarrow> bool \<Rightarrow> int list \<Rightarrow> int ext2" where
  "alloc_inode_from sb is_dir [] = raise OSError"
| "alloc_inode_from sb is_dir (g # gs) =
     bind (bgd_get g) (\<lambda>d.
     if g_free_inodes d = 0 then alloc_inode_from sb is_dir gs
     else
       bind (alloc_in_bitmap (g_inode_bitmap d) (inodes_per_group sb)) (\<lambda>local.
       bind (bgd_set_counters g (g_free_blocks d) (g_free_inodes d - 1)
               (if is_dir then g_used_dirs d + 1 else g_used_dirs d)) (\<lambda>_.
       bind (add_free_inodes (- 1)) (\<lambda>_.
       bind flush_bgdt (\<lambda>_.
       bind flush_superblock (\<lambda>_.
       ret (g * inodes_per_group sb + local + 1)))))))"

definition alloc_inode :: "bool \<Rightarrow> int ext2" where
  "alloc_inode is_dir = bind (gets x_sb) (\<lambda>sb. bind (lift_res (num_groups sb)) (\<lambda>n. alloc_inode_from sb is_dir [0..n - 1]))"

definition free_inode :: "int \<Rightarrow> bool \<Rightarrow> unit ext2" where
  "free_inode ino was_dir =
     bind (gets x_sb) (\<lambda>sb.
     bind (lift_res (py_div (ino - 1) (inodes_per_group sb))) (\<lambda>g.
     let local = (ino - 1) mod inodes_per_group sb in
     bind (bgd_get g) (\<lambda>d.
     bind (free_in_bitmap (g_inode_bitmap d) local) (\<lambda>_.
     bind (bgd_set_counters g (g_free_blocks d) (g_free_inodes d + 1)
             (if was_dir then g_used_dirs d - 1 else g_used_dirs d)) (\<lambda>_.
     bind (add_free_inodes 1) (\<lambda>_.
     bind flush_bgdt (\<lambda>_.
     flush_superblock)))))))"

subsection \<open>Inodes\<close>

definition inode_location :: "int \<Rightarrow> (int \<times> int) ext2" where
  "inode_location ino =
     bind (gets x_sb) (\<lambda>sb. bind (gets x_block_size) (\<lambda>bs.
     bind (lift_res (py_div (ino - 1) (inodes_per_group sb))) (\<lambda>g.
     let local = (ino - 1) mod inodes_per_group sb in
     bind (bgd_get g) (\<lambda>d.
     let byte_off = local * inode_size sb in
     ret (g_inode_table d + byte_off div bs, byte_off mod bs)))))"

definition read_inode :: "int \<Rightarrow> byte list ext2" where
  "read_inode ino =
     bind (inode_location ino) (\<lambda>(block, off).
     bind (read_block block) (\<lambda>buf.
     gets (\<lambda>s. slice buf off (off + inode_size (x_sb s)))))"

definition write_inode :: "int \<Rightarrow> byte list \<Rightarrow> unit ext2" where
  "write_inode ino raw =
     bind (gets (\<lambda>s. inode_size (x_sb s))) (\<lambda>n.
     if int (length raw) \<noteq> n then raise ValueError
     else bind (inode_location ino) (\<lambda>(block, off).
          bind (read_block block) (\<lambda>buf.
          store_block block (slice_assign buf off (off + n) raw))))"

definition i_mode :: "byte list \<Rightarrow> int res" where "i_mode raw = unpack_le_from 2 raw 0"
definition i_size :: "byte list \<Rightarrow> int res" where "i_size raw = unpack_le_from 4 raw 4"
definition i_links :: "byte list \<Rightarrow> int res" where "i_links raw = unpack_le_from 2 raw 26"
definition i_blocks :: "byte list \<Rightarrow> int res" where "i_blocks raw = unpack_le_from 4 raw 28"
definition i_block_n :: "byte list \<Rightarrow> int \<Rightarrow> int res" where "i_block_n raw n = unpack_le_from 4 raw (40 + n * 4)"
definition set_i_block_n :: "byte list \<Rightarrow> int \<Rightarrow> int \<Rightarrow> byte list res" where
  "set_i_block_n raw n v = pack_le_into 4 raw (40 + n * 4) v"
definition set_i_mode :: "byte list \<Rightarrow> int \<Rightarrow> byte list res" where "set_i_mode raw mode = pack_le_into 2 raw 0 mode"
definition set_i_size :: "byte list \<Rightarrow> int \<Rightarrow> byte list res" where
  "set_i_size raw n = pack_le_into 4 raw 4 (n AND 0xFFFFFFFF)"
definition set_i_links :: "byte list \<Rightarrow> int \<Rightarrow> byte list res" where "set_i_links raw n = pack_le_into 2 raw 26 n"
definition set_i_blocks :: "byte list \<Rightarrow> int \<Rightarrow> byte list res" where "set_i_blocks raw n = pack_le_into 4 raw 28 n"
definition set_i_mtime :: "byte list \<Rightarrow> int \<Rightarrow> byte list res" where "set_i_mtime raw t = pack_le_into 4 raw 16 t"
definition set_i_ctime :: "byte list \<Rightarrow> int \<Rightarrow> byte list res" where "set_i_ctime raw t = pack_le_into 4 raw 12 t"
definition set_i_atime :: "byte list \<Rightarrow> int \<Rightarrow> byte list res" where "set_i_atime raw t = pack_le_into 4 raw 8 t"

subsection \<open>Blocks on the device\<close>

abbreviation sectors :: "Ext2FS \<Rightarrow> byte list list" where
  "sectors s \<equiv> d_sectors (x_dev s)"

definition geo :: "Ext2FS \<Rightarrow> bool" where
  "geo s \<longleftrightarrow> 0 < x_sectors_per_block s \<and> x_block_size s = x_sectors_per_block s * 512
     \<and> (\<forall>sec \<in> set (sectors s). length sec = 512)"

definition valid_block :: "Ext2FS \<Rightarrow> int \<Rightarrow> bool" where
  "valid_block s b \<longleftrightarrow> 0 \<le> b \<and> (b + 1) * x_sectors_per_block s \<le> num_sectors (x_dev s)"

definition blk_at :: "Ext2FS \<Rightarrow> int \<Rightarrow> byte list" where
  "blk_at s b = concat (map (\<lambda>i. sectors s ! nat (b * x_sectors_per_block s + i)) [0..x_sectors_per_block s - 1])"

lemma upto_map_nat: "[0..int k - 1] = map int [0..<k]"
proof (induction k)
  case (Suc k)
  have "[0..int (Suc k) - 1] = [0..int k - 1] @ [int k]" by (simp add: upto_rec2)
  then show ?case using Suc by simp
qed simp

lemma length_concat_same: "(\<And>x. x \<in> set xs \<Longrightarrow> length (f x) = n) \<Longrightarrow> length (concat (map f xs)) = length xs * n"
  by (induction xs) auto

lemma sector_index:
  assumes "valid_block s b" "0 \<le> i" "i < x_sectors_per_block s"
  shows "0 \<le> b * x_sectors_per_block s + i" "b * x_sectors_per_block s + i < num_sectors (x_dev s)"
proof -
  have "(b + 1) * x_sectors_per_block s = b * x_sectors_per_block s + x_sectors_per_block s"
    by (simp add: distrib_right)
  moreover have "0 \<le> b * x_sectors_per_block s" using assms by (simp add: valid_block_def)
  ultimately show "0 \<le> b * x_sectors_per_block s + i" "b * x_sectors_per_block s + i < num_sectors (x_dev s)"
    using assms by (auto simp: valid_block_def)
qed

lemma length_blk_at:
  assumes "geo s" "valid_block s b"
  shows "int (length (blk_at s b)) = x_block_size s"
proof -
  have "length (sectors s ! nat (b * x_sectors_per_block s + i)) = 512" if "i \<in> set [0..x_sectors_per_block s - 1]" for i
  proof -
    have "nat (b * x_sectors_per_block s + i) < length (sectors s)"
      using sector_index [OF assms(2), of i] that by (simp add: num_sectors_def)
    then show ?thesis using assms(1) nth_mem by (auto simp: geo_def)
  qed
  then have "length (blk_at s b) = length [0..x_sectors_per_block s - 1] * 512"
    unfolding blk_at_def by (rule length_concat_same)
  then show ?thesis using assms(1) by (simp add: geo_def)
qed

lemma concat_slices:
  assumes "length data = k * 512"
  shows "concat (map (\<lambda>i. slice data (i * 512) ((i + 1) * 512)) [0..int k - 1]) = data"
proof -
  have "concat (map (\<lambda>i. slice data (int i * 512) ((int i + 1) * 512)) [0..<j]) = take (j * 512) data" if "j \<le> k" for j
    using that
  proof (induction j)
    case (Suc j)
    have "slice data (int j * 512) ((int j + 1) * 512) = take 512 (drop (j * 512) data)"
      by (simp add: slice_nat nat_add_distrib nat_mult_distrib distrib_right)
    then show ?case using Suc take_add [of "j * 512" 512 data] by (simp add: add.commute)
  qed simp
  from this [of k] show ?thesis using assms by (simp add: upto_map_nat comp_def)
qed

lemma map_io_read_sector:
  assumes "map_io (\<lambda>i. read_sector (f i)) is s = (Inr secs, t)"
  shows "t = s \<and> (\<forall>i \<in> set is. 0 \<le> f i \<and> f i < num_sectors (x_dev s)) \<and> secs = map (\<lambda>i. sectors s ! nat (f i)) is"
  using assms
proof (induction "is" arbitrary: secs t)
  case (Cons i "is")
  then show ?case by (auto simp: read_sector_def elim!: bind_eq_InrE split: if_splits)
qed simp

lemma map_io_read_sector_ok:
  "\<forall>i \<in> set is. 0 \<le> f i \<and> f i < num_sectors (x_dev s) \<Longrightarrow>
     map_io (\<lambda>i. read_sector (f i)) is s = (Inr (map (\<lambda>i. sectors s ! nat (f i)) is), s)"
  by (induction "is") (auto simp: read_sector_def bind_def)

lemma read_block_miss:
  assumes "geo s" "x_cache s b = None" "read_block b s = (Inr blk, t)"
  shows "valid_block s b \<and> blk = blk_at s b \<and> t = s\<lparr>x_cache := (x_cache s)(b \<mapsto> blk_at s b)\<rparr>"
proof -
  let ?n = "x_sectors_per_block s"
  obtain secs s' where m: "map_io (\<lambda>i. read_sector (b * ?n + i)) [0..?n - 1] s = (Inr secs, s')"
    "blk = concat secs" "t = s'\<lparr>x_cache := (x_cache s')(b \<mapsto> concat secs)\<rparr>"
    using assms(2,3) by (auto simp: read_block_def cache_put_def elim!: bind_eq_InrE)
  have r: "s' = s" "\<forall>i \<in> set [0..?n - 1]. 0 \<le> b * ?n + i \<and> b * ?n + i < num_sectors (x_dev s)" "concat secs = blk_at s b"
    using map_io_read_sector [OF m(1)] by (auto simp: blk_at_def)
  have n: "0 < ?n" using assms(1) by (simp add: geo_def)
  have "0 \<le> b * ?n" "b * ?n + (?n - 1) < num_sectors (x_dev s)"
    using r(2) [THEN bspec, of 0] r(2) [THEN bspec, of "?n - 1"] n by auto
  then have "valid_block s b" using n by (simp add: valid_block_def distrib_right zero_le_mult_iff)
  then show ?thesis using m r by simp
qed

lemma write_sectors:
  assumes "for_each is (\<lambda>i. write_sector (f i) (g i)) s = (Inr (), t)" "distinct (map f is)"
  shows "t = s\<lparr>x_dev := x_dev s\<lparr>d_sectors := sectors t\<rparr>\<rparr> \<and> length (sectors t) = length (sectors s)
    \<and> (\<forall>i \<in> set is. 0 \<le> f i \<and> f i < num_sectors (x_dev s) \<and> length (g i) = 512 \<and> sectors t ! nat (f i) = g i)
    \<and> (\<forall>j < length (sectors s). int j \<notin> f ` set is \<longrightarrow> sectors t ! j = sectors s ! j)"
  using assms
proof (induction "is" arbitrary: s)
  case (Cons i "is")
  obtain s1 where s1: "write_sector (f i) (g i) s = (Inr (), s1)" "for_each is (\<lambda>i. write_sector (f i) (g i)) s1 = (Inr (), t)"
    using Cons(2) by (auto elim!: bind_eq_InrE)
  have w: "length (g i) = 512" "0 \<le> f i" "f i < num_sectors (x_dev s)"
    "s1 = s\<lparr>x_dev := x_dev s\<lparr>d_sectors := (sectors s)[nat (f i) := g i]\<rparr>\<rparr>"
    using s1(1) by (auto simp: write_sector_def SECTOR_SIZE_def split: if_splits)
  have d: "f i \<notin> f ` set is" "distinct (map f is)" using Cons(3) by auto
  note ih = Cons(1) [OF s1(2) d(2)]
  have "nat (f i) < length (sectors s)" using w by (simp add: num_sectors_def)
  moreover from this have "sectors t ! nat (f i) = g i"
    using ih w d by (auto simp: num_sectors_def)
  ultimately show ?case using ih w d
    by (auto simp: num_sectors_def nth_list_update)
qed simp


definition sb_free :: "Ext2FS \<Rightarrow> int \<Rightarrow> bool" where
  "sb_free s b \<longleftrightarrow> (b + 1) * x_sectors_per_block s \<le> 2 \<or> 3 < b * x_sectors_per_block s"

definition coh :: "Ext2FS \<Rightarrow> bool" where
  "coh s \<longleftrightarrow> geo s \<and> (\<forall>b blk. x_cache s b = Some blk \<longrightarrow> sb_free s b \<longrightarrow> valid_block s b \<and> blk = blk_at s b)"

definition same_geo :: "Ext2FS \<Rightarrow> Ext2FS \<Rightarrow> bool" where
  "same_geo s t \<longleftrightarrow> x_sectors_per_block t = x_sectors_per_block s \<and> x_block_size t = x_block_size s
     \<and> length (sectors t) = length (sectors s)"

lemma valid_block_geo: "same_geo s t \<Longrightarrow> valid_block t b = valid_block s b"
  by (simp add: valid_block_def same_geo_def num_sectors_def)

lemma sb_free_geo: "same_geo s t \<Longrightarrow> sb_free t b = sb_free s b"
  by (simp add: sb_free_def same_geo_def)

lemma write_block_sectors:
  assumes "geo s" "write_block b data s = (Inr (), t)"
  shows "valid_block s b" "int (length data) = x_block_size s"
    "t = s\<lparr>x_dev := x_dev s\<lparr>d_sectors := sectors t\<rparr>, x_cache := (x_cache s)(b \<mapsto> data)\<rparr>"
    "length (sectors t) = length (sectors s)"
    "0 \<le> i \<Longrightarrow> i < x_sectors_per_block s \<Longrightarrow> length (slice data (i * 512) ((i + 1) * 512)) = 512
       \<and> sectors t ! nat (b * x_sectors_per_block s + i) = slice data (i * 512) ((i + 1) * 512)"
    "j < length (sectors s) \<Longrightarrow> int j div x_sectors_per_block s \<noteq> b \<Longrightarrow> sectors t ! j = sectors s ! j"
proof -
  let ?n = "x_sectors_per_block s" and ?g = "\<lambda>i. slice data (i * 512) ((i + 1) * 512)"
  obtain s1 where w: "int (length data) = x_block_size s"
    "for_each [0..?n - 1] (\<lambda>i. write_sector (b * ?n + i) (?g i)) s = (Inr (), s1)"
    "t = s1\<lparr>x_cache := (x_cache s1)(b \<mapsto> data)\<rparr>"
    using assms(2) by (auto simp: write_block_def cache_put_def SECTOR_SIZE_def elim!: bind_eq_InrE split: if_splits)
  have d: "distinct (map (\<lambda>i. b * ?n + i) [0..?n - 1])" by (simp add: distinct_map inj_on_def)
  have r: "s1 = s\<lparr>x_dev := x_dev s\<lparr>d_sectors := sectors s1\<rparr>\<rparr>" "length (sectors s1) = length (sectors s)"
    "\<And>i. 0 \<le> i \<Longrightarrow> i < ?n \<Longrightarrow> 0 \<le> b * ?n + i \<and> b * ?n + i < num_sectors (x_dev s) \<and> length (?g i) = 512
       \<and> sectors s1 ! nat (b * ?n + i) = ?g i"
    "\<And>j. j < length (sectors s) \<Longrightarrow> int j \<notin> (\<lambda>i. b * ?n + i) ` set [0..?n - 1] \<Longrightarrow> sectors s1 ! j = sectors s ! j"
    using write_sectors [OF w(2) d] by simp_all
  have n: "0 < ?n" using assms(1) by (simp add: geo_def)
  have "0 \<le> b * ?n" "b * ?n + (?n - 1) < num_sectors (x_dev s)" using r(3) [of 0] r(3) [of "?n - 1"] n by auto
  then show "valid_block s b" using n by (simp add: valid_block_def distrib_right zero_le_mult_iff)
  show "int (length data) = x_block_size s" by (rule w)
  obtain ss where ss: "s1 = s\<lparr>x_dev := x_dev s\<lparr>d_sectors := ss\<rparr>\<rparr>" using r(1) by blast
  show "t = s\<lparr>x_dev := x_dev s\<lparr>d_sectors := sectors t\<rparr>, x_cache := (x_cache s)(b \<mapsto> data)\<rparr>"
    by (simp add: w(3) ss)
  show "length (sectors t) = length (sectors s)" using w(3) r(2) by simp
  show "0 \<le> i \<Longrightarrow> i < ?n \<Longrightarrow> length (?g i) = 512 \<and> sectors t ! nat (b * ?n + i) = ?g i" using w(3) r(3) by simp
  show "j < length (sectors s) \<Longrightarrow> int j div ?n \<noteq> b \<Longrightarrow> sectors t ! j = sectors s ! j"
  proof -
    assume j: "j < length (sectors s)" "int j div ?n \<noteq> b"
    have "int j \<notin> (\<lambda>i. b * ?n + i) ` set [0..?n - 1]"
    proof
      assume "int j \<in> (\<lambda>i. b * ?n + i) ` set [0..?n - 1]"
      then have "b * ?n \<le> int j" "int j < b * ?n + ?n" by auto
      then have "int j div ?n = b" by (intro int_div_pos_eq [of _ _ _ "int j - b * ?n"]) auto
      then show False using j(2) by simp
    qed
    then show "sectors t ! j = sectors s ! j" using w(3) r(4) [OF j(1)] by simp
  qed
qed

lemma write_block_blk_at:
  assumes "geo s" "write_block b data s = (Inr (), t)" "valid_block s b'"
  shows "blk_at t b' = (if b' = b then data else blk_at s b')"
proof -
  let ?n = "x_sectors_per_block s"
  note w = write_block_sectors [OF assms(1,2)]
  have n: "0 < ?n" "int (nat ?n) = ?n" using assms(1) by (simp_all add: geo_def)
  have sp: "x_sectors_per_block t = ?n" using w(3) by (metis Ext2FS.select_convs(4) Ext2FS.surjective Ext2FS.update_convs(1,7))
  show ?thesis
  proof (cases "b' = b")
    case True
    have "length data = nat ?n * 512" using w(2) assms(1) n(2) by (simp add: geo_def)
    from concat_slices [OF this] have "data = concat (map (\<lambda>i. slice data (i * 512) ((i + 1) * 512)) [0..?n - 1])"
      by (simp only: n(2))
    also have "\<dots> = blk_at t b" unfolding blk_at_def sp using w(5) by (intro arg_cong [of _ _ concat] map_cong) auto
    finally show ?thesis using True by simp
  next
    case False
    have "sectors t ! nat (b' * ?n + i) = sectors s ! nat (b' * ?n + i)" if "i \<in> set [0..?n - 1]" for i
    proof (rule w(6))
      have i: "0 \<le> i" "i < ?n" using that by auto
      show "nat (b' * ?n + i) < length (sectors s)" using sector_index [OF assms(3) i] by (simp add: num_sectors_def)
      have "int (nat (b' * ?n + i)) div ?n = b'" using sector_index(1) [OF assms(3) i] i by simp
      then show "int (nat (b' * ?n + i)) div ?n \<noteq> b" using False by simp
    qed
    then have "blk_at t b' = blk_at s b'"
      unfolding blk_at_def sp by (intro arg_cong [of _ _ concat] map_cong refl)
    then show ?thesis using False by simp
  qed
qed

lemma write_block_geo:
  assumes "geo s" "write_block b data s = (Inr (), t)"
  shows "geo t" "same_geo s t"
proof -
  let ?n = "x_sectors_per_block s"
  note w = write_block_sectors [OF assms]
  have n: "0 < ?n" using assms(1) by (simp add: geo_def)
  have sp: "x_sectors_per_block t = ?n" "x_block_size t = x_block_size s"
    using w(3) by (metis Ext2FS.select_convs(3,4) Ext2FS.surjective Ext2FS.update_convs(1,7))+
  have "length (sectors t ! j) = 512" if j: "j < length (sectors s)" for j
  proof (cases "int j div ?n = b")
    case True
    then have "j = nat (b * ?n + int j mod ?n)" by (metis div_mult_mod_eq nat_int)
    then show ?thesis using w(5) [of "int j mod ?n"] n by simp
  next
    case False
    then show ?thesis using w(6) [OF j] assms(1) j by (simp add: geo_def)
  qed
  then show "geo t" using assms(1) w(4) sp by (auto simp: geo_def in_set_conv_nth)
  show "same_geo s t" using w(4) sp by (simp add: same_geo_def)
qed


subsection \<open>The cache is write-through\<close>

lemma geo_cache [simp]: "geo (s\<lparr>x_cache := c\<rparr>) = geo s" "same_geo s (s\<lparr>x_cache := c\<rparr>)"
    "valid_block (s\<lparr>x_cache := c\<rparr>) b = valid_block s b" "blk_at (s\<lparr>x_cache := c\<rparr>) b = blk_at s b"
    "sb_free (s\<lparr>x_cache := c\<rparr>) b = sb_free s b"
  by (simp_all add: geo_def same_geo_def valid_block_def blk_at_def sb_free_def)

definition keeps :: "'a ext2 \<Rightarrow> bool" where
  "keeps m \<longleftrightarrow> (\<forall>s. coh s \<longrightarrow> wp m (\<lambda>_. coh) (\<lambda>_ _. True) s)"

named_theorems keeps_intros \<open>commands that keep the cache coherent\<close>

lemma keeps_bind [keeps_intros]: "keeps m \<Longrightarrow> (\<And>x. keeps (f x)) \<Longrightarrow> keeps (bind m f)"
  unfolding keeps_def wp_bind by (blast intro: wp_mono)

lemma keeps_pure [keeps_intros]: "keeps (ret x)" "keeps (raise e)" "keeps (lift_res r)"
  by (simp_all add: keeps_def wp_simps split: sum.split)

lemma keeps_gets [keeps_intros]: "keeps (gets f)"
  by (simp add: keeps_def wp_simps)

lemma keeps_if [keeps_intros]: "(b \<Longrightarrow> keeps m) \<Longrightarrow> (\<not> b \<Longrightarrow> keeps m') \<Longrightarrow> keeps (if b then m else m')"
  by simp

lemma keeps_option [keeps_intros]: "keeps m \<Longrightarrow> (\<And>x. keeps (f x)) \<Longrightarrow> keeps (case r of None \<Rightarrow> m | Some x \<Rightarrow> f x)"
  by (cases r) simp_all

lemma keeps_prod [keeps_intros]: "(\<And>x y. keeps (f x y)) \<Longrightarrow> keeps (case p of (x, y) \<Rightarrow> f x y)"
  by (cases p) simp

lemma keeps_Let [keeps_intros]: "(\<And>x. keeps (f x)) \<Longrightarrow> keeps (let x = v in f x)"
  by (simp add: Let_def)

lemma keeps_for_each [keeps_intros]: "(\<And>x. keeps (f x)) \<Longrightarrow> keeps (for_each xs f)"
  by (induction xs) (auto intro: keeps_intros)

lemma keeps_fold_io [keeps_intros]: "(\<And>x a. keeps (f x a)) \<Longrightarrow> keeps (fold_io f xs a)"
  by (induction xs arbitrary: a) (auto intro!: keeps_intros)

lemma keeps_modify: "(\<And>s. coh s \<Longrightarrow> coh (g s)) \<Longrightarrow> keeps (modify g)"
  by (simp add: keeps_def wp_simps)

lemma coh_meta: "coh s \<Longrightarrow> coh (s\<lparr>x_sb := sb\<rparr>)" "coh s \<Longrightarrow> coh (s\<lparr>x_bgdt := t\<rparr>)"
  by (simp_all add: coh_def geo_def sb_free_def valid_block_def blk_at_def)

lemma keeps_meta [keeps_intros]: "keeps (modify (\<lambda>s. s\<lparr>x_sb := f s\<rparr>))" "keeps (modify (\<lambda>s. s\<lparr>x_bgdt := t\<rparr>))"
  by (auto intro: keeps_modify coh_meta)

lemma read_block_coh:
  assumes "coh s" "read_block b s = (Inr blk, t)"
  shows "coh t" "t = s\<lparr>x_cache := (x_cache s)(b \<mapsto> blk)\<rparr>" "sb_free s b \<Longrightarrow> valid_block s b \<and> blk = blk_at s b"
proof -
  have g: "geo s" using assms(1) by (simp add: coh_def)
  have "coh t \<and> t = s\<lparr>x_cache := (x_cache s)(b \<mapsto> blk)\<rparr> \<and> (sb_free s b \<longrightarrow> valid_block s b \<and> blk = blk_at s b)"
  proof (cases "x_cache s b")
    case None
    then show ?thesis using read_block_miss [OF g None assms(2)] assms(1) by (auto simp: coh_def)
  next
    case (Some blk')
    then have "t = s" "blk = blk'" using assms(2) by (auto simp: read_block_def)
    then show ?thesis using assms(1) Some by (auto simp: coh_def fun_upd_idem)
  qed
  then show "coh t" "t = s\<lparr>x_cache := (x_cache s)(b \<mapsto> blk)\<rparr>" "sb_free s b \<Longrightarrow> valid_block s b \<and> blk = blk_at s b"
    by blast+
qed

lemma keeps_read_block [keeps_intros]: "keeps (read_block b)"
  using read_block_coh(1) by (fastforce simp: keeps_def wp_def split: prod.split sum.split)

text \<open>Writing a block restores coherence even when the cached copy had been changed before.\<close>

definition coh_except :: "int \<Rightarrow> Ext2FS \<Rightarrow> bool" where
  "coh_except b s \<longleftrightarrow> geo s \<and> (\<forall>b' blk. b' \<noteq> b \<longrightarrow> x_cache s b' = Some blk \<longrightarrow> sb_free s b' \<longrightarrow>
     valid_block s b' \<and> blk = blk_at s b')"

lemma coh_except_poke [simp]: "coh_except b s \<Longrightarrow> coh_except b (s\<lparr>x_cache := (x_cache s)(b \<mapsto> blk)\<rparr>)"
  by (auto simp: coh_except_def)

lemma coh_coh_except: "coh s \<Longrightarrow> coh_except b s"
  by (auto simp: coh_except_def coh_def)

lemma write_block_coh:
  assumes "coh_except b s" "write_block b data s = (Inr (), t)"
  shows "coh t"
proof -
  have g: "geo s" using assms(1) by (simp add: coh_except_def)
  note w = write_block_sectors(1,3) [OF g assms(2)] write_block_geo [OF g assms(2)]
  have c: "x_cache t = (x_cache s)(b \<mapsto> data)"
    using w(2) by (metis Ext2FS.select_convs(7) Ext2FS.surjective Ext2FS.update_convs(7))
  show ?thesis
    unfolding coh_def
  proof (intro conjI allI impI)
    fix b' blk
    assume a: "x_cache t b' = Some blk" "sb_free t b'"
    show "valid_block t b'"
      using a w c assms(1) by (cases "b' = b") (auto simp: valid_block_geo sb_free_geo coh_except_def)
    then have v: "valid_block s b'" using w(4) by (simp add: valid_block_geo)
    show "blk = blk_at t b'"
      using a w c assms(1) write_block_blk_at [OF g assms(2) v]
      by (cases "b' = b") (auto simp: sb_free_geo coh_except_def)
  qed (rule w)
qed

lemma keeps_write_block [keeps_intros]: "keeps (write_block b data)"
  using write_block_coh coh_coh_except by (fastforce simp: keeps_def wp_def split: prod.split sum.split)

lemma wp_write_block: "coh_except b s \<Longrightarrow> wp (write_block b data) (\<lambda>_. coh) (\<lambda>_ _. True) s"
  using write_block_coh [of b s data] by (simp add: wp_def split: prod.split sum.split)

lemma keeps_store_block [keeps_intros]: "keeps (store_block b blk)"
  by (simp add: keeps_def store_block_def cache_put_def wp_simps wp_write_block coh_coh_except)

lemma write_sector_run:
  assumes "write_sector lba data s = (Inr (), t)"
  shows "t = s\<lparr>x_dev := x_dev s\<lparr>d_sectors := (sectors s)[nat lba := data]\<rparr>\<rparr>" "length data = 512"
    "0 \<le> lba" "lba < num_sectors (x_dev s)"
  using assms by (auto simp: write_sector_def SECTOR_SIZE_def split: if_splits)

lemma keeps_write_sb_sector:
  assumes "lba = 2 \<or> lba = 3"
  shows "keeps (write_sector lba data)"
proof -
  have "coh t" if c: "coh s" and w: "write_sector lba data s = (Inr (), t)" for s t
  proof -
    note r = write_sector_run [OF w]
    have t: "x_cache t = x_cache s" "x_sectors_per_block t = x_sectors_per_block s" "x_block_size t = x_block_size s"
      "sectors t = (sectors s)[nat lba := data]" by (simp_all add: r(1))
    have g: "geo t"
      using c r(2) set_update_subset_insert [of "sectors s" "nat lba" data] by (auto simp: coh_def geo_def t)
    have sg: "same_geo s t" by (simp add: same_geo_def t)
    have "blk_at t b = blk_at s b" if v: "valid_block s b" "sb_free s b" for b
    proof -
      have "sectors t ! nat (b * x_sectors_per_block s + i) = sectors s ! nat (b * x_sectors_per_block s + i)"
        if "i \<in> set [0..x_sectors_per_block s - 1]" for i
      proof -
        have "b * x_sectors_per_block s + i \<noteq> lba" using v(2) that assms by (auto simp: sb_free_def distrib_right)
        then show ?thesis using sector_index(1) [OF v(1), of i] that r(3) by (simp add: t nth_list_update nat_eq_iff2)
      qed
      then show ?thesis unfolding blk_at_def t by (intro arg_cong [of _ _ concat] map_cong refl)
    qed
    then show ?thesis
      using c g unfolding coh_def t(1) valid_block_geo [OF sg] sb_free_geo [OF sg] by auto
  qed
  then show ?thesis by (auto simp: keeps_def wp_def split: prod.split sum.split)
qed

lemmas keeps_sb_sectors [keeps_intros] = keeps_write_sb_sector [of 2, simplified] keeps_write_sb_sector [of 3, simplified]

lemma keeps_flush_superblock [keeps_intros]: "keeps flush_superblock"
  unfolding flush_superblock_def serialize_counters_def set_raw_def by (intro keeps_intros)

lemma keeps_flush_bgdt [keeps_intros]: "keeps flush_bgdt"
  unfolding flush_bgdt_def by (intro keeps_intros)

lemma keeps_bgd [keeps_intros]: "keeps (bgd_get g)" "keeps (bgd_set_counters g a b c)"
  unfolding bgd_get_def bgd_set_counters_def by (intro keeps_intros)+

lemma keeps_bitmap [keeps_intros]: "keeps (alloc_in_bitmap b n)" "keeps (free_in_bitmap b n)"
  unfolding alloc_in_bitmap_def free_in_bitmap_def by (intro keeps_intros)+

lemma keeps_counters [keeps_intros]: "keeps (add_free_blocks k)" "keeps (add_free_inodes k)"
  unfolding add_free_blocks_def add_free_inodes_def by (intro keeps_intros)+

lemma keeps_alloc_block [keeps_intros]: "keeps alloc_block"
proof -
  have "keeps (alloc_block_from sb n gs)" for sb n gs
    by (induction sb n gs rule: alloc_block_from.induct) (simp_all only: alloc_block_from.simps, intro keeps_intros, (intro keeps_intros | assumption)+)
  then show ?thesis unfolding alloc_block_def by (intro keeps_intros)
qed

lemma keeps_alloc_inode [keeps_intros]: "keeps (alloc_inode d)"
proof -
  have "keeps (alloc_inode_from sb d gs)" for sb gs
    by (induction sb d gs rule: alloc_inode_from.induct) (simp_all only: alloc_inode_from.simps, intro keeps_intros, (intro keeps_intros | assumption)+)
  then show ?thesis unfolding alloc_inode_def by (intro keeps_intros)
qed

lemma keeps_free [keeps_intros]: "keeps (free_block b)" "keeps (free_inode i d)"
  unfolding free_block_def free_inode_def by (intro keeps_intros)+

lemma keeps_inode [keeps_intros]: "keeps (inode_location i)" "keeps (read_inode i)" "keeps (write_inode i raw)"
proof -
  show l: "keeps (inode_location i)" unfolding inode_location_def by (intro keeps_intros)
  show "keeps (read_inode i)" "keeps (write_inode i raw)"
    unfolding read_inode_def write_inode_def by (intro keeps_intros l)+
qed

end
