(* ===== verification/Ext2File.thy ===== *)
theory Ext2File
  imports Ext2Disk
begin

section \<open>ext2: block mapping and file data\<close>

text \<open>
  The middle of \<^verbatim>\<open>kernel/fs/ext2.py\<close>: from logical blocks of a file to blocks of the disk
  through the direct, indirect and double indirect pointers, and reading, writing and truncating
  file data. The raw inode is a local buffer, passed and returned.
\<close>

unbundle bit_operations_syntax

definition ptrs_per_block :: "int ext2" where
  "ptrs_per_block = gets (\<lambda>s. x_block_size s div 4)"

subsection \<open>Block pointers\<close>

definition resolve_block :: "byte list \<Rightarrow> int \<Rightarrow> int ext2" where
  "resolve_block raw file_block =
     bind ptrs_per_block (\<lambda>ppb.
     if file_block < EXT2_NDIR_BLOCKS then lift_res (i_block_n raw file_block)
     else let rel = file_block - EXT2_NDIR_BLOCKS in
     if rel < ppb then
       bind (lift_res (i_block_n raw EXT2_IND_BLOCK)) (\<lambda>ind.
       if ind = 0 then ret 0
       else bind (read_block ind) (\<lambda>blk. u 4 blk (rel * 4)))
     else let rel = rel - ppb in
     if rel < ppb * ppb then
       bind (lift_res (i_block_n raw EXT2_DIND_BLOCK)) (\<lambda>dind.
       if dind = 0 then ret 0
       else bind (read_block dind) (\<lambda>blk.
            bind (u 4 blk (rel div ppb * 4)) (\<lambda>ind.
            if ind = 0 then ret 0
            else bind (read_block ind) (\<lambda>blk2. u 4 blk2 (rel mod ppb * 4)))))
     else raise NotImplementedError)"

definition grow_i_blocks :: "byte list \<Rightarrow> byte list ext2" where
  "grow_i_blocks raw =
     bind (lift_res (i_blocks raw)) (\<lambda>n. bind (gets x_sectors_per_block) (\<lambda>spb. lift_res (set_i_blocks raw (n + spb))))"

definition alloc_zeroed :: "int ext2" where
  "alloc_zeroed = bind alloc_block (\<lambda>phys. bind zero_block (\<lambda>z. bind (write_block phys z) (\<lambda>_. ret phys)))"

text \<open>A pointer of the inode that is allocated when it is zero.\<close>

definition inode_ptr :: "byte list \<Rightarrow> int \<Rightarrow> (int \<times> byte list) ext2" where
  "inode_ptr raw n =
     bind (lift_res (i_block_n raw n)) (\<lambda>p.
     if p = 0 then
       bind alloc_zeroed (\<lambda>phys.
       bind (lift_res (set_i_block_n raw n phys)) (\<lambda>raw1.
       bind (grow_i_blocks raw1) (\<lambda>raw2.
       ret (phys, raw2))))
     else ret (p, raw))"

text \<open>A pointer of the indirect block \<open>ind\<close> that is allocated when it is zero.\<close>

definition block_ptr :: "int \<Rightarrow> int \<Rightarrow> byte list \<Rightarrow> (int \<times> byte list) ext2" where
  "block_ptr ind n raw =
     bind (read_block ind) (\<lambda>blk.
     bind (u 4 blk (n * 4)) (\<lambda>p.
     if p = 0 then
       bind alloc_zeroed (\<lambda>phys.
       bind (lift_res (pack_le_into 4 blk (n * 4) phys)) (\<lambda>blk1.
       bind (store_block ind blk1) (\<lambda>_.
       bind (grow_i_blocks raw) (\<lambda>raw1.
       ret (phys, raw1)))))
     else ret (p, raw)))"

definition allocate_block_for :: "byte list \<Rightarrow> int \<Rightarrow> (int \<times> byte list) ext2" where
  "allocate_block_for raw file_block =
     bind ptrs_per_block (\<lambda>ppb.
     if file_block < EXT2_NDIR_BLOCKS then inode_ptr raw file_block
     else let rel = file_block - EXT2_NDIR_BLOCKS in
     if rel < ppb then
       bind (inode_ptr raw EXT2_IND_BLOCK) (\<lambda>(ind, raw1). block_ptr ind rel raw1)
     else let rel = rel - ppb in
     if rel < ppb * ppb then
       bind (inode_ptr raw EXT2_DIND_BLOCK) (\<lambda>(dind, raw1).
       bind (block_ptr dind (rel div ppb) raw1) (\<lambda>(ind, raw2).
       block_ptr ind (rel mod ppb) raw2))
     else raise NotImplementedError)"

definition free_pointers :: "byte list \<Rightarrow> unit ext2" where
  "free_pointers blk =
     bind ptrs_per_block (\<lambda>ppb.
     for_each [0..ppb - 1] (\<lambda>i. bind (u 4 blk (i * 4)) (\<lambda>p. if p \<noteq> 0 then free_block p else ret ())))"

definition free_all_blocks :: "byte list \<Rightarrow> byte list ext2" where
  "free_all_blocks raw =
     bind ptrs_per_block (\<lambda>ppb.
     bind (fold_io (\<lambda>n raw. bind (lift_res (i_block_n raw n)) (\<lambda>b.
             if b \<noteq> 0 then bind (free_block b) (\<lambda>_. lift_res (set_i_block_n raw n 0)) else ret raw))
           [0..EXT2_NDIR_BLOCKS - 1] raw) (\<lambda>raw.
     bind (bind (lift_res (i_block_n raw EXT2_IND_BLOCK)) (\<lambda>ind.
           if ind \<noteq> 0 then
             bind (read_block ind) (\<lambda>blk.
             bind (free_pointers blk) (\<lambda>_.
             bind (free_block ind) (\<lambda>_.
             lift_res (set_i_block_n raw EXT2_IND_BLOCK 0))))
           else ret raw)) (\<lambda>raw.
     bind (bind (lift_res (i_block_n raw EXT2_DIND_BLOCK)) (\<lambda>dind.
           if dind \<noteq> 0 then
             bind (read_block dind) (\<lambda>dblk.
             bind (for_each [0..ppb - 1] (\<lambda>i. bind (u 4 dblk (i * 4)) (\<lambda>ind2.
                     if ind2 \<noteq> 0 then
                       bind (read_block ind2) (\<lambda>blk2.
                       bind (free_pointers blk2) (\<lambda>_.
                       free_block ind2))
                     else ret ()))) (\<lambda>_.
             bind (free_block dind) (\<lambda>_.
             lift_res (set_i_block_n raw EXT2_DIND_BLOCK 0))))
           else ret raw)) (\<lambda>raw.
     lift_res (set_i_blocks raw 0)))))"

subsection \<open>File data\<close>

definition file_size :: "byte list \<Rightarrow> int ext2" where
  "file_size raw =
     bind (lift_res (i_size raw)) (\<lambda>n.
     bind (lift_res (i_mode raw)) (\<lambda>mode.
     if mode AND EXT2_S_IFMT = EXT2_S_IFREG
     then bind (u 4 raw 108) (\<lambda>high. ret (n OR push_bit 32 high))
     else ret n))"

definition set_file_size :: "byte list \<Rightarrow> int \<Rightarrow> byte list ext2" where
  "set_file_size raw n =
     bind (lift_res (pack_le_into 4 raw 4 (n AND 0xFFFFFFFF))) (\<lambda>raw.
     bind (lift_res (i_mode raw)) (\<lambda>mode.
     if mode AND EXT2_S_IFMT = EXT2_S_IFREG
     then lift_res (pack_le_into 4 raw 108 (drop_bit 32 n AND 0xFFFFFFFF))
     else ret raw))"

text \<open>
  The loops of \<^verbatim>\<open>_read_file_data\<close> and \<^verbatim>\<open>_write_file_data\<close> visit the range from
  \<open>cur\<close> to \<open>stop\<close> block by block; a step is the position, the part of the block before it and the
  number of bytes taken there. The steps do not depend on what the disk returns.
\<close>

function file_chunks :: "int \<Rightarrow> int \<Rightarrow> int \<Rightarrow> (int \<times> int \<times> int) list" where
  "file_chunks bs cur stop =
     (if cur < stop \<and> 0 < bs
      then let in_blk = cur mod bs; chunk = min (bs - in_blk) (stop - cur)
           in (cur, in_blk, chunk) # file_chunks bs (cur + chunk) stop
      else [])"
  by auto
termination
  by (relation "measure (\<lambda>(bs, cur, stop). nat (stop - cur))") (auto simp: min_def Let_def)

declare file_chunks.simps [simp del]

definition read_file_data :: "int \<Rightarrow> int \<Rightarrow> int \<Rightarrow> byte list ext2" where
  "read_file_data ino offset n =
     bind (read_inode ino) (\<lambda>raw.
     bind (file_size raw) (\<lambda>sz.
     if offset \<ge> sz then ret []
     else bind (gets x_block_size) (\<lambda>bs.
       fold_io (\<lambda>(cur, in_blk, chunk) out.
         bind (resolve_block raw (cur div bs)) (\<lambda>phys.
         if phys = 0 then ret (out @ replicate (nat chunk) 0)
         else bind (read_block phys) (\<lambda>blk. ret (out @ slice blk in_blk (in_blk + chunk)))))
         (file_chunks bs offset (min (offset + n) sz)) [])))"

definition write_file_data :: "int \<Rightarrow> int \<Rightarrow> byte list \<Rightarrow> int ext2" where
  "write_file_data ino offset data =
     bind (read_inode ino) (\<lambda>raw.
     bind (gets x_block_size) (\<lambda>bs.
     let stop = offset + int (length data) in
     bind (fold_io (\<lambda>(cur, in_blk, chunk) raw.
             bind (allocate_block_for raw (cur div bs)) (\<lambda>(phys, raw).
             bind (read_block phys) (\<lambda>blk.
             bind (store_block phys (slice_assign blk in_blk (in_blk + chunk)
                     (slice data (cur - offset) (cur - offset + chunk)))) (\<lambda>_.
             ret raw))))
           (file_chunks bs offset stop) raw) (\<lambda>raw.
     bind (file_size raw) (\<lambda>sz.
     bind (if stop > sz then set_file_size raw stop else ret raw) (\<lambda>raw.
     bind (write_inode ino raw) (\<lambda>_.
     ret (int (length data))))))))"

definition clear_pointer :: "byte list \<Rightarrow> int \<Rightarrow> byte list ext2" where
  "clear_pointer raw fb =
     bind ptrs_per_block (\<lambda>ppb.
     if fb < EXT2_NDIR_BLOCKS then lift_res (set_i_block_n raw fb 0)
     else if fb - EXT2_NDIR_BLOCKS < ppb then
       bind (lift_res (i_block_n raw EXT2_IND_BLOCK)) (\<lambda>ind.
       bind (read_block ind) (\<lambda>blk.
       bind (lift_res (pack_le_into 4 blk ((fb - EXT2_NDIR_BLOCKS) * 4) 0)) (\<lambda>blk.
       bind (store_block ind blk) (\<lambda>_. ret raw))))
     else let rel = fb - EXT2_NDIR_BLOCKS - ppb in
       bind (lift_res (i_block_n raw EXT2_DIND_BLOCK)) (\<lambda>dind.
       bind (read_block dind) (\<lambda>dblk.
       bind (u 4 dblk (rel div ppb * 4)) (\<lambda>ind.
       bind (read_block ind) (\<lambda>iblk.
       bind (lift_res (pack_le_into 4 iblk (rel mod ppb * 4) 0)) (\<lambda>iblk.
       bind (store_block ind iblk) (\<lambda>_. ret raw)))))))"

definition truncate_file :: "int \<Rightarrow> int \<Rightarrow> unit ext2" where
  "truncate_file ino sz =
     bind (read_inode ino) (\<lambda>raw.
     bind (file_size raw) (\<lambda>cur_size.
     if sz \<ge> cur_size then bind (set_file_size raw sz) (write_inode ino)
     else bind (gets x_block_size) (\<lambda>bs.
       bind (fold_io (\<lambda>fb raw.
               bind (resolve_block raw fb) (\<lambda>phys.
               if phys \<noteq> 0 then
                 bind (free_block phys) (\<lambda>_.
                 bind (clear_pointer raw fb) (\<lambda>raw.
                 bind (lift_res (i_blocks raw)) (\<lambda>nb.
                 bind (gets x_sectors_per_block) (\<lambda>spb.
                 lift_res (set_i_blocks raw (max 0 (nb - spb)))))))
               else ret raw))
             [(sz + bs - 1) div bs..(cur_size + bs - 1) div bs - 1] raw) (\<lambda>raw.
       bind (if sz > 0 \<and> sz mod bs \<noteq> 0 then
               bind (resolve_block raw (sz div bs)) (\<lambda>phys.
               if phys \<noteq> 0 then
                 bind (read_block phys) (\<lambda>blk.
                 store_block phys (take (nat (sz mod bs)) blk @ replicate (nat bs - nat (sz mod bs)) 0))
               else ret ())
             else ret ()) (\<lambda>_.
       bind (set_file_size raw sz) (write_inode ino))))))"

end
