(* ===== verification/Ext2Dir.thy ===== *)
theory Ext2Dir
  imports Ext2File
begin

section \<open>ext2: directories and nodes\<close>

text \<open>
  The upper part of \<^verbatim>\<open>kernel/fs/ext2.py\<close>: directory blocks as chains of records, and the
  node class with the operations of the filesystem protocol. A node is its inode number. Names are
  strings of code points below 256; a byte of a directory record that does not decode to such a
  code point reads as a substitute character.
\<close>

unbundle bit_operations_syntax

subsection \<open>Records of a directory block\<close>

record dirent =
  e_ino :: int
  e_rec_len :: int
  e_name_len :: int
  e_type :: int

definition dirent_at :: "byte list \<Rightarrow> int \<Rightarrow> dirent res" where
  "dirent_at blk off =
     (case struct_offset 8 blk off of
        None \<Rightarrow> Inl StructError
      | Some k \<Rightarrow> Inr \<lparr>e_ino = le_val (take 4 (drop k blk)), e_rec_len = le_val (take 2 (drop (k + 4) blk)),
                      e_name_len = le_val (take 1 (drop (k + 6) blk)), e_type = le_val (take 1 (drop (k + 7) blk))\<rparr>)"

definition dirent_put :: "byte list \<Rightarrow> int \<Rightarrow> dirent \<Rightarrow> byte list res" where
  "dirent_put blk off e =
     (case struct_offset 8 blk off of
        None \<Rightarrow> Inl StructError
      | Some k \<Rightarrow>
          if 0 \<le> e_ino e \<and> e_ino e < 256 ^ 4 \<and> 0 \<le> e_rec_len e \<and> e_rec_len e < 256 ^ 2
             \<and> 0 \<le> e_name_len e \<and> e_name_len e < 256 \<and> 0 \<le> e_type e \<and> e_type e < 256
          then Inr (take k blk @ le_bytes 4 (e_ino e) @ le_bytes 2 (e_rec_len e) @ le_bytes 1 (e_name_len e)
                    @ le_bytes 1 (e_type e) @ drop (k + 8) blk)
          else Inl StructError)"

lemma dirent_rec_len: "dirent_at blk off = Inr e \<Longrightarrow> 0 \<le> e_rec_len e"
  using le_val_bounds by (auto simp: dirent_at_def split: option.splits)

function dir_list :: "int \<Rightarrow> byte list \<Rightarrow> int \<Rightarrow> (string \<times> int \<times> int) list res" where
  "dir_list bs blk off =
     (if off < bs then
        (case dirent_at blk off of
           Inl e \<Rightarrow> Inl e
         | Inr d \<Rightarrow>
             if e_rec_len d = 0 then Inr []
             else (case dir_list bs blk (off + e_rec_len d) of
                     Inl e \<Rightarrow> Inl e
                   | Inr rest \<Rightarrow>
                       Inr (if e_ino d \<noteq> 0
                            then (utf8_decode (slice blk (off + 8) (off + 8 + e_name_len d)), e_ino d, e_type d) # rest
                            else rest)))
      else Inr [])"
  by auto
termination
  by (relation "measure (\<lambda>(bs, blk, off). nat (bs - off))") (auto dest: dirent_rec_len)

text \<open>The first record that satisfies a test, with the offset of its predecessor.\<close>

function dir_find :: "int \<Rightarrow> byte list \<Rightarrow> (int \<Rightarrow> dirent \<Rightarrow> bool) \<Rightarrow> int \<Rightarrow> int \<Rightarrow> (int \<times> int \<times> dirent) option res" where
  "dir_find bs blk P prev off =
     (if off < bs then
        (case dirent_at blk off of
           Inl e \<Rightarrow> Inl e
         | Inr d \<Rightarrow>
             if e_rec_len d = 0 then Inr None
             else if P off d then Inr (Some (prev, off, d))
             else dir_find bs blk P off (off + e_rec_len d))
      else Inr None)"
  by auto
termination
  by (relation "measure (\<lambda>(bs, blk, P, prev, off). nat (bs - off))") (auto dest: dirent_rec_len)

declare dir_list.simps [simp del] dir_find.simps [simp del]

definition dirent_size :: "int \<Rightarrow> int" where
  "dirent_size name_len = ((8 + name_len) + 3) AND NOT 3"

subsection \<open>Directories\<close>

definition dir_blocks :: "byte list \<Rightarrow> int list ext2" where
  "dir_blocks raw = bind (file_size raw) (\<lambda>sz. gets (\<lambda>s. [0..(sz + x_block_size s - 1) div x_block_size s - 1]))"

definition read_dir_entries :: "int \<Rightarrow> (string \<times> int \<times> int) list ext2" where
  "read_dir_entries ino =
     bind (read_inode ino) (\<lambda>raw.
     bind (dir_blocks raw) (\<lambda>fbs.
     bind (gets x_block_size) (\<lambda>bs.
     fold_io (\<lambda>fb out.
       bind (resolve_block raw fb) (\<lambda>phys.
       if phys = 0 then ret out
       else bind (read_block phys) (\<lambda>blk. bind (lift_res (dir_list bs blk 0)) (\<lambda>es. ret (out @ es)))))
       fbs [])))"

text \<open>\<open>for i in range(a, b): blk[i] = 0\<close> raises at the first index past the end of the buffer.\<close>

definition zero_range :: "int \<Rightarrow> byte list \<Rightarrow> int \<Rightarrow> int \<Rightarrow> byte list ext2" where
  "zero_range phys blk a b =
     (let blk' = map (\<lambda>i. if a \<le> int i \<and> int i < b then 0 else blk ! i) [0..<length blk] in
      if a < b \<and> b > int (length blk) then bind (poke phys blk') (\<lambda>_. raise IndexError)
      else bind (poke phys blk') (\<lambda>_. ret blk'))"

text \<open>Writing the record and its name at an offset, padding with zeros and writing the block.\<close>

definition put_entry :: "int \<Rightarrow> byte list \<Rightarrow> int \<Rightarrow> int \<Rightarrow> int \<Rightarrow> byte list \<Rightarrow> int \<Rightarrow> unit ext2" where
  "put_entry phys blk off child_ino rec_len name_b file_type =
     bind (lift_res (dirent_put blk off \<lparr>e_ino = child_ino, e_rec_len = rec_len, e_name_len = int (length name_b),
             e_type = file_type\<rparr>)) (\<lambda>blk.
     let blk = slice_assign blk (off + 8) (off + 8 + int (length name_b)) name_b in
     bind (poke phys blk) (\<lambda>_.
     bind (zero_range phys blk (off + 8 + int (length name_b)) (off + rec_len)) (\<lambda>blk.
     write_block phys blk)))"

definition slack_ok :: "int \<Rightarrow> int \<Rightarrow> dirent \<Rightarrow> bool" where
  "slack_ok need off d \<longleftrightarrow> e_rec_len d - (if e_ino d \<noteq> 0 then dirent_size (e_name_len d) else 0) \<ge> need"

definition split_entry :: "int \<Rightarrow> byte list \<Rightarrow> int \<Rightarrow> dirent \<Rightarrow> int \<Rightarrow> byte list \<Rightarrow> int \<Rightarrow> unit ext2" where
  "split_entry phys blk off d child_ino name_b file_type =
     (if e_ino d \<noteq> 0 then
        let actual = dirent_size (e_name_len d) in
        bind (lift_res (pack_le_into 2 blk (off + 4) actual)) (\<lambda>blk.
        bind (poke phys blk) (\<lambda>_.
        put_entry phys blk (off + actual) child_ino (e_rec_len d - actual) name_b file_type))
      else put_entry phys blk off child_ino (e_rec_len d) name_b file_type)"

definition append_dir_block :: "int \<Rightarrow> byte list \<Rightarrow> int \<Rightarrow> byte list \<Rightarrow> int \<Rightarrow> unit ext2" where
  "append_dir_block dir_ino raw child_ino name_b file_type =
     bind (file_size raw) (\<lambda>sz.
     bind (gets x_block_size) (\<lambda>bs.
     let new_fb = sz div bs in
     bind (allocate_block_for raw new_fb) (\<lambda>(phys, raw).
     bind (read_block phys) (\<lambda>blk.
     bind (put_entry phys blk 0 child_ino bs name_b file_type) (\<lambda>_.
     bind (set_file_size raw ((new_fb + 1) * bs)) (\<lambda>raw.
     write_inode dir_ino raw))))))"

fun add_in_blocks :: "byte list \<Rightarrow> int \<Rightarrow> byte list \<Rightarrow> int \<Rightarrow> int list \<Rightarrow> bool ext2" where
  "add_in_blocks raw child_ino name_b file_type [] = ret False"
| "add_in_blocks raw child_ino name_b file_type (fb # fbs) =
     bind (resolve_block raw fb) (\<lambda>phys.
     if phys = 0 then add_in_blocks raw child_ino name_b file_type fbs
     else bind (read_block phys) (\<lambda>blk.
       bind (gets x_block_size) (\<lambda>bs.
       bind (lift_res (dir_find bs blk (slack_ok (dirent_size (int (length name_b)))) (- 1) 0)) (\<lambda>r. case r of
         None \<Rightarrow> add_in_blocks raw child_ino name_b file_type fbs
       | Some (prev, off, d) \<Rightarrow>
           bind (split_entry phys blk off d child_ino name_b file_type) (\<lambda>_. ret True)))))"

definition add_dir_entry :: "int \<Rightarrow> string \<Rightarrow> int \<Rightarrow> int \<Rightarrow> unit ext2" where
  "add_dir_entry dir_ino name child_ino file_type =
     (let name_b = utf8_encode name in
      if name_b = [] \<or> length name_b > 255 then raise ValueError
      else bind (read_inode dir_ino) (\<lambda>raw.
           bind (dir_blocks raw) (\<lambda>fbs.
           bind (add_in_blocks raw child_ino name_b file_type fbs) (\<lambda>found.
           if found then ret () else append_dir_block dir_ino raw child_ino name_b file_type))))"

definition name_matches :: "byte list \<Rightarrow> byte list \<Rightarrow> int \<Rightarrow> dirent \<Rightarrow> bool" where
  "name_matches blk name_b off d \<longleftrightarrow> e_ino d \<noteq> 0 \<and> e_name_len d = int (length name_b)
     \<and> slice blk (off + 8) (off + 8 + e_name_len d) = name_b"

definition unlink_entry :: "byte list \<Rightarrow> int \<Rightarrow> int \<Rightarrow> dirent \<Rightarrow> byte list res" where
  "unlink_entry blk prev off d =
     (if prev \<ge> 0 then
        (case dirent_at blk prev of
           Inl e \<Rightarrow> Inl e
         | Inr p \<Rightarrow> pack_le_into 2 blk (prev + 4) (e_rec_len p + e_rec_len d))
      else pack_le_into 4 blk off 0)"

fun remove_in_blocks :: "byte list \<Rightarrow> byte list \<Rightarrow> int list \<Rightarrow> (int \<times> int) ext2" where
  "remove_in_blocks raw name_b [] = raise FileNotFoundError"
| "remove_in_blocks raw name_b (fb # fbs) =
     bind (resolve_block raw fb) (\<lambda>phys.
     if phys = 0 then remove_in_blocks raw name_b fbs
     else bind (read_block phys) (\<lambda>blk.
       bind (gets x_block_size) (\<lambda>bs.
       bind (lift_res (dir_find bs blk (name_matches blk name_b) (- 1) 0)) (\<lambda>r. case r of
         None \<Rightarrow> remove_in_blocks raw name_b fbs
       | Some (prev, off, d) \<Rightarrow>
           bind (lift_res (unlink_entry blk prev off d)) (\<lambda>blk.
           bind (store_block phys blk) (\<lambda>_.
           ret (e_ino d, e_type d)))))))"

definition remove_dir_entry :: "int \<Rightarrow> string \<Rightarrow> (int \<times> int) ext2" where
  "remove_dir_entry dir_ino name =
     bind (read_inode dir_ino) (\<lambda>raw.
     bind (dir_blocks raw) (remove_in_blocks raw (utf8_encode name)))"

definition dir_is_empty :: "int \<Rightarrow> bool ext2" where
  "dir_is_empty dir_ino =
     bind (read_dir_entries dir_ino) (\<lambda>es. ret (list_all (\<lambda>(name, _). name = ''.'' \<or> name = ''..'') es))"

subsection \<open>Nodes\<close>

definition mode_to_inode_type :: "int \<Rightarrow> InodeType" where
  "mode_to_inode_type mode =
     (let fmt = mode AND EXT2_S_IFMT in
      if fmt = EXT2_S_IFREG then FILE
      else if fmt = EXT2_S_IFDIR then DIR
      else if fmt = EXT2_S_IFLNK then SYMLINK
      else if fmt = EXT2_S_IFCHR \<or> fmt = EXT2_S_IFBLK then DEVICE
      else if fmt = EXT2_S_IFIFO then PIPE
      else FILE)"

definition inode_type_to_mode :: "InodeType \<Rightarrow> int \<Rightarrow> int" where
  "inode_type_to_mode t perm =
     (if t = DIR then EXT2_S_IFDIR OR (perm AND 0xFFF)
      else if t = SYMLINK then EXT2_S_IFLNK OR (perm AND 0xFFF)
      else EXT2_S_IFREG OR (perm AND 0xFFF))"

definition inode_type_to_filetype :: "InodeType \<Rightarrow> int" where
  "inode_type_to_filetype t = (if t = DIR then EXT2_FT_DIR else if t = SYMLINK then EXT2_FT_SYMLINK else EXT2_FT_REG_FILE)"

definition ext2_root :: int where "ext2_root = EXT2_ROOT_INO"

definition inode_kind :: "byte list \<Rightarrow> int ext2" where
  "inode_kind raw = bind (lift_res (i_mode raw)) (\<lambda>mode. ret (mode AND EXT2_S_IFMT))"

definition ext2_stat :: "int \<Rightarrow> Stat ext2" where
  "ext2_stat ino =
     bind (read_inode ino) (\<lambda>raw.
     bind (lift_res (i_mode raw)) (\<lambda>mode.
     bind (file_size raw) (\<lambda>sz.
     bind (lift_res (i_links raw)) (\<lambda>links.
     ret \<lparr>st_type = mode_to_inode_type mode, st_size = sz, st_uid = 0, st_gid = 0, st_mode = mode AND 0xFFF,
          st_nlink = links\<rparr>))))"

definition ext2_read :: "int \<Rightarrow> int \<Rightarrow> int \<Rightarrow> byte list ext2" where
  "ext2_read ino offset n =
     bind (read_inode ino) (\<lambda>raw.
     bind (inode_kind raw) (\<lambda>kind.
     if kind = EXT2_S_IFDIR then raise IsADirectoryError
     else if kind = EXT2_S_IFLNK then
       bind (file_size raw) (\<lambda>sz.
       if sz \<le> 60 then ret (slice (slice raw 40 (40 + sz)) offset (offset + n))
       else read_file_data ino offset n)
     else read_file_data ino offset n))"

definition ext2_write :: "int \<Rightarrow> int \<Rightarrow> byte list \<Rightarrow> int ext2" where
  "ext2_write ino offset data =
     bind (read_inode ino) (\<lambda>raw.
     bind (inode_kind raw) (\<lambda>kind.
     if kind \<noteq> EXT2_S_IFREG then raise IsADirectoryError else write_file_data ino offset data))"

definition ext2_truncate :: "int \<Rightarrow> int \<Rightarrow> unit ext2" where
  "ext2_truncate ino sz =
     bind (read_inode ino) (\<lambda>raw.
     bind (inode_kind raw) (\<lambda>kind.
     if kind \<noteq> EXT2_S_IFREG then raise IsADirectoryError else truncate_file ino sz))"

definition need_dir :: "int \<Rightarrow> unit ext2" where
  "need_dir ino =
     bind (read_inode ino) (\<lambda>raw.
     bind (inode_kind raw) (\<lambda>kind.
     if kind \<noteq> EXT2_S_IFDIR then raise NotADirectoryError else ret ()))"

definition ext2_readdir :: "int \<Rightarrow> string list ext2" where
  "ext2_readdir ino = bind (need_dir ino) (\<lambda>_. bind (read_dir_entries ino) (\<lambda>es. ret (map fst es)))"

fun find_entry :: "string \<Rightarrow> (string \<times> int \<times> int) list \<Rightarrow> (int \<times> int) option" where
  "find_entry name [] = None"
| "find_entry name ((n, e) # es) = (if n = name then Some e else find_entry name es)"

definition ext2_lookup :: "int \<Rightarrow> string \<Rightarrow> int ext2" where
  "ext2_lookup ino name =
     (if name = [] \<or> name = ''.'' then ret ino
      else bind (need_dir ino) (\<lambda>_. bind (read_dir_entries ino) (\<lambda>es.
        case find_entry name es of None \<Rightarrow> raise FileNotFoundError | Some (child, ft) \<Rightarrow> ret child)))"

definition fresh_inode :: "InodeType \<Rightarrow> byte list ext2" where
  "fresh_inode ty =
     bind (gets (\<lambda>s. replicate (nat (inode_size (x_sb s))) 0)) (\<lambda>raw.
     bind (lift_res (set_i_mode raw (inode_type_to_mode ty (if ty = DIR then 0x1ED else 0x1A4)))) (\<lambda>raw.
     bind (lift_res (set_i_size raw 0)) (\<lambda>raw.
     bind (lift_res (set_i_links raw 1)) (\<lambda>raw.
     bind (lift_res (set_i_blocks raw 0)) (\<lambda>raw.
     bind (lift_res (set_i_atime raw 0)) (\<lambda>raw.
     bind (lift_res (set_i_ctime raw 0)) (\<lambda>raw.
     lift_res (set_i_mtime raw 0))))))))"

definition init_dir :: "int \<Rightarrow> int \<Rightarrow> unit ext2" where
  "init_dir parent new_ino =
     bind (add_dir_entry new_ino ''.'' new_ino EXT2_FT_DIR) (\<lambda>_.
     bind (add_dir_entry new_ino ''..'' parent EXT2_FT_DIR) (\<lambda>_.
     bind (read_inode new_ino) (\<lambda>new_raw.
     bind (lift_res (set_i_links new_raw 2)) (\<lambda>new_raw.
     bind (write_inode new_ino new_raw) (\<lambda>_.
     bind (read_inode parent) (\<lambda>parent_raw.
     bind (lift_res (i_links parent_raw)) (\<lambda>n.
     bind (lift_res (set_i_links parent_raw (n + 1))) (\<lambda>parent_raw.
     write_inode parent parent_raw))))))))"

definition ext2_create :: "int \<Rightarrow> string \<Rightarrow> InodeType \<Rightarrow> int ext2" where
  "ext2_create ino name ty =
     bind (need_dir ino) (\<lambda>_.
     bind (read_dir_entries ino) (\<lambda>es.
     if find_entry name es \<noteq> None then raise FileExistsError
     else
       bind (alloc_inode (ty = DIR)) (\<lambda>new_ino.
       bind (fresh_inode ty) (\<lambda>new_raw.
       bind (write_inode new_ino new_raw) (\<lambda>_.
       bind (if ty = DIR then init_dir ino new_ino else ret ()) (\<lambda>_.
       bind (add_dir_entry ino name new_ino (inode_type_to_filetype ty)) (\<lambda>_.
       ret new_ino)))))))"

definition release_inode :: "int \<Rightarrow> byte list \<Rightarrow> bool \<Rightarrow> unit ext2" where
  "release_inode target raw was_dir =
     bind (free_all_blocks raw) (\<lambda>_.
     bind (gets (\<lambda>s. replicate (nat (inode_size (x_sb s))) 0)) (\<lambda>zero.
     bind (write_inode target zero) (\<lambda>_.
     free_inode target was_dir)))"

definition ext2_unlink :: "int \<Rightarrow> string \<Rightarrow> unit ext2" where
  "ext2_unlink ino name =
     bind (need_dir ino) (\<lambda>_.
     bind (read_dir_entries ino) (\<lambda>es.
     case find_entry name es of
       None \<Rightarrow> raise FileNotFoundError
     | Some (target, ft) \<Rightarrow>
         bind (read_inode target) (\<lambda>child_raw.
         bind (inode_kind child_raw) (\<lambda>kind.
         bind (if kind = EXT2_S_IFDIR
               then bind (dir_is_empty target) (\<lambda>e. if \<not> e then raise OSError else ret ()) else ret ()) (\<lambda>_.
         bind (remove_dir_entry ino name) (\<lambda>_.
         if kind = EXT2_S_IFDIR then
           bind (read_inode ino) (\<lambda>parent_raw.
           bind (lift_res (i_links parent_raw)) (\<lambda>n.
           bind (lift_res (set_i_links parent_raw (max 0 (n - 1)))) (\<lambda>parent_raw.
           bind (write_inode ino parent_raw) (\<lambda>_.
           release_inode target child_raw True))))
         else
           bind (lift_res (i_links child_raw)) (\<lambda>n.
           bind (lift_res (set_i_links child_raw (max 0 (n - 1)))) (\<lambda>child_raw.
           if n - 1 \<le> 0 then release_inode target child_raw False
           else write_inode target child_raw))))))))"

definition ext2_ops :: "(Ext2FS, int) fsnode" where
  "ext2_ops = \<lparr>n_stat = ext2_stat, n_read = ext2_read, n_write = ext2_write, n_truncate = ext2_truncate,
     n_readdir = ext2_readdir, n_lookup = ext2_lookup, n_create = ext2_create, n_unlink = ext2_unlink\<rparr>"

end
