(* ===== verification/Ext2Inv.thy ===== *)
theory Ext2Inv
  imports Ext2Dir
begin

section \<open>ext2: the cache stays coherent\<close>

text \<open>
  Every operation of the node protocol that returns leaves each cached block equal to the block on
  the device, apart from blocks that share sectors with the superblock, which is written past the
  cache.
\<close>

unbundle bit_operations_syntax

lemma keeps_prod_app [keeps_intros]: "(\<And>x y. keeps (f x y a)) \<Longrightarrow> keeps ((case p of (x, y) \<Rightarrow> f x y) a)"
  by (cases p) simp

lemma keeps_ptrs [keeps_intros]: "keeps ptrs_per_block"
  unfolding ptrs_per_block_def by (intro keeps_intros)

lemma keeps_zero [keeps_intros]: "keeps zero_block"
  unfolding zero_block_def by (intro keeps_intros)

lemma keeps_resolve [keeps_intros]: "keeps (resolve_block raw fb)"
  unfolding resolve_block_def by (intro keeps_intros)

lemma keeps_alloc_zeroed [keeps_intros]: "keeps alloc_zeroed"
  unfolding alloc_zeroed_def by (intro keeps_intros)

lemma keeps_grow [keeps_intros]: "keeps (grow_i_blocks raw)"
  unfolding grow_i_blocks_def by (intro keeps_intros)

lemma keeps_pointers [keeps_intros]: "keeps (inode_ptr raw n)" "keeps (block_ptr ind n raw)"
  unfolding inode_ptr_def block_ptr_def by (intro keeps_intros)+

lemma keeps_allocate [keeps_intros]: "keeps (allocate_block_for raw fb)"
  unfolding allocate_block_for_def by (intro keeps_intros)

lemma keeps_free_pointers [keeps_intros]: "keeps (free_pointers blk)"
  unfolding free_pointers_def by (intro keeps_intros)

lemma keeps_free_all [keeps_intros]: "keeps (free_all_blocks raw)"
  unfolding free_all_blocks_def by (intro keeps_intros)

lemma keeps_size [keeps_intros]: "keeps (file_size raw)" "keeps (set_file_size raw n)"
  unfolding file_size_def set_file_size_def by (intro keeps_intros)+

lemma keeps_clear [keeps_intros]: "keeps (clear_pointer raw fb)"
  unfolding clear_pointer_def by (intro keeps_intros)

lemma keeps_file_data [keeps_intros]:
  "keeps (read_file_data i off n)" "keeps (write_file_data i off data)" "keeps (truncate_file i n)"
  unfolding read_file_data_def write_file_data_def truncate_file_def by (intro keeps_intros)+

lemma wp_zero_range:
  "coh_except phys s \<Longrightarrow> wp (zero_range phys blk a b) (\<lambda>_. coh_except phys) (\<lambda>_ _. True) s"
  by (simp add: zero_range_def Let_def cache_put_def wp_simps)

lemma wp_put_entry: "coh_except phys s \<Longrightarrow> wp (put_entry phys blk off i r nm ty) (\<lambda>_. coh) (\<lambda>_ _. True) s"
  unfolding put_entry_def cache_put_def Let_def wp_simps
  by (auto split: sum.split intro!: wp_mono [OF wp_zero_range] wp_write_block)

lemma keeps_put_entry [keeps_intros]: "keeps (put_entry phys blk off i r nm ty)"
  by (simp add: keeps_def wp_put_entry coh_coh_except)

lemma keeps_split_entry [keeps_intros]: "keeps (split_entry phys blk off d i nm ty)"
  by (auto simp: keeps_def split_entry_def cache_put_def Let_def wp_simps coh_coh_except
      intro!: wp_put_entry split: sum.split)

lemma keeps_dir_blocks [keeps_intros]: "keeps (dir_blocks raw)"
  unfolding dir_blocks_def by (intro keeps_intros)

lemma keeps_append [keeps_intros]: "keeps (append_dir_block i raw c nm ty)"
  unfolding append_dir_block_def by (intro keeps_intros)

lemma keeps_add_in_blocks [keeps_intros]: "keeps (add_in_blocks raw c nm ty fbs)"
proof (induction fbs)
  case (Cons fb fbs)
  then show ?case unfolding add_in_blocks.simps by (intro keeps_intros)
qed (simp only: add_in_blocks.simps keeps_intros)

lemma keeps_remove_in_blocks [keeps_intros]: "keeps (remove_in_blocks raw nm fbs)"
proof (induction fbs)
  case (Cons fb fbs)
  then show ?case unfolding remove_in_blocks.simps by (intro keeps_intros)
qed (simp only: remove_in_blocks.simps keeps_intros)

lemma keeps_dir_entries [keeps_intros]:
  "keeps (read_dir_entries i)" "keeps (add_dir_entry i n c ty)" "keeps (remove_dir_entry i n)"
  unfolding read_dir_entries_def add_dir_entry_def remove_dir_entry_def by (intro keeps_intros)+

lemma keeps_dir_is_empty [keeps_intros]: "keeps (dir_is_empty i)"
  unfolding dir_is_empty_def by (intro keeps_intros)

lemma keeps_kind [keeps_intros]: "keeps (inode_kind raw)"
  unfolding inode_kind_def by (intro keeps_intros)

lemma keeps_need_dir [keeps_intros]: "keeps (need_dir i)"
  unfolding need_dir_def by (intro keeps_intros)

lemma keeps_make [keeps_intros]: "keeps (fresh_inode ty)" "keeps (init_dir p i)" "keeps (release_inode i raw d)"
  unfolding fresh_inode_def init_dir_def release_inode_def by (intro keeps_intros)+

lemma keeps_node_ops:
  "keeps (ext2_stat i)" "keeps (ext2_read i off n)" "keeps (ext2_write i off data)" "keeps (ext2_truncate i sz)"
  "keeps (ext2_readdir i)" "keeps (ext2_lookup i nm)" "keeps (ext2_create i nm ty)" "keeps (ext2_unlink i nm)"
  unfolding ext2_stat_def ext2_read_def ext2_write_def ext2_truncate_def ext2_readdir_def ext2_lookup_def
    ext2_create_def ext2_unlink_def
  by (intro keeps_intros)+

subsection \<open>From mounting onwards\<close>

lemma keeps_bgdt_table [keeps_intros]: "keeps (modify (\<lambda>s. s\<lparr>x_bgdt := t, x_bgdt_block := b\<rparr>))"
  by (rule keeps_modify) (simp add: coh_def geo_def sb_free_def valid_block_def blk_at_def)

lemma keeps_read_bgdt: "keeps read_bgdt"
  unfolding read_bgdt_def by (intro keeps_intros)

lemma wp_sb_parse: "(\<And>x. Q x s) \<Longrightarrow> wp (sb_parse blob) Q (\<lambda>_ _. True) s"
  by (simp add: sb_parse_def wp_simps split: sum.split)

lemma coh_fresh:
  assumes "x_cache s = Map.empty" "\<forall>sec \<in> set (sectors s). length sec = 512"
    "512 \<le> x_block_size s" "x_block_size s mod 512 = 0"
  shows "coh (s\<lparr>x_sectors_per_block := x_block_size s div 512\<rparr>)"
proof -
  have "x_block_size s = x_block_size s div 512 * 512" using assms(4) by (metis add_0_right div_mult_mod_eq)
  moreover have "0 < x_block_size s div 512" using assms(3) by (simp add: pos_imp_zdiv_pos_iff)
  ultimately show ?thesis using assms(1,2) by (simp add: coh_def geo_def)
qed

lemma read_superblock_coh:
  assumes "\<forall>sec \<in> set (d_sectors dev). length sec = 512"
  shows "wp read_superblock (\<lambda>_. coh) (\<lambda>_ _. True) (ext2_new dev)"
  unfolding read_superblock_def read_sector_def wp_simps Let_def
  using assms
  by (auto simp: wp_simps SECTOR_SIZE_def ext2_new_def intro!: wp_sb_parse coh_fresh [where s = "_\<lparr>x_block_size := _\<rparr>", simplified])

text \<open>States reached by mounting a device and running node operations that return.\<close>

inductive ext2_reach :: "Ext2FS \<Rightarrow> bool" where
  Mount: "file_block_device img ro = Inr dev \<Longrightarrow> ext2_mount dev = (Inr (), s) \<Longrightarrow> ext2_reach s"
| Stat: "ext2_reach s \<Longrightarrow> ext2_stat i s = (Inr st, t) \<Longrightarrow> ext2_reach t"
| Read: "ext2_reach s \<Longrightarrow> ext2_read i off n s = (Inr d, t) \<Longrightarrow> ext2_reach t"
| Write: "ext2_reach s \<Longrightarrow> ext2_write i off d s = (Inr k, t) \<Longrightarrow> ext2_reach t"
| Truncate: "ext2_reach s \<Longrightarrow> ext2_truncate i n s = (Inr (), t) \<Longrightarrow> ext2_reach t"
| Readdir: "ext2_reach s \<Longrightarrow> ext2_readdir i s = (Inr ns, t) \<Longrightarrow> ext2_reach t"
| Lookup: "ext2_reach s \<Longrightarrow> ext2_lookup i nm s = (Inr j, t) \<Longrightarrow> ext2_reach t"
| Create: "ext2_reach s \<Longrightarrow> ext2_create i nm ty s = (Inr j, t) \<Longrightarrow> ext2_reach t"
| Unlink: "ext2_reach s \<Longrightarrow> ext2_unlink i nm s = (Inr (), t) \<Longrightarrow> ext2_reach t"

lemma keeps_run: "keeps m \<Longrightarrow> coh s \<Longrightarrow> m s = (Inr x, t) \<Longrightarrow> coh t"
  by (auto simp: keeps_def wp_def)

lemma sectors_of_length: "length img = n * SECTOR_SIZE \<Longrightarrow> sec \<in> set (sectors_of n img) \<Longrightarrow> length sec = 512"
  by (induction n img rule: sectors_of.induct) (auto simp: SECTOR_SIZE_def)

lemma mount_coh:
  assumes "file_block_device img ro = Inr dev" "ext2_mount dev = (Inr (), s)"
  shows "coh s"
proof -
  have m: "length img mod SECTOR_SIZE = 0" "d_sectors dev = sectors_of (length img div SECTOR_SIZE) img"
    using assms(1) by (auto simp: file_block_device_def split: if_splits)
  have "length img = length img div SECTOR_SIZE * SECTOR_SIZE"
    using div_mult_mod_eq [of "length img" SECTOR_SIZE] m(1) by linarith
  then have "\<forall>sec \<in> set (d_sectors dev). length sec = 512" using sectors_of_length m(2) by metis
  note sb = read_superblock_coh [OF this]
  obtain s1 where "read_superblock (ext2_new dev) = (Inr (), s1)" "read_bgdt s1 = (Inr (), s)"
    using assms(2) unfolding ext2_mount_def by (elim bind_eq_InrE) simp
  then show ?thesis using wp_InrD [OF sb] keeps_run [OF keeps_read_bgdt] by blast
qed

text \<open>
  C7. The block cache is write-through: after mounting an image and any sequence of node operations
  that return, every cached block other than those sharing sectors with the superblock lies on
  the device and equals its contents there.
\<close>

theorem ext2_cache_coherent:
  assumes "ext2_reach s" "x_cache s b = Some blk" "sb_free s b"
  shows "valid_block s b \<and> blk = blk_at s b"
proof -
  have "coh s" using assms(1)
    by (induction rule: ext2_reach.induct) (auto intro: mount_coh keeps_run [OF keeps_node_ops(1)] keeps_run [OF keeps_node_ops(2)] keeps_run [OF keeps_node_ops(3)] keeps_run [OF keeps_node_ops(4)] keeps_run [OF keeps_node_ops(5)] keeps_run [OF keeps_node_ops(6)] keeps_run [OF keeps_node_ops(7)] keeps_run [OF keeps_node_ops(8)])
  then show ?thesis using assms(2,3) by (simp add: coh_def)
qed


text \<open>A minimal image: one group, 1024-byte blocks, the superblock in block 1 and the descriptors in block 2.\<close>

definition tiny_sb :: "byte list" where
  "tiny_sb = [16,0,0,0, 8,0,0,0, 0,0,0,0, 3,0,0,0, 5,0,0,0, 1,0,0,0, 0,0,0,0, 0,0,0,0, 0,32,0,0, 0,0,0,0, 16,0,0,0,
     0,0,0,0, 0,0,0,0, 0,0,0,0, 0x53,0xEF] @ replicate 966 0"

definition tiny_image :: "byte list" where
  "tiny_image = replicate 1024 0 @ tiny_sb @ replicate 1024 0"

lemma tiny_device: "file_block_device tiny_image False = Inr \<lparr>d_sectors = [replicate 512 0, replicate 512 0,
    take 512 tiny_sb, drop 512 tiny_sb, replicate 512 0, replicate 512 0], d_readonly = False\<rparr>"
proof -
  have l: "length tiny_sb = 1024" by (simp add: tiny_sb_def)
  have n: "length tiny_image div SECTOR_SIZE = Suc (Suc (Suc (Suc (Suc (Suc 0)))))" "length tiny_image mod SECTOR_SIZE = 0"
    by (simp_all add: tiny_image_def l SECTOR_SIZE_def)
  have "sectors_of (Suc (Suc (Suc (Suc (Suc (Suc 0)))))) tiny_image = [replicate 512 0, replicate 512 0,
      take 512 tiny_sb, drop 512 tiny_sb, replicate 512 0, replicate 512 0]"
    by (simp add: tiny_image_def SECTOR_SIZE_def l)
  then show ?thesis by (simp only: file_block_device_def n) simp
qed

lemma le_val_zeros [simp]: "le_val (replicate n 0) = 0"
  by (induction n) auto

lemma tiny_mount:
  obtains s where "ext2_mount \<lparr>d_sectors = [replicate 512 0, replicate 512 0, take 512 tiny_sb, drop 512 tiny_sb,
      replicate 512 0, replicate 512 0], d_readonly = False\<rparr> = (Inr (), s)"
    "x_cache s 2 = Some (replicate 1024 0)" "x_sectors_per_block s = 2" "x_block_size s = 1024"
    "x_dev s = \<lparr>d_sectors = [replicate 512 0, replicate 512 0, take 512 tiny_sb, drop 512 tiny_sb,
      replicate 512 0, replicate 512 0], d_readonly = False\<rparr>"
proof -
  let ?dev = "\<lparr>d_sectors = [replicate 512 0, replicate 512 0, take 512 tiny_sb, drop 512 tiny_sb,
      replicate 512 0, replicate 512 0], d_readonly = False\<rparr>"
  have l: "length tiny_sb = 1024" by (simp add: tiny_sb_def)
  have f: "unpack_le_from 4 tiny_sb 0 = Inr 16" "unpack_le_from 4 tiny_sb 4 = Inr 8" "unpack_le_from 4 tiny_sb 12 = Inr 3"
    "unpack_le_from 4 tiny_sb 16 = Inr 5" "unpack_le_from 4 tiny_sb 20 = Inr 1" "unpack_le_from 4 tiny_sb 24 = Inr 0"
    "unpack_le_from 4 tiny_sb 32 = Inr 8192" "unpack_le_from 4 tiny_sb 40 = Inr 16" "unpack_le_from 2 tiny_sb 56 = Inr 0xEF53"
    "unpack_le_from 4 tiny_sb 76 = Inr 0"
    by (simp_all add: unpack_le_from_def struct_offset_def tiny_sb_def)
  obtain s1 where s1: "read_superblock (ext2_new ?dev) = (Inr (), s1)" "x_dev s1 = ?dev" "x_cache s1 = Map.empty"
    "x_block_size s1 = 1024" "x_sectors_per_block s1 = 2" "first_data_block (x_sb s1) = 1" "num_groups (x_sb s1) = Inr 1"
    by (simp add: read_superblock_def read_sector_def num_sectors_def ext2_new_def f sb_parse_def bind_def Let_def
        EXT2_SUPER_MAGIC_def sb_block_size_def SECTOR_SIZE_def num_groups_def py_div_def)
  have "read_block 2 s1 = (Inr (replicate 1024 0), s1\<lparr>x_cache := [2 \<mapsto> replicate 1024 0]\<rparr>)"
    by (simp add: read_block_def bind_def s1 read_sector_def num_sectors_def upto.simps cache_put_def replicate_add [symmetric])
  then obtain s where "read_bgdt s1 = (Inr (), s)" "x_cache s = [2 \<mapsto> replicate 1024 0]" "x_sectors_per_block s = 2"
    "x_block_size s = 1024" "x_dev s = ?dev"
    by (simp add: read_bgdt_def bind_def s1 Let_def BGD_SIZE_def)
  then show ?thesis using that s1(1) by (simp add: ext2_mount_def bind_def)
qed

theorem ext2_cache_coherent_witness:
  "\<exists>s. ext2_reach s \<and> x_cache s 2 = Some (replicate 1024 0) \<and> sb_free s 2
     \<and> valid_block s 2 \<and> replicate 1024 0 = blk_at s 2"
proof -
  obtain s where s: "ext2_mount \<lparr>d_sectors = [replicate 512 0, replicate 512 0, take 512 tiny_sb, drop 512 tiny_sb,
      replicate 512 0, replicate 512 0], d_readonly = False\<rparr> = (Inr (), s)"
    "x_cache s 2 = Some (replicate 1024 0)" "x_sectors_per_block s = 2"
    using tiny_mount by metis
  have r: "ext2_reach s" using ext2_reach.Mount [OF tiny_device s(1)] .
  have f: "sb_free s 2" using s(3) by (simp add: sb_free_def)
  show ?thesis using ext2_cache_coherent [OF r s(2) f] r s(2) f by blast
qed

end
