(* ===== verification/Ext2Spec.thy ===== *)
theory Ext2Spec
  imports Ext2Inv
begin

section \<open>ext2: what the parts of the driver compute\<close>

text \<open>
  Functional properties over the contents of the device: the bitmap allocators, the superblock
  counters, the inode table, block mapping and directory blocks.
\<close>

unbundle bit_operations_syntax

subsection \<open>Bitmaps\<close>

definition bm_bit :: "byte list \<Rightarrow> nat \<Rightarrow> bool" where
  "bm_bit bm i \<longleftrightarrow> bit (bm ! (i div 8)) (i mod 8)"

lemma byte_bit_test: "b AND 2 ^ k = 0 \<longleftrightarrow> \<not> bit b k" for b :: byte
  by (simp add: and_exp_eq_0_iff_not_bit)

lemma byte_full: "k < 8 \<Longrightarrow> bit (0xFF :: byte) k"
proof -
  assume "k < 8"
  moreover have "(0xFF :: byte) = - 1" by simp
  ultimately show ?thesis by (simp only: bit_minus_1_iff) (simp add: possible_bit_word)
qed

lemma scan_bits_Some:
  "scan_bits cnt i b [m..<8] = Some k \<Longrightarrow>
     m \<le> k \<and> k < 8 \<and> i * 8 + int k < cnt \<and> \<not> bit b k \<and> (\<forall>j. m \<le> j \<and> j < k \<longrightarrow> bit b j)"
proof (induction "8 - m" arbitrary: m)
  case (Suc n)
  then have m: "[m..<8] = m # [Suc m..<8]" by (simp add: upt_conv_Cons)
  show ?case
  proof (cases "bit b m")
    case True
    then have "scan_bits cnt i b [Suc m..<8] = Some k" using Suc(3) by (auto simp: m byte_bit_test split: if_splits)
    then have "Suc m \<le> k \<and> k < 8 \<and> i * 8 + int k < cnt \<and> \<not> bit b k \<and> (\<forall>j. Suc m \<le> j \<and> j < k \<longrightarrow> bit b j)"
      using Suc(1) [of "Suc m"] Suc(2) by simp
    then show ?thesis using True by (metis Suc_leD Suc_leI le_neq_implies_less)
  next
    case False
    then show ?thesis using Suc(2,3) by (auto simp: m byte_bit_test split: if_splits)
  qed
qed simp

lemma scan_bits_None:
  "scan_bits cnt i b [m..<8] = None \<Longrightarrow> m \<le> k \<Longrightarrow> k < 8 \<Longrightarrow> i * 8 + int k < cnt \<Longrightarrow> bit b k"
proof (induction "8 - m" arbitrary: m)
  case (Suc n)
  then have m: "[m..<8] = m # [Suc m..<8]" by (simp add: upt_conv_Cons)
  have lt: "i * 8 + int m < cnt" using Suc(4-6) by linarith
  then have b: "bit b m" "scan_bits cnt i b [Suc m..<8] = None"
    using Suc(3) by (auto simp: m byte_bit_test split: if_splits)
  then show ?case using Suc(1) [of "Suc m"] Suc(2-) by (cases "k = m") auto
qed simp

text \<open>A byte without a usable clear bit is skipped.\<close>

definition skip_byte :: "byte list \<Rightarrow> int \<Rightarrow> nat \<Rightarrow> bool" where
  "skip_byte bm cnt m \<longleftrightarrow> bm ! m = 0xFF \<or> scan_bits cnt (int m) (bm ! m) [0..<8] = None"

lemma skip_byte_full:
  assumes "skip_byte bm cnt m" "8 * m \<le> j" "j < 8 * Suc m" "int j < cnt"
  shows "bm_bit bm j"
proof -
  have jd: "j div 8 = m" using assms(2,3) by (simp add: div_nat_eqI)
  then have "int m * 8 + int (j mod 8) < cnt" using assms(4) mult_div_mod_eq [of 8 j] by linarith
  then show ?thesis
    using assms(1) scan_bits_None [of cnt "int m" "bm ! m" 0 "j mod 8"] byte_full [of "j mod 8"]
    by (auto simp: skip_byte_def bm_bit_def jd)
qed

lemma scan_bytes_step:
  assumes "m < n" "n \<le> length bm"
  shows "scan_bytes bm cnt [int m..int n - 1] =
    (if skip_byte bm cnt m then scan_bytes bm cnt [int (Suc m)..int n - 1]
     else Inr (Some (int m, the (scan_bits cnt (int m) (bm ! m) [0..<8]))))"
proof -
  have "[int m..int n - 1] = int m # [int (Suc m)..int n - 1]" using assms by (simp add: upto_rec1 add.commute)
  then show ?thesis using assms by (auto simp: skip_byte_def split: option.split simp del: upt_rec)
qed

lemma scan_bytes_None:
  "scan_bytes bm cnt [int m..int n - 1] = Inr None \<Longrightarrow> n \<le> length bm \<Longrightarrow> 8 * m \<le> j \<Longrightarrow> j < 8 * n \<Longrightarrow> int j < cnt
     \<Longrightarrow> bm_bit bm j"
proof (induction "n - m" arbitrary: m)
  case (Suc d)
  then have s: "skip_byte bm cnt m" "scan_bytes bm cnt [int (Suc m)..int n - 1] = Inr None"
    using scan_bytes_step [of m n bm cnt] by (auto split: if_splits)
  then show ?case using Suc(1) [of "Suc m"] Suc(2,4-) skip_byte_full [OF s(1), of j] by (cases "j < 8 * Suc m") auto
qed simp

lemma scan_bytes_Some:
  "scan_bytes bm cnt [int m..int n - 1] = Inr (Some (i, k)) \<Longrightarrow> n \<le> length bm \<Longrightarrow>
     int m \<le> i \<and> i < int n \<and> k < 8 \<and> i * 8 + int k < cnt \<and> \<not> bm_bit bm (8 * nat i + k)
     \<and> (\<forall>j. 8 * m \<le> j \<and> j < 8 * nat i + k \<longrightarrow> bm_bit bm j)"
proof (induction "n - m" arbitrary: m)
  case (Suc d)
  show ?case
  proof (cases "skip_byte bm cnt m")
    case True
    then have ih: "int (Suc m) \<le> i \<and> i < int n \<and> k < 8 \<and> i * 8 + int k < cnt \<and> \<not> bm_bit bm (8 * nat i + k)
        \<and> (\<forall>j. 8 * Suc m \<le> j \<and> j < 8 * nat i + k \<longrightarrow> bm_bit bm j)"
      using Suc(1) [of "Suc m"] Suc(2-) scan_bytes_step [of m n bm cnt] by simp
    have "bm_bit bm j" if j: "8 * m \<le> j" "j < 8 * nat i + k" for j
    proof (cases "j < 8 * Suc m")
      case lo: True
      have "int j < 8 * (int m + 1)" "int m + 1 \<le> i" "i * 8 + int k < cnt" using ih lo by auto
      then have "int j < i * 8" "i * 8 \<le> i * 8 + int k" by simp_all
      then have "int j < cnt" using \<open>i * 8 + int k < cnt\<close> by simp
      then show ?thesis using skip_byte_full [OF True j(1) lo] by simp
    qed (use ih j in simp)
    then show ?thesis using ih by auto
  next
    case False
    then obtain k' where k': "scan_bits cnt (int m) (bm ! m) [0..<8] = Some k'" by (auto simp: skip_byte_def)
    then have ik: "i = int m" "k = k'" using Suc(2-) False scan_bytes_step [of m n bm cnt] by auto
    note b = scan_bits_Some [OF k']
    have "bm_bit bm j" if "8 * m \<le> j" "j < 8 * m + k" for j
    proof -
      have "j div 8 = m" using that b ik by (intro div_nat_eqI) auto
      moreover from this have "j mod 8 < k" using that mult_div_mod_eq [of 8 j] by linarith
      ultimately show ?thesis using b ik by (simp add: bm_bit_def)
    qed
    moreover have "\<not> bm_bit bm (8 * m + k)" using b ik by (simp add: bm_bit_def)
    ultimately show ?thesis using b ik Suc(2) by auto
  qed
qed simp

lemma scan_bytes_ok: "n \<le> length bm \<Longrightarrow> \<exists>r. scan_bytes bm cnt [int m..int n - 1] = Inr r"
proof (induction "n - m" arbitrary: m)
  case (Suc d)
  then show ?case using scan_bytes_step [of m n bm cnt] Suc(1) [of "Suc m"] by auto
qed simp

lemma write_block_ok:
  assumes "geo s" "valid_block s b" "int (length data) = x_block_size s" "\<not> d_readonly (x_dev s)"
  shows "\<exists>t. write_block b data s = (Inr (), t)"
proof -
  let ?n = "x_sectors_per_block s" and ?g = "\<lambda>i. slice data (i * 512) ((i + 1) * 512)"
  have len: "length (?g i) = 512" if "0 \<le> i" "i < ?n" for i
  proof -
    have "int (length data) = ?n * 512" using assms(1,3) by (simp add: geo_def)
    moreover have "(i + 1) * 512 \<le> ?n * 512" using that by simp
    ultimately have "int (nat (i * 512) + 512) \<le> int (length data)" using that(1) by simp
    then have "nat (i * 512) + 512 \<le> length data" by (simp only: of_nat_le_iff)
    then show ?thesis using that(1) by (simp add: slice_nat nat_mult_distrib nat_add_distrib distrib_right)
  qed
  have "\<exists>t. for_each is (\<lambda>i. write_sector (b * ?n + i) (?g i)) w = (Inr (), t)"
    if "\<forall>i \<in> set is. 0 \<le> i \<and> i < ?n" "num_sectors (x_dev w) = num_sectors (x_dev s)" "\<not> d_readonly (x_dev w)" for "is" w
    using that
  proof (induction "is" arbitrary: w)
    case (Cons i "is")
    have "write_sector (b * ?n + i) (?g i) w
        = (Inr (), w\<lparr>x_dev := x_dev w\<lparr>d_sectors := (d_sectors (x_dev w))[nat (b * ?n + i) := ?g i]\<rparr>\<rparr>)"
      using Cons(2-) len [of i] sector_index [OF assms(2), of i] by (simp add: write_sector_def SECTOR_SIZE_def)
    then show ?case using Cons by (simp add: bind_def num_sectors_def)
  qed simp
  from this [of "[0..?n - 1]" s] obtain t where
    "for_each [0..?n - 1] (\<lambda>i. write_sector (b * ?n + i) (?g i)) s = (Inr (), t)"
    using assms(4) by auto
  then show ?thesis using assms(3) by (simp add: write_block_def bind_def SECTOR_SIZE_def cache_put_def)
qed

lemma read_block_ok:
  assumes "coh s" "valid_block s b" "sb_free s b"
  shows "read_block b s = (Inr (blk_at s b), s\<lparr>x_cache := (x_cache s)(b \<mapsto> blk_at s b)\<rparr>)"
proof (cases "x_cache s b")
  case None
  have "0 \<le> b * x_sectors_per_block s + i \<and> b * x_sectors_per_block s + i < num_sectors (x_dev s)"
    if "i \<in> set [0..x_sectors_per_block s - 1]" for i
    using sector_index [OF assms(2), of i] that by simp
  then show ?thesis
    using None map_io_read_sector_ok [of "[0..x_sectors_per_block s - 1]" "\<lambda>i. b * x_sectors_per_block s + i" s]
    by (simp add: read_block_def bind_def cache_put_def blk_at_def)
next
  case (Some blk)
  then have "blk = blk_at s b" using assms(1,3) by (simp add: coh_def)
  then show ?thesis using Some by (simp add: read_block_def fun_upd_idem)
qed

lemma store_block_run:
  assumes "coh s" "valid_block s b" "int (length data) = x_block_size s" "\<not> d_readonly (x_dev s)"
  obtains t where "store_block b data s = (Inr (), t)" "coh t" "same_geo s t" "\<not> d_readonly (x_dev t)"
    "x_sb t = x_sb s" "x_bgdt t = x_bgdt s" "x_bgdt_block t = x_bgdt_block s"
    "\<And>b'. valid_block s b' \<Longrightarrow> blk_at t b' = (if b' = b then data else blk_at s b')"
proof -
  let ?s = "s\<lparr>x_cache := (x_cache s)(b \<mapsto> data)\<rparr>"
  have g: "geo ?s" using assms(1) by (simp add: coh_def)
  obtain t where t: "write_block b data ?s = (Inr (), t)"
    using write_block_ok [OF g] assms(2-4) by auto
  have "coh t" using write_block_coh [OF _ t] assms(1) by (simp add: coh_coh_except)
  moreover have "same_geo s t" using write_block_geo(2) [OF g t] by (simp add: same_geo_def)
  moreover have tt: "t = ?s\<lparr>x_dev := x_dev ?s\<lparr>d_sectors := sectors t\<rparr>, x_cache := (x_cache ?s)(b \<mapsto> data)\<rparr>"
    by (rule write_block_sectors(3) [OF g t])
  moreover have "\<not> d_readonly (x_dev t)" "x_sb t = x_sb s" "x_bgdt t = x_bgdt s" "x_bgdt_block t = x_bgdt_block s"
    using assms(4) by (subst tt, simp)+
  moreover have "blk_at t b' = (if b' = b then data else blk_at s b')" if "valid_block s b'" for b'
    using write_block_blk_at [OF g t, of b'] that by simp
  ultimately show ?thesis using that t by (simp add: store_block_def cache_put_def bind_def)
qed

lemma bm_bit_set:
  assumes "i < length bm" "k < 8"
  shows "bm_bit (bm[i := bm ! i OR 2 ^ k]) j \<longleftrightarrow> j = 8 * i + k \<or> bm_bit bm j"
proof (cases "j div 8 = i")
  case True
  then have "j = 8 * i + j mod 8" using mult_div_mod_eq [of 8 j] by simp
  then have "j mod 8 = k \<longleftrightarrow> j = 8 * i + k" by auto
  then show ?thesis
    using True assms(1) by (auto simp: bm_bit_def bit_or_iff bit_exp_iff possible_bit_word)
next
  case False
  then have "j \<noteq> 8 * i + k" using assms(2) by auto
  then show ?thesis using False by (simp add: bm_bit_def)
qed

text \<open>
  C22. Allocation in a bitmap is first fit and exact: it returns the least clear bit below the
  limit, sets that bit and no other bit of the device's blocks, and reports a full bitmap exactly
  when every bit below the limit is set, changing nothing.
\<close>

theorem alloc_in_bitmap_first_fit:
  assumes "coh s" "valid_block s b" "sb_free s b" "\<not> d_readonly (x_dev s)" "cnt \<le> 8 * x_block_size s"
  shows "case alloc_in_bitmap b cnt s of
      (Inr r, t) \<Rightarrow> (\<exists>i. r = int i \<and> r < cnt \<and> \<not> bm_bit (blk_at s b) i \<and> (\<forall>j < i. bm_bit (blk_at s b) j)
          \<and> (\<forall>j. bm_bit (blk_at t b) j \<longleftrightarrow> j = i \<or> bm_bit (blk_at s b) j))
        \<and> coh t \<and> (\<forall>b'. valid_block s b' \<longrightarrow> b' \<noteq> b \<longrightarrow> blk_at t b' = blk_at s b')
    | (Inl e, t) \<Rightarrow> e = OSError \<and> (\<forall>j. int j < cnt \<longrightarrow> bm_bit (blk_at s b) j) \<and> (\<forall>b'. blk_at t b' = blk_at s b')"
proof -
  define bm n where "bm = blk_at s b" and "n = nat ((cnt + 7) div 8)"
  let ?s = "s\<lparr>x_cache := (x_cache s)(b \<mapsto> bm)\<rparr>"
  have g: "geo s" "int (length bm) = x_block_size s" using assms(1,2) length_blk_at by (auto simp: coh_def bm_def)
  have n: "n \<le> length bm" using assms(5) g(2) by (auto simp: n_def)
  have rng: "[0..(cnt + 7) div 8 - 1] = [int 0..int n - 1]" by (cases "0 \<le> (cnt + 7) div 8") (auto simp: n_def)
  have rd: "read_block b s = (Inr bm, ?s)" using read_block_ok [OF assms(1-3)] by (simp add: bm_def)
  have cs: "coh ?s" using read_block_coh(1) [OF assms(1) rd] .
  show ?thesis
  proof (cases "scan_bytes bm cnt [int 0..int n - 1]")
    case (Inl e)
    then show ?thesis using scan_bytes_ok [OF n, of cnt 0] by simp
  next
    case (Inr r)
    show ?thesis
    proof (cases r)
      case None
      have "bm_bit bm j" if "int j < cnt" for j
        using scan_bytes_None [of bm cnt 0 n j] Inr None n that by (auto simp: n_def)
      then show ?thesis using None Inr rd rng by (simp add: alloc_in_bitmap_def bind_def bm_def)
    next
      case (Some ik)
      obtain i k where ik: "ik = (int i, k)" "i < n" "k < 8" "int i * 8 + int k < cnt" "\<not> bm_bit bm (8 * i + k)"
        "\<And>j. j < 8 * i + k \<Longrightarrow> bm_bit bm j"
        using scan_bytes_Some [of bm cnt 0 n "fst ik" "snd ik"] Inr Some n
        by (cases ik) (auto intro: that [of "nat (fst ik)"])
      let ?d = "bm[i := bm ! i OR 2 ^ k]"
      have p: "valid_block ?s b" "int (length ?d) = x_block_size ?s" "\<not> d_readonly (x_dev ?s)"
        using assms(2,4) g(2) by simp_all
      obtain t where t: "store_block b ?d ?s = (Inr (), t)" "coh t"
        "\<And>b'. valid_block s b' \<Longrightarrow> blk_at t b' = (if b' = b then ?d else blk_at s b')"
        using store_block_run [OF cs p] geo_cache(3,4) by metis
      have "alloc_in_bitmap b cnt s = (Inr (int (8 * i + k)), t)"
        using rd Inr Some ik rng t(1) by (simp add: alloc_in_bitmap_def bind_def mult.commute)
      moreover have "bm_bit (blk_at t b) j \<longleftrightarrow> j = 8 * i + k \<or> bm_bit bm j" for j
        using t(3) [OF assms(2)] bm_bit_set [of i bm k j] ik n by simp
      ultimately show ?thesis
        using ik t(2,3) by (auto simp: bm_def [symmetric] mult.commute intro!: exI [of _ "8 * i + k"])
    qed
  qed
qed

theorem alloc_in_bitmap_first_fit_witness:
  "\<exists>s. coh s \<and> valid_block s 2 \<and> sb_free s 2 \<and> (\<exists>t. alloc_in_bitmap 2 5 s = (Inr 0, t) \<and> coh t)"
proof -
  obtain s where s: "ext2_mount \<lparr>d_sectors = [replicate 512 0, replicate 512 0, take 512 tiny_sb, drop 512 tiny_sb,
      replicate 512 0, replicate 512 0], d_readonly = False\<rparr> = (Inr (), s)"
    "x_cache s 2 = Some (replicate 1024 0)" "x_sectors_per_block s = 2" "x_block_size s = 1024" "\<not> d_readonly (x_dev s)"
    using tiny_mount by (metis FileBlockDevice.select_convs(2))
  have c: "coh s" using mount_coh [OF tiny_device s(1)] .
  have f: "sb_free s 2" using s(3) by (simp add: sb_free_def)
  have v: "valid_block s 2" "blk_at s 2 = replicate 1024 0" using c s(2) f by (auto simp: coh_def)
  have z: "\<not> bm_bit (replicate 1024 0) 0" by (simp add: bm_bit_def)
  obtain r t where rt: "alloc_in_bitmap 2 5 s = (r, t)" by force
  note a = alloc_in_bitmap_first_fit [OF c v(1) f s(5), of 5, unfolded rt]
  have "r = Inr 0 \<and> coh t"
  proof (cases r)
    case (Inl e)
    have "int 0 < 5" by simp
    then show ?thesis using a Inl s(4) z v(2) by auto
  next
    case (Inr x)
    then obtain i where "x = int i" "\<forall>j < i. bm_bit (replicate 1024 0) j" "coh t" using a s(4) v(2) by auto
    then show ?thesis using Inr z by (cases i) auto
  qed
  then show ?thesis using c v(1) f rt by blast
qed

subsection \<open>Directory blocks\<close>

lemma dirent_size_bounds: "8 + n \<le> dirent_size n" "dirent_size n \<le> n + 11"
proof -
  have d: "dirent_size n = (n + 11) - (n + 11) mod 4"
    using and_not_mask [of "n + 11" 2] by (simp add: dirent_size_def mask_eq_exp_minus_1 add.commute)
  show "8 + n \<le> dirent_size n" "dirent_size n \<le> n + 11"
    using pos_mod_bound [of 4 "n + 11"] pos_mod_sign [of 4 "n + 11"] by (simp_all add: d)
qed

lemma le_val_take: "0 \<le> le_val (take n xs)" "le_val (take n xs) < 256 ^ n"
proof -
  have "(256 :: int) ^ length (take n xs) \<le> 256 ^ n" by (rule power_increasing) auto
  then show "0 \<le> le_val (take n xs)" "le_val (take n xs) < 256 ^ n" using le_val_bounds [of "take n xs"] by (meson order_less_le_trans)+
qed

definition entry_at :: "byte list \<Rightarrow> nat \<Rightarrow> dirent \<Rightarrow> (string \<times> int \<times> int) list" where
  "entry_at blk off d =
     (if e_ino d \<noteq> 0 then [(utf8_decode (take (nat (e_name_len d)) (drop (off + 8) blk)), e_ino d, e_type d)] else [])"

definition rec_ok :: "dirent \<Rightarrow> bool" where
  "rec_ok d \<longleftrightarrow> 8 \<le> e_rec_len d \<and> (e_ino d \<noteq> 0 \<longrightarrow> dirent_size (e_name_len d) \<le> e_rec_len d)"

text \<open>The records between two offsets form a chain and hold these entries.\<close>

inductive chain :: "byte list \<Rightarrow> nat \<Rightarrow> nat \<Rightarrow> (string \<times> int \<times> int) list \<Rightarrow> bool" for blk where
  Stop: "chain blk a a []"
| Rec: "dirent_at blk (int a) = Inr d \<Longrightarrow> rec_ok d \<Longrightarrow> chain blk (a + nat (e_rec_len d)) b es \<Longrightarrow>
    chain blk a b (entry_at blk a d @ es)"

inductive_cases chain_RecE: "chain blk a b es"

lemma chain_le: "chain blk a b es \<Longrightarrow> a \<le> b"
  by (induction rule: chain.induct) auto

lemma chain_append: "chain blk a b es \<Longrightarrow> chain blk b c fs \<Longrightarrow> chain blk a c (es @ fs)"
  by (induction rule: chain.induct) (auto intro: chain.Rec)

lemma dirent_fields:
  assumes "dirent_at blk (int a) = Inr d"
  shows "a + 8 \<le> length blk" "0 \<le> e_rec_len d" "e_rec_len d < 256 ^ 2" "0 \<le> e_name_len d" "e_name_len d < 256 ^ 1"
    "0 \<le> e_ino d" "e_ino d < 256 ^ 4" "0 \<le> e_type d" "e_type d < 256 ^ 1"
proof -
  show "a + 8 \<le> length blk" using assms by (simp add: dirent_at_def split: if_splits)
  then have d: "d = \<lparr>e_ino = le_val (take 4 (drop a blk)), e_rec_len = le_val (take 2 (drop (a + 4) blk)),
      e_name_len = le_val (take 1 (drop (a + 6) blk)), e_type = le_val (take 1 (drop (a + 7) blk))\<rparr>"
    using assms by (simp add: dirent_at_def)
  show "0 \<le> e_rec_len d" "e_rec_len d < 256 ^ 2" "0 \<le> e_name_len d" "e_name_len d < 256 ^ 1"
    "0 \<le> e_ino d" "e_ino d < 256 ^ 4" "0 \<le> e_type d" "e_type d < 256 ^ 1"
    unfolding d dirent.simps by (rule le_val_take)+
qed

lemma dirent_at_cong:
  assumes "take 8 (drop a blk') = take 8 (drop a blk)" "length blk' = length blk"
  shows "dirent_at blk' (int a) = dirent_at blk (int a)"
proof -
  have "take n (drop (a + k) blk') = take n (drop (a + k) blk)" if "k + n \<le> 8" for k n
  proof -
    have "take n (drop k (take 8 (drop a xs))) = take n (drop (a + k) xs)" for xs :: "byte list"
      using that by (simp add: drop_take min_def add.commute)
    then show ?thesis using assms(1) by metis
  qed
  from this [of 0 4] this [of 4 2] this [of 6 1] this [of 7 1] show ?thesis using assms(2) by (simp add: dirent_at_def)
qed

text \<open>A chain depends on the bytes between its offsets only.\<close>

lemma take_drop_sub:
  assumes "take n (drop a ys) = take n (drop a xs)" "a \<le> j" "j + m \<le> a + n"
  shows "take m (drop j ys) = take m (drop j xs)"
proof -
  have "take m (drop (j - a) (take n (drop a zs))) = take m (drop j zs)" for zs :: "'a list"
    using assms(2,3) by (simp add: drop_take min_def)
  then show ?thesis using assms(1) by metis
qed

lemma chain_cong:
  assumes "chain blk a b es" "take (b - a) (drop a blk') = take (b - a) (drop a blk)" "length blk' = length blk"
  shows "chain blk' a b es"
  using assms
proof (induction rule: chain.induct)
  case (Rec a d b es)
  let ?r = "nat (e_rec_len d)"
  have r: "8 \<le> ?r" "a + ?r \<le> b" using Rec(2) chain_le [OF Rec(3)] by (auto simp: rec_ok_def)
  have d: "dirent_at blk' (int a) = Inr d"
    using dirent_at_cong [of a blk' blk] take_drop_sub [OF Rec(5), of a 8] r Rec(1,6) by simp
  have "entry_at blk' a d = entry_at blk a d"
  proof (cases "e_ino d = 0")
    case False
    then have "8 + nat (e_name_len d) \<le> ?r"
      using Rec(2) dirent_size_bounds(1) [of "e_name_len d"] by (auto simp: rec_ok_def)
    then show ?thesis using take_drop_sub [OF Rec(5), of "a + 8" "nat (e_name_len d)"] r by (simp add: entry_at_def)
  qed (simp add: entry_at_def)
  moreover have "chain blk' (a + ?r) b es"
    using Rec(4) [OF take_drop_sub [OF Rec(5)] Rec(6)] r by simp
  ultimately show ?case using chain.Rec [OF d Rec(2)] by metis
qed (rule chain.Stop)

lemma chain_dir_list:
  assumes "chain blk a b es"
  shows "dir_list (int b) blk (int a) = Inr es"
  using assms
proof (induction rule: chain.induct)
  case (Rec a d b es)
  have lt: "a < b" "e_rec_len d \<noteq> 0" using chain_le [OF Rec(3)] Rec(2) by (auto simp: rec_ok_def)
  have "int (a + nat (e_rec_len d)) = int a + e_rec_len d" using Rec(2) by (simp add: rec_ok_def)
  then show ?case
    using Rec lt dirent_fields(4) [OF Rec(1)]
    by (subst dir_list.simps) (simp add: entry_at_def slice_nat nat_add_distrib)
qed (simp add: dir_list.simps)

text \<open>What a search finds in a well-formed block.\<close>

definition before_ok :: "byte list \<Rightarrow> int \<Rightarrow> nat \<Rightarrow> (string \<times> int \<times> int) list \<Rightarrow> bool" where
  "before_ok blk prev off es \<longleftrightarrow>
     prev = - 1 \<and> off = 0 \<and> es = [] \<or>
     (\<exists>k p fs. prev = int k \<and> chain blk 0 k fs \<and> dirent_at blk (int k) = Inr p \<and> rec_ok p
        \<and> k + nat (e_rec_len p) = off \<and> es = fs @ entry_at blk k p)"

lemma before_ok_chain: "before_ok blk prev off es \<Longrightarrow> chain blk 0 off es"
  by (auto simp: before_ok_def intro: chain.Stop chain_append chain.Rec [OF _ _ chain.Stop, simplified])

lemma dir_find_chain:
  assumes "chain blk a b es" "before_ok blk prev a fs" "dir_find (int b) blk P prev (int a) = Inr (Some (prev', off, d))"
  shows "\<exists>k xs ys. off = int k \<and> before_ok blk prev' k xs \<and> dirent_at blk off = Inr d \<and> rec_ok d \<and> P off d
    \<and> chain blk (k + nat (e_rec_len d)) b ys \<and> fs @ es = xs @ entry_at blk k d @ ys"
  using assms
proof (induction arbitrary: prev fs rule: chain.induct)
  case (Rec a e b es)
  have lt: "a < b" "e_rec_len e \<noteq> 0" using chain_le [OF Rec(3)] Rec(2) by (auto simp: rec_ok_def)
  have i: "int (a + nat (e_rec_len e)) = int a + e_rec_len e" using Rec(2) by (simp add: rec_ok_def)
  show ?case
  proof (cases "P (int a) e")
    case True
    then have "prev' = prev" "off = int a" "d = e" using Rec(1,6) lt by (subst (asm) dir_find.simps, simp)+
    then show ?thesis using Rec True by auto
  next
    case False
    then have "dir_find (int b) blk P (int a) (int (a + nat (e_rec_len e))) = Inr (Some (prev', off, d))"
      using Rec(1,6) lt i by (subst (asm) dir_find.simps) simp
    moreover have "before_ok blk (int a) (a + nat (e_rec_len e)) (fs @ entry_at blk a e)"
      using before_ok_chain [OF Rec(5)] Rec(1,2) by (auto simp: before_ok_def)
    ultimately show ?thesis using Rec(4) by fastforce
  qed
qed (simp add: dir_find.simps)

lemma dir_find_chain_None:
  assumes "chain blk a b es" "dir_find (int b) blk P prev (int a) = Inr None"
    "\<And>k d. dirent_at blk (int k) = Inr d \<Longrightarrow> e \<in> set (entry_at blk k d) \<Longrightarrow> P (int k) d"
  shows "e \<notin> set es"
  using assms
proof (induction arbitrary: prev rule: chain.induct)
  case (Rec a d b es)
  have lt: "a < b" "e_rec_len d \<noteq> 0" using chain_le [OF Rec(3)] Rec(2) by (auto simp: rec_ok_def)
  have i: "int (a + nat (e_rec_len d)) = int a + e_rec_len d" using Rec(2) by (simp add: rec_ok_def)
  have "\<not> P (int a) d" "dir_find (int b) blk P (int a) (int (a + nat (e_rec_len d))) = Inr None"
    using Rec(1,5) lt i by (subst (asm) dir_find.simps, simp split: if_splits)+
  then show ?case using Rec by auto
qed simp

text \<open>The bytes of a record, padded to its length.\<close>

definition rec_bytes :: "int \<Rightarrow> nat \<Rightarrow> byte list \<Rightarrow> int \<Rightarrow> byte list" where
  "rec_bytes child rl name ft = le_bytes 4 child @ le_bytes 2 (int rl) @ le_bytes 1 (int (length name)) @ le_bytes 1 ft
     @ name @ replicate (rl - 8 - length name) 0"

lemma length_rec_bytes: "8 + length name \<le> rl \<Longrightarrow> length (rec_bytes child rl name ft) = rl"
  by (simp add: rec_bytes_def)

definition put_rec :: "byte list \<Rightarrow> nat \<Rightarrow> int \<Rightarrow> nat \<Rightarrow> byte list \<Rightarrow> int \<Rightarrow> byte list" where
  "put_rec blk off child rl name ft = take off blk @ rec_bytes child rl name ft @ drop (off + rl) blk"

definition rec_fits :: "byte list \<Rightarrow> nat \<Rightarrow> int \<Rightarrow> nat \<Rightarrow> byte list \<Rightarrow> int \<Rightarrow> bool" where
  "rec_fits blk off child rl name ft \<longleftrightarrow> off + rl \<le> length blk \<and> 8 + length name \<le> rl \<and> rl < 65536 \<and> length name < 256
     \<and> 0 \<le> child \<and> child < 256 ^ 4 \<and> 0 \<le> ft \<and> ft < 256"

lemma length_put_rec: "rec_fits blk off child rl name ft \<Longrightarrow> length (put_rec blk off child rl name ft) = length blk"
  by (simp add: put_rec_def length_rec_bytes rec_fits_def)

lemma zero_map: "map (\<lambda>i. if int a \<le> int i \<and> int i < int b then 0 else xs ! i) [0..<length xs]
    = take a xs @ replicate (min b (length xs) - a) 0 @ drop (max a b) xs"
  by (rule nth_equalityI) (auto simp: nth_append min_def max_def)

definition rec_header :: "int \<Rightarrow> nat \<Rightarrow> nat \<Rightarrow> int \<Rightarrow> byte list" where
  "rec_header child rl n ft = le_bytes 4 child @ le_bytes 2 (int rl) @ le_bytes 1 (int n) @ le_bytes 1 ft"

lemma length_rec_header [simp]: "length (rec_header child rl n ft) = 8"
  by (simp add: rec_header_def)

lemma rec_bytes_header: "rec_bytes child rl name ft = rec_header child rl (length name) ft @ name @ replicate (rl - 8 - length name) 0"
  by (simp add: rec_bytes_def rec_header_def)

lemma put_entry_run:
  assumes "rec_fits blk off child rl name ft"
  shows "put_entry phys blk (int off) child (int rl) name ft s =
    write_block phys (put_rec blk off child rl name ft) (s\<lparr>x_cache := (x_cache s)(phys \<mapsto> put_rec blk off child rl name ft)\<rparr>)"
proof -
  let ?h = "rec_header child rl (length name) ft"
  let ?b1 = "take off blk @ ?h @ drop (off + 8) blk"
  let ?b2 = "take off blk @ ?h @ name @ drop (off + 8 + length name) blk"
  have f: "off + rl \<le> length blk" "8 + length name \<le> rl" using assms by (auto simp: rec_fits_def)
  have put: "dirent_put blk (int off) \<lparr>e_ino = child, e_rec_len = int rl, e_name_len = int (length name), e_type = ft\<rparr> = Inr ?b1"
    using assms by (simp add: dirent_put_def rec_fits_def rec_header_def)
  have sl: "slice_assign ?b1 (int off + 8) (int off + 8 + int (length name)) name = ?b2"
    using f by (subst slice_assign_nat) (auto simp: nat_add_distrib min_def add.commute add.left_commute)
  have z: "map (\<lambda>i. if int (off + 8 + length name) \<le> int i \<and> int i < int (off + rl) then 0 else ?b2 ! i) [0..<length ?b2]
      = put_rec blk off child rl name ft"
    unfolding zero_map using f by (simp add: put_rec_def rec_bytes_header min_def max_def add.commute)
  have e: "int off + 8 + int (length name) = int (off + 8 + length name)" "int off + int rl = int (off + rl)" by simp_all
  have l: "\<not> int (off + rl) > int (length ?b2)" using f by simp
  have zr: "zero_range phys ?b2 (int off + 8 + int (length name)) (int off + int rl) w
      = (Inr (put_rec blk off child rl name ft), w\<lparr>x_cache := (x_cache w)(phys \<mapsto> put_rec blk off child rl name ft)\<rparr>)" for w
    unfolding zero_range_def Let_def e z using l by (simp add: cache_put_def bind_def)
  show ?thesis
    unfolding put_entry_def put Let_def bind_def lift_res_apply by (simp add: sl cache_put_def zr)
qed

lemma put_rec_segments:
  assumes "rec_fits blk off child rl name ft"
  shows "take off (put_rec blk off child rl name ft) = take off blk"
    "take rl (drop off (put_rec blk off child rl name ft)) = rec_bytes child rl name ft"
    "drop (off + rl) (put_rec blk off child rl name ft) = drop (off + rl) blk"
  using assms length_rec_bytes [of name rl child ft] by (auto simp: put_rec_def rec_fits_def)

lemma put_rec_sub:
  assumes "rec_fits blk off child rl name ft" "j + m \<le> rl"
  shows "take m (drop (off + j) (put_rec blk off child rl name ft)) = take m (drop j (rec_bytes child rl name ft))"
  using put_rec_segments(2) [OF assms(1)] assms length_rec_bytes [of name rl child ft]
    take_drop_sub [of rl 0 "drop off (put_rec blk off child rl name ft)" "rec_bytes child rl name ft" j m]
  by (simp add: rec_fits_def add.commute)

lemma put_rec_dirent:
  assumes "rec_fits blk off child rl name ft"
  shows "dirent_at (put_rec blk off child rl name ft) (int off)
    = Inr \<lparr>e_ino = child, e_rec_len = int rl, e_name_len = int (length name), e_type = ft\<rparr>"
proof -
  let ?b = "put_rec blk off child rl name ft"
  note f = assms [unfolded rec_fits_def] and seg = put_rec_sub [OF assms]
  have sf: "take 4 (drop off ?b) = le_bytes 4 child" "take 2 (drop (off + 4) ?b) = le_bytes 2 (int rl)"
    "take 1 (drop (off + 6) ?b) = le_bytes 1 (int (length name))" "take 1 (drop (off + 7) ?b) = le_bytes 1 ft"
    using seg [of 0 4] seg [of 4 2] seg [of 6 1] seg [of 7 1] f by (simp_all add: rec_bytes_def)
  have so: "struct_offset 8 ?b (int off) = Some off" using f length_put_rec [OF assms] by simp
  have v: "le_val (le_bytes 4 child) = child" "le_val (le_bytes 2 (int rl)) = int rl"
    "le_val (le_bytes 1 (int (length name))) = int (length name)" "le_val (le_bytes 1 ft) = ft"
    using f by (simp_all add: le_val_bytes del: le_bytes.simps One_nat_def)
  show ?thesis by (simp only: dirent_at_def so option.case sf v)
qed

lemma rec_bytes_dirent:
  assumes "rec_fits blk off child rl name ft" "child \<noteq> 0" "dirent_size (int (length name)) \<le> int rl"
  shows "chain (put_rec blk off child rl name ft) off (off + rl) [(utf8_decode name, child, ft)]"
proof -
  let ?b = "put_rec blk off child rl name ft"
  let ?d = "\<lparr>e_ino = child, e_rec_len = int rl, e_name_len = int (length name), e_type = ft\<rparr>"
  have n: "take (length name) (drop (off + 8) ?b) = name"
    using put_rec_sub [OF assms(1), of 8 "length name"] assms(1) by (simp add: rec_bytes_def rec_fits_def)
  have "rec_ok ?d" using assms(1,3) by (simp add: rec_ok_def rec_fits_def)
  from chain.Rec [OF put_rec_dirent [OF assms(1)] this, of "off + rl" "[]"] show ?thesis
    using assms(2) n by (simp add: entry_at_def chain.Stop)
qed

text \<open>A record put into the room of an unused one, or after a shortened one, adds just its entry.\<close>

lemma chain_put_rec:
  assumes "chain blk 0 off xs" "chain blk (off + rl) b ys" "b = length blk"
    "rec_fits blk off child rl name ft" "child \<noteq> 0" "dirent_size (int (length name)) \<le> int rl"
  shows "chain (put_rec blk off child rl name ft) 0 b (xs @ (utf8_decode name, child, ft) # ys)"
proof -
  let ?b = "put_rec blk off child rl name ft"
  note seg = put_rec_segments [OF assms(4)]
  have "chain ?b 0 off xs" using chain_cong [OF assms(1)] seg(1) length_put_rec [OF assms(4)] by simp
  moreover have "chain ?b (off + rl) b ys" using chain_cong [OF assms(2)] seg(3) length_put_rec [OF assms(4)] by simp
  ultimately show ?thesis using chain_append chain_append [OF rec_bytes_dirent [OF assms(4-6)]] by fastforce
qed

text \<open>Changing the length of a record in place.\<close>

lemma chain_resize:
  assumes "dirent_at blk (int off) = Inr d" "8 \<le> v" "e_ino d \<noteq> 0 \<Longrightarrow> dirent_size (e_name_len d) \<le> v"
    "pack_le_into 2 blk (int off + 4) v = Inr blk'"
  shows "chain blk' off (off + nat v) (entry_at blk off d)"
    "take off blk' = take off blk" "drop (off + 8) blk' = drop (off + 8) blk" "length blk' = length blk"
proof -
  have p: "blk' = take (off + 4) blk @ le_bytes 2 v @ drop (off + 6) blk" "v < 256 ^ 2" "off + 6 \<le> length blk"
    using assms(4) struct_offset_nat [of 2 blk "off + 4"] by (auto simp: pack_le_into_def add.commute split: if_splits)
  show seg: "take off blk' = take off blk" "drop (off + 8) blk' = drop (off + 8) blk" "length blk' = length blk"
    using p dirent_fields(1) [OF assms(1)] by (simp_all add: p(1) add.commute)
  have "take 4 (drop off blk') = take 4 (drop off blk)" "take 2 (drop (off + 4) blk') = le_bytes 2 v"
    "take 1 (drop (off + 6) blk') = take 1 (drop (off + 6) blk)" "take 1 (drop (off + 7) blk') = take 1 (drop (off + 7) blk)"
    using p(3) dirent_fields(1) [OF assms(1)] by (simp_all add: p(1) drop_take add.commute)
  then have d: "dirent_at blk' (int off) = Inr (d\<lparr>e_rec_len := v\<rparr>)"
    using assms(1,2) seg(3) p(2) by (auto simp: dirent_at_def le_val_bytes split: if_splits)
  have "rec_ok (d\<lparr>e_rec_len := v\<rparr>)" using assms(2,3) by (simp add: rec_ok_def)
  from chain.Rec [OF d this, of "off + nat v" "[]"] show "chain blk' off (off + nat v) (entry_at blk off d)"
    using seg(2) by (cases "e_ino d = 0") (simp_all add: entry_at_def chain.Stop)
qed

lemma write_block_run:
  assumes "coh_except b s" "valid_block s b" "int (length data) = x_block_size s" "\<not> d_readonly (x_dev s)"
  obtains t where "write_block b data s = (Inr (), t)" "coh t"
    "\<And>b'. valid_block s b' \<Longrightarrow> blk_at t b' = (if b' = b then data else blk_at s b')"
proof -
  have g: "geo s" using assms(1) by (simp add: coh_except_def)
  obtain t where t: "write_block b data s = (Inr (), t)" using write_block_ok [OF g assms(2-4)] by blast
  then show ?thesis using that write_block_coh [OF assms(1) t] write_block_blk_at [OF g t] by blast
qed

lemma split_entry_run:
  assumes d: "dirent_at blk (int off) = Inr d" "rec_ok d" "slack_ok (dirent_size (int (length name))) (int off) d"
    and c: "chain blk 0 off xs" "chain blk (off + nat (e_rec_len d)) (length blk) ys"
    and v: "0 < child" "child < 256 ^ 4" "0 \<le> ft" "ft < 256" "length name < 256"
  obtains blk' c' where "\<And>s. split_entry phys blk (int off) d child name ft s = write_block phys blk' (s\<lparr>x_cache := c' s\<rparr>)"
    "\<And>s. \<exists>x y. c' s = (x_cache s)(phys := x, phys := y)" "length blk' = length blk"
    "chain blk' 0 (length blk) (xs @ entry_at blk off d @ (utf8_decode name, child, ft) # ys)"
proof (cases "e_ino d = 0")
  case True
  let ?rl = "nat (e_rec_len d)"
  have fits: "rec_fits blk off child ?rl name ft" "dirent_size (int (length name)) \<le> int ?rl"
    using d v True chain_le [OF c(2)] dirent_fields(2,3) [OF d(1)] dirent_size_bounds(1) [of "int (length name)"]
    by (auto simp: rec_fits_def slack_ok_def)
  have i: "int ?rl = e_rec_len d" using dirent_fields(2) [OF d(1)] by simp
  show ?thesis
  proof (rule that)
    show "split_entry phys blk (int off) d child name ft s = write_block phys (put_rec blk off child ?rl name ft)
        (s\<lparr>x_cache := (x_cache s)(phys \<mapsto> put_rec blk off child ?rl name ft)\<rparr>)" for s
      using True put_entry_run [OF fits(1)] i by (simp add: split_entry_def)
    show "length (put_rec blk off child ?rl name ft) = length blk" by (rule length_put_rec [OF fits(1)])
    show "chain (put_rec blk off child ?rl name ft) 0 (length blk) (xs @ entry_at blk off d @ (utf8_decode name, child, ft) # ys)"
      using chain_put_rec [OF c(1,2) refl fits(1) _ fits(2)] v(1) True by (simp add: entry_at_def)
  qed auto
next
  case False
  let ?a = "dirent_size (e_name_len d)" and ?rl = "nat (e_rec_len d - dirent_size (e_name_len d))"
  have a: "0 \<le> ?a" "?a < 256 ^ 2" "?a \<le> e_rec_len d" "8 \<le> ?a"
    using d(2) False dirent_fields(3,4) [OF d(1)] dirent_size_bounds(1) [of "e_name_len d"] by (auto simp: rec_ok_def)
  have le: "off + nat (e_rec_len d) \<le> length blk" using chain_le [OF c(2)] .
  obtain blk1 where b1: "pack_le_into 2 blk (int off + 4) ?a = Inr blk1"
    using a dirent_fields(1) [OF d(1)] struct_offset_nat [of 2 blk "off + 4"] by (auto simp: pack_le_into_def)
  note sh = chain_resize [OF d(1) a(4) order_refl b1]
  have off: "off + nat ?a + ?rl = off + nat (e_rec_len d)" "int (off + nat ?a) = int off + ?a" "int ?rl = e_rec_len d - ?a"
    using a by auto
  have fits: "rec_fits blk1 (off + nat ?a) child ?rl name ft" "dirent_size (int (length name)) \<le> int ?rl"
    using d(3) v False le off sh(4) dirent_fields(3) [OF d(1)] a dirent_size_bounds(1) [of "int (length name)"]
    by (auto simp: rec_fits_def slack_ok_def)
  have seg: "drop k blk1 = drop k blk" if "off + 8 \<le> k" for k
    using sh(3) that by (metis drop_drop le_add_diff_inverse2)
  have "chain blk1 0 off xs" using chain_cong [OF c(1)] sh(2,4) by simp
  then have c1: "chain blk1 0 (off + nat ?a) (xs @ entry_at blk off d)" using chain_append sh(1) by blast
  have c2: "chain blk1 (off + nat ?a + ?rl) (length blk1) ys"
    using chain_cong [OF c(2), of blk1] seg [of "off + nat (e_rec_len d)"] sh(4) a(3,4) by (simp add: off(1))
  let ?b = "put_rec blk1 (off + nat ?a) child ?rl name ft"
  show ?thesis
  proof (rule that)
    show "split_entry phys blk (int off) d child name ft s = write_block phys ?b
        (s\<lparr>x_cache := (x_cache s)(phys \<mapsto> blk1, phys \<mapsto> ?b)\<rparr>)" for s
      using False b1 put_entry_run [OF fits(1)] off(2,3) by (simp add: split_entry_def Let_def bind_def cache_put_def)
    show "length ?b = length blk" using length_put_rec [OF fits(1)] sh(4) by simp
    show "chain ?b 0 (length blk) (xs @ entry_at blk off d @ (utf8_decode name, child, ft) # ys)"
      using chain_put_rec [OF c1 c2 refl fits(1) _ fits(2)] v(1) sh(4) by simp
  qed auto
qed

lemma find_entry_insert:
  "find_entry name (xs @ ys) = None \<Longrightarrow>
     find_entry n (xs @ (name, e) # ys) = (if n = name then Some e else find_entry n (xs @ ys))"
  by (induction xs) (auto split: if_splits)

text \<open>
  C23. Adding a name to a well-formed directory block inserts exactly one entry: the record is split
  at the first one with enough room, the block is written, its records still form a chain over the
  whole block, the listing gains the new entry at that place and keeps all others in order, and no
  other block of the device changes. If the name was not in the block before, which \<open>create\<close>
  checks first, looking it up there now gives the new inode, and every other name is found as before.
\<close>

theorem dir_block_add:
  assumes "coh s" "valid_block s phys" "\<not> d_readonly (x_dev s)"
    and blk: "blk = blk_at s phys" "chain blk 0 (length blk) es"
    and find: "dir_find (x_block_size s) blk (slack_ok (dirent_size (int (length (utf8_encode name))))) (- 1) 0
      = Inr (Some (prev, off, d))"
    and v: "0 < child" "child < 256 ^ 4" "0 \<le> ft" "ft < 256" "length (utf8_encode name) < 256"
  shows "\<exists>t xs ys. split_entry phys blk off d child (utf8_encode name) ft s = (Inr (), t) \<and> coh t
    \<and> es = xs @ ys \<and> chain (blk_at t phys) 0 (length blk) (xs @ (name, child, ft) # ys)
    \<and> dir_list (x_block_size s) (blk_at t phys) 0 = Inr (xs @ (name, child, ft) # ys)
    \<and> (find_entry name es = None \<longrightarrow>
         (\<forall>n. find_entry n (xs @ (name, child, ft) # ys) = (if n = name then Some (child, ft) else find_entry n es)))
    \<and> (\<forall>b'. valid_block s b' \<longrightarrow> b' \<noteq> phys \<longrightarrow> blk_at t b' = blk_at s b')"
proof -
  have bs: "x_block_size s = int (length blk)" using assms(1,2) length_blk_at blk(1) by (auto simp: coh_def)
  have b0: "before_ok blk (- 1) 0 []" by (simp add: before_ok_def)
  have f: "dir_find (int (length blk)) blk (slack_ok (dirent_size (int (length (utf8_encode name))))) (- 1) (int 0)
      = Inr (Some (prev, off, d))" using find bs by simp
  from dir_find_chain [OF blk(2) b0 f]
  obtain k xs ys where k: "off = int k" "before_ok blk prev k xs" "dirent_at blk off = Inr d" "rec_ok d"
    "slack_ok (dirent_size (int (length (utf8_encode name)))) off d"
    "chain blk (k + nat (e_rec_len d)) (length blk) ys" "es = xs @ entry_at blk k d @ ys"
    by auto
  obtain blk' c' where w: "\<And>s. split_entry phys blk (int k) d child (utf8_encode name) ft s = write_block phys blk' (s\<lparr>x_cache := c' s\<rparr>)"
    "\<And>s. \<exists>x y. c' s = (x_cache s)(phys := x, phys := y)" "length blk' = length blk"
    "chain blk' 0 (length blk) (xs @ entry_at blk k d @ (utf8_decode (utf8_encode name), child, ft) # ys)"
    by (rule split_entry_run [OF k(3) [unfolded k(1)] k(4) k(5) [unfolded k(1)] before_ok_chain [OF k(2)] k(6) v, where phys = phys])
      (rule that)
  let ?s = "s\<lparr>x_cache := c' s\<rparr>"
  have p: "coh_except phys ?s" "valid_block ?s phys" "int (length blk') = x_block_size ?s" "\<not> d_readonly (x_dev ?s)"
    using assms(1-3) w(2) [of s] w(3) bs by (auto simp: coh_except_def coh_def)
  obtain t where t: "write_block phys blk' ?s = (Inr (), t)" "coh t"
    "\<And>b'. valid_block ?s b' \<Longrightarrow> blk_at t b' = (if b' = phys then blk' else blk_at ?s b')"
    by (rule write_block_run [OF p]) (rule that)
  have ch: "chain (blk_at t phys) 0 (length blk) ((xs @ entry_at blk k d) @ (name, child, ft) # ys)"
    using w(4) t(3) [of phys] assms(2) by (simp add: utf8_decode_encode)
  have o: "\<forall>b'. valid_block s b' \<longrightarrow> b' \<noteq> phys \<longrightarrow> blk_at t b' = blk_at s b'" using t(3) by simp
  have "find_entry name es = None \<longrightarrow> (\<forall>n. find_entry n ((xs @ entry_at blk k d) @ (name, child, ft) # ys)
      = (if n = name then Some (child, ft) else find_entry n es))"
    using find_entry_insert [of name "xs @ entry_at blk k d" ys] k(7) by simp
  then show ?thesis
    using w(1) [of s] t(1,2) ch chain_dir_list [OF ch] bs k(1,7) o
    by (intro exI [of _ t] exI [of _ "xs @ entry_at blk k d"] exI [of _ ys]) simp
qed

subsection \<open>Removing a name\<close>

lemma dirent_name_entry:
  assumes "dirent_at blk (int k) = Inr d" "name_matches blk nb (int k) d"
  shows "entry_at blk k d = [(utf8_decode nb, e_ino d, e_type d)]"
proof -
  have "slice blk (int k + 8) (int k + 8 + int (length nb)) = take (length nb) (drop (k + 8) blk)"
    by (simp add: slice_nat nat_add_distrib)
  then show ?thesis using assms(2) by (auto simp: name_matches_def entry_at_def)
qed

lemma drop_eq_mono: "drop a ys = drop a xs \<Longrightarrow> a \<le> b \<Longrightarrow> drop b ys = drop b xs"
  by (metis drop_drop le_add_diff_inverse2)

lemma chain_clear:
  assumes "dirent_at blk 0 = Inr d" "rec_ok d" "pack_le_into 4 blk 0 0 = Inr blk'"
  shows "chain blk' 0 (nat (e_rec_len d)) []" "drop 8 blk' = drop 8 blk" "length blk' = length blk"
proof -
  have p: "blk' = le_bytes 4 0 @ drop 4 blk" "8 \<le> length blk"
    using assms(3) dirent_fields(1) [of blk 0 d] assms(1) by (auto simp: pack_le_into_def struct_offset_def split: if_splits)
  show seg: "drop 8 blk' = drop 8 blk" "length blk' = length blk" using p by simp_all
  have "dirent_at blk' (int 0) = Inr (d\<lparr>e_ino := 0\<rparr>)"
    using assms(1) p seg(2) by (auto simp: dirent_at_def struct_offset_def le_val_bytes split: if_splits)
  from chain.Rec [OF this, of "nat (e_rec_len d)" "[]"] show "chain blk' 0 (nat (e_rec_len d)) []"
    using assms(2) by (simp add: rec_ok_def entry_at_def chain.Stop)
qed

lemma unlink_entry_chain:
  assumes k: "before_ok blk prev k xs" "dirent_at blk (int k) = Inr d" "rec_ok d"
    "chain blk (k + nat (e_rec_len d)) (length blk) ys" "length blk < 65536"
  shows "\<exists>blk'. unlink_entry blk prev (int k) d = Inr blk' \<and> length blk' = length blk \<and> chain blk' 0 (length blk) (xs @ ys)"
proof -
  have le: "k + nat (e_rec_len d) \<le> length blk" "8 \<le> e_rec_len d" using chain_le [OF k(4)] k(3) by (auto simp: rec_ok_def)
  show ?thesis
  proof (cases "prev = - 1")
    case True
    then have k0: "k = 0" "xs = []" using k(1) by (auto simp: before_ok_def)
    obtain blk' where b: "pack_le_into 4 blk 0 0 = Inr blk'"
      using dirent_fields(1) [OF k(2)] by (auto simp: pack_le_into_def struct_offset_def)
    note cl = chain_clear [OF k(2) [unfolded k0, simplified] k(3) b]
    have "drop (nat (e_rec_len d)) blk' = drop (nat (e_rec_len d)) blk"
      using drop_eq_mono [OF cl(2), of "nat (e_rec_len d)"] le(2) by simp
    then have "chain blk' (nat (e_rec_len d)) (length blk) ys" using chain_cong [OF k(4)] k0 cl(3) by simp
    then have "chain blk' 0 (length blk) ys" using chain_append [OF cl(1)] by simp
    then show ?thesis using True b k0 cl(3) by (simp add: unlink_entry_def)
  next
    case False
    then obtain j p fs where j: "prev = int j" "chain blk 0 j fs" "dirent_at blk (int j) = Inr p" "rec_ok p"
      "j + nat (e_rec_len p) = k" "xs = fs @ entry_at blk j p"
      using k(1) by (auto simp: before_ok_def)
    let ?v = "e_rec_len p + e_rec_len d"
    have p8: "8 \<le> e_rec_len p" "e_ino p \<noteq> 0 \<Longrightarrow> dirent_size (e_name_len p) \<le> e_rec_len p" using j(4) by (auto simp: rec_ok_def)
    have v: "8 \<le> ?v" "?v < 256 ^ 2" "e_ino p \<noteq> 0 \<Longrightarrow> dirent_size (e_name_len p) \<le> ?v" "j + nat ?v = k + nat (e_rec_len d)"
      using p8 le j(5) k(5) by auto
    obtain blk' where b: "pack_le_into 2 blk (int j + 4) ?v = Inr blk'"
      using v dirent_fields(1) [OF j(3)] struct_offset_nat [of 2 blk "j + 4"] by (auto simp: pack_le_into_def)
    note rs = chain_resize [OF j(3) v(1,3) b]
    have "drop (j + nat ?v) blk' = drop (j + nat ?v) blk"
      using drop_eq_mono [OF rs(3), of "j + nat ?v"] v(1) by simp
    then have "chain blk' (j + nat ?v) (length blk) ys" using chain_cong [OF k(4)] v(4) rs(4) by simp
    moreover have "chain blk' 0 j fs" using chain_cong [OF j(2)] rs(2,4) by simp
    ultimately have "chain blk' 0 (length blk) (xs @ ys)"
      using chain_append [OF chain_append [OF _ rs(1)]] j(6) by blast
    then show ?thesis using j(1,3) b rs(4) by (simp add: unlink_entry_def)
  qed
qed

text \<open>
  C24. Removing a name from a well-formed directory block removes exactly its entry: the record is
  merged into the one before it, or marked unused when it is the first, the records still form a
  chain over the block, the listing loses that entry and keeps all others in order, and the inode
  number and type of the removed entry are those the listing had for the name.
\<close>

theorem dir_block_remove:
  assumes blk: "chain blk 0 (length blk) es" "length blk < 65536"
    and find: "dir_find (int (length blk)) blk (name_matches blk (utf8_encode name)) (- 1) 0 = Inr (Some (prev, off, d))"
  shows "\<exists>blk' xs ys. unlink_entry blk prev off d = Inr blk' \<and> length blk' = length blk
    \<and> es = xs @ (name, e_ino d, e_type d) # ys \<and> chain blk' 0 (length blk) (xs @ ys)
    \<and> dir_list (int (length blk)) blk' 0 = Inr (xs @ ys)"
proof -
  have b0: "before_ok blk (- 1) 0 []" by (simp add: before_ok_def)
  have f: "dir_find (int (length blk)) blk (name_matches blk (utf8_encode name)) (- 1) (int 0) = Inr (Some (prev, off, d))"
    using find by simp
  from dir_find_chain [OF blk(1) b0 f]
  obtain k xs ys where k: "off = int k" "before_ok blk prev k xs" "dirent_at blk (int k) = Inr d" "rec_ok d"
    "name_matches blk (utf8_encode name) (int k) d"
    "chain blk (k + nat (e_rec_len d)) (length blk) ys" "es = xs @ entry_at blk k d @ ys"
    by auto
  have es: "es = xs @ (name, e_ino d, e_type d) # ys"
    using k(7) dirent_name_entry [OF k(3,5)] by (simp add: utf8_decode_encode)
  obtain blk' where b: "unlink_entry blk prev off d = Inr blk'" "length blk' = length blk"
    "chain blk' 0 (length blk) (xs @ ys)" using unlink_entry_chain [OF k(2-4,6) blk(2)] k(1) by blast
  show ?thesis using es b chain_dir_list [OF b(3)] by auto
qed

text \<open>A directory block with the single entry \<^verbatim>\<open>.\<close>.\<close>

definition dot_block :: "byte list" where
  "dot_block = rec_bytes 2 512 (utf8_encode ''.'') 2"

lemma dot_encode: "utf8_encode ''.'' = [46]"
  by (simp add: utf8_encode_def utf8_char_def of_char_def)

lemma dot_block_facts:
  "length dot_block = 512" "chain dot_block 0 512 [(''.'', 2, 2)]"
  "dirent_at dot_block 0 = Inr \<lparr>e_ino = 2, e_rec_len = 512, e_name_len = 1, e_type = 2\<rparr>"
proof -
  have p: "put_rec (replicate 512 0) 0 2 512 (utf8_encode ''.'') 2 = dot_block" by (simp add: put_rec_def dot_block_def)
  show "length dot_block = 512" by (simp add: dot_block_def length_rec_bytes dot_encode)
  have f: "rec_fits (replicate 512 0) 0 2 512 (utf8_encode ''.'') 2" by (simp add: rec_fits_def dot_encode)
  have "dirent_size 1 \<le> 512" using dirent_size_bounds(2) [of 1] by simp
  then show "chain dot_block 0 512 [(''.'', 2, 2)]"
    using rec_bytes_dirent [OF f] by (simp add: p utf8_decode_encode) (simp add: dot_encode)
  show "dirent_at dot_block 0 = Inr \<lparr>e_ino = 2, e_rec_len = 512, e_name_len = 1, e_type = 2\<rparr>"
    using put_rec_dirent [OF f] by (simp add: p) (simp add: dot_encode)
qed

theorem dir_block_remove_witness:
  "\<exists>blk'. unlink_entry dot_block (- 1) 0 \<lparr>e_ino = 2, e_rec_len = 512, e_name_len = 1, e_type = 2\<rparr> = Inr blk'
     \<and> dir_list 512 blk' 0 = Inr []"
proof -
  note d = dot_block_facts
  have "dir_find (int (length dot_block)) dot_block (name_matches dot_block (utf8_encode ''.'')) (- 1) 0
      = Inr (Some (- 1, 0, \<lparr>e_ino = 2, e_rec_len = 512, e_name_len = 1, e_type = 2\<rparr>))"
    by (subst dir_find.simps) (simp add: d(1,3) name_matches_def dot_encode slice_nat,
      simp add: dot_block_def rec_bytes_def dot_encode eval_nat_numeral)
  from dir_block_remove [OF _ _ this, of "[(''.'', 2, 2)]"] d(1,2) show ?thesis by (auto simp: Cons_eq_append_conv)
qed

theorem dir_block_add_witness:
  "\<exists>s t. blk_at s 0 = dot_block \<and> split_entry 0 dot_block 0 \<lparr>e_ino = 2, e_rec_len = 512, e_name_len = 1, e_type = 2\<rparr>
       7 (utf8_encode ''a'') 1 s = (Inr (), t)
     \<and> (\<exists>es. dir_list 512 (blk_at t 0) 0 = Inr es \<and> find_entry ''a'' es = Some (7, 1) \<and> find_entry ''.'' es = Some (2, 2))"
proof -
  note d = dot_block_facts
  let ?s = "(ext2_new \<lparr>d_sectors = [dot_block], d_readonly = False\<rparr>)\<lparr>x_block_size := 512, x_sectors_per_block := 1\<rparr>"
  have c: "coh ?s" by (simp add: coh_def geo_def ext2_new_def d(1))
  have v: "valid_block ?s 0" by (simp add: valid_block_def ext2_new_def num_sectors_def)
  have b: "dot_block = blk_at ?s 0" by (simp add: blk_at_def ext2_new_def)
  have ch: "chain dot_block 0 (length dot_block) [(''.'', 2, 2)]" using d(1,2) by simp
  have e: "utf8_encode ''a'' = [97]" by (simp add: utf8_encode_def utf8_char_def of_char_def)
  have "dirent_size 1 \<le> 12" using dirent_size_bounds(2) [of 1] by simp
  then have f: "dir_find (x_block_size ?s) dot_block (slack_ok (dirent_size (int (length (utf8_encode ''a''))))) (- 1) 0
      = Inr (Some (- 1, 0, \<lparr>e_ino = 2, e_rec_len = 512, e_name_len = 1, e_type = 2\<rparr>))"
    by (subst dir_find.simps) (simp add: d(3) slack_ok_def e)
  have w: "\<not> d_readonly (x_dev ?s)" "length (utf8_encode ''a'') < 256" by (simp_all add: ext2_new_def e)
  obtain t xs ys where "split_entry 0 dot_block 0 \<lparr>e_ino = 2, e_rec_len = 512, e_name_len = 1, e_type = 2\<rparr>
      7 (utf8_encode ''a'') 1 ?s = (Inr (), t)" "dir_list (x_block_size ?s) (blk_at t 0) 0 = Inr (xs @ (''a'', 7, 1) # ys)"
      "\<forall>n. find_entry n (xs @ (''a'', 7, 1) # ys) = (if n = ''a'' then Some (7, 1) else find_entry n [(''.'', 2, 2)])"
    using dir_block_add [OF c v w(1) b ch f _ _ _ _ w(2), of 7 1] by auto
  then show ?thesis using b by (intro exI [of _ ?s] exI [of _ t]) simp
qed

subsection \<open>The superblock on disk\<close>

text \<open>Everything but the counters is what parsing the raw superblock gives.\<close>

definition sb_mirror :: "Superblock \<Rightarrow> bool" where
  "sb_mirror sb \<longleftrightarrow> length (sb_raw sb) = 1024 \<and>
     (\<exists>fb fi. sb_parse (sb_raw sb) () = (Inr (sb\<lparr>free_blocks_count := fb, free_inodes_count := fi\<rparr>), ()))"

lemma sb_mirror_counters [simp]: "sb_mirror (sb\<lparr>free_blocks_count := a\<rparr>) = sb_mirror sb"
    "sb_mirror (sb\<lparr>free_inodes_count := b\<rparr>) = sb_mirror sb"
  by (simp_all add: sb_mirror_def)

lemma sb_parse_mirror: "sb_parse blob () = (Inr sb, ()) \<Longrightarrow> sb_raw sb = blob \<Longrightarrow> length blob = 1024 \<Longrightarrow> sb_mirror sb"
  unfolding sb_mirror_def by (intro conjI exI [of _ "free_blocks_count sb"] exI [of _ "free_inodes_count sb"]) simp_all

lemma sb_parse_counters:
  assumes "sb_parse raw () = (Inr sb, ())" "pack_le_into 4 raw 12 a = Inr raw1" "pack_le_into 4 raw1 16 b = Inr raw2"
  shows "sb_parse raw2 w = (Inr (sb\<lparr>free_blocks_count := a, free_inodes_count := b, sb_raw := raw2\<rparr>), w)"
proof -
  have o: "unpack_le_from n raw2 (int k) = unpack_le_from n raw (int k)" if "k + n \<le> 12 \<or> 20 \<le> k" for n k
    using unpack_pack_other [of 4 raw 12 a raw1 k n] unpack_pack_other [of 4 raw1 16 b raw2 k n] assms(2,3) that by auto
  have c: "unpack_le_from 4 raw2 12 = Inr a" "unpack_le_from 4 raw2 16 = Inr b"
    using unpack_pack_le_into [OF assms(2)] unpack_pack_le_into [OF assms(3)]
      unpack_pack_other [of 4 raw1 16 b raw2 12 4] assms(3) by auto
  show ?thesis
    using assms(1) o [of 0 4] o [of 4 4] o [of 20 4] o [of 24 4] o [of 32 4] o [of 40 4] o [of 56 2] o [of 76 4]
      o [of 84 4] o [of 88 2] o [of 92 4] o [of 96 4] o [of 100 4]
    by (auto simp: sb_parse_def bind_def c split: sum.splits if_splits)
qed

text \<open>
  C25. Flushing the superblock is durable: after it the two superblock sectors of the device parse to
  the superblock in memory, free-block and free-inode counters included.
\<close>

theorem flush_superblock_durable:
  assumes "sb_mirror (x_sb s)" "flush_superblock s = (Inr (), t)"
  shows "sb_parse (sectors t ! 2 @ sectors t ! 3) w = (Inr (x_sb t), w) \<and> sb_mirror (x_sb t)
    \<and> free_blocks_count (x_sb t) = free_blocks_count (x_sb s) \<and> free_inodes_count (x_sb t) = free_inodes_count (x_sb s)"
proof -
  let ?sb = "x_sb s"
  obtain raw1 raw2 s2 s3 where r: "pack_le_into 4 (sb_raw ?sb) 12 (free_blocks_count ?sb) = Inr raw1"
    "pack_le_into 4 raw1 16 (free_inodes_count ?sb) = Inr raw2"
    "s2 = s\<lparr>x_sb := ?sb\<lparr>sb_raw := raw2\<rparr>\<rparr>"
    "write_sector 2 (slice raw2 0 512) s2 = (Inr (), s3)" "write_sector 3 (slice raw2 512 1024) s3 = (Inr (), t)"
    using assms(2) unfolding flush_superblock_def serialize_counters_def set_raw_def
    by (elim bind_eq_InrE) (auto split: sum.splits)
  have l: "length raw2 = 1024"
    using assms(1) pack_le_into_length [OF r(1)] pack_le_into_length [OF r(2)] by (simp add: sb_mirror_def)
  note w2 = write_sector_run [OF r(4)] and w3 = write_sector_run [OF r(5)]
  have x: "x_sb t = ?sb\<lparr>sb_raw := raw2\<rparr>" using w2(1) w3(1) r(3) by simp
  have "sectors t ! 2 = slice raw2 0 512" "sectors t ! 3 = slice raw2 512 1024"
    using w2(1,4) w3(1,4) r(3) by (simp_all add: num_sectors_def)
  moreover have "slice raw2 0 512 @ slice raw2 512 1024 = raw2"
    using l by (simp add: slice_nat)
  ultimately have "sectors t ! 2 @ sectors t ! 3 = raw2" by simp
  moreover obtain fb fi where "sb_parse (sb_raw ?sb) () = (Inr (?sb\<lparr>free_blocks_count := fb, free_inodes_count := fi\<rparr>), ())"
    using assms(1) by (auto simp: sb_mirror_def)
  note p = sb_parse_counters [OF this r(1,2)]
  have "sb_mirror (x_sb t)" by (rule sb_parse_mirror [of raw2]) (use p [of "()"] l x in simp_all)
  ultimately show ?thesis using p [of w] x by simp
qed

lemma flush_superblock_ok:
  assumes "length (sb_raw (x_sb s)) = 1024" "0 \<le> free_blocks_count (x_sb s)" "free_blocks_count (x_sb s) < 2 ^ 32"
    "0 \<le> free_inodes_count (x_sb s)" "free_inodes_count (x_sb s) < 2 ^ 32" "\<not> d_readonly (x_dev s)" "4 \<le> num_sectors (x_dev s)"
  obtains t where "flush_superblock s = (Inr (), t)"
  using assms
  by (simp add: flush_superblock_def serialize_counters_def set_raw_def bind_def pack_le_into_def struct_offset_def write_sector_def
      slice_nat SECTOR_SIZE_def num_sectors_def)

theorem flush_superblock_durable_witness:
  "\<exists>s t. sb_mirror (x_sb s) \<and> free_blocks_count (x_sb s) = 2 \<and> flush_superblock s = (Inr (), t) \<and>
     sb_parse (sectors t ! 2 @ sectors t ! 3) () = (Inr (x_sb t), ()) \<and> free_blocks_count (x_sb t) = 2"
proof -
  let ?sb = "\<lparr>inodes_count = 16, blocks_count = 8, free_blocks_count = 2, free_inodes_count = 5, first_data_block = 1,
    log_block_size = 0, blocks_per_group = 8192, inodes_per_group = 16, rev_level = 0, first_ino = 11, inode_size = 128,
    feature_compat = 0, feature_incompat = 0, feature_ro_compat = 0, sb_raw = tiny_sb\<rparr>"
  let ?s = "(ext2_new \<lparr>d_sectors = replicate 6 [], d_readonly = False\<rparr>)\<lparr>x_sb := ?sb\<rparr>"
  have f: "unpack_le_from 4 tiny_sb 0 = Inr 16" "unpack_le_from 4 tiny_sb 4 = Inr 8" "unpack_le_from 4 tiny_sb 12 = Inr 3"
    "unpack_le_from 4 tiny_sb 16 = Inr 5" "unpack_le_from 4 tiny_sb 20 = Inr 1" "unpack_le_from 4 tiny_sb 24 = Inr 0"
    "unpack_le_from 4 tiny_sb 32 = Inr 8192" "unpack_le_from 4 tiny_sb 40 = Inr 16" "unpack_le_from 2 tiny_sb 56 = Inr 0xEF53"
    "unpack_le_from 4 tiny_sb 76 = Inr 0" "length tiny_sb = 1024"
    by (simp_all add: unpack_le_from_def struct_offset_def tiny_sb_def)
  have m: "sb_mirror (x_sb ?s)"
    by (simp add: sb_mirror_def sb_parse_def bind_def f EXT2_SUPER_MAGIC_def)
  obtain t where t: "flush_superblock ?s = (Inr (), t)"
    by (rule flush_superblock_ok [of ?s]) (simp_all add: f ext2_new_def num_sectors_def)
  show ?thesis using flush_superblock_durable [OF m t, of "()"] m t by - (rule exI [of _ ?s], rule exI [of _ t], simp)
qed

end
