(* ===== verification/Asyncio.thy ===== *)
theory Asyncio
  imports Prelude
begin

section \<open>The bare-metal event loop\<close>

text \<open>
  Models \<open>asyncio/\<close>: futures, tasks, the event loop with its ready queue and timers, the
  synchronisation primitives, queues, \<open>sleep\<close>, \<open>gather\<close> and \<open>wait_for\<close>. The objects are
  kept in lists of one \<open>world\<close> record and named by their positions; methods are actions of
  the state-and-exception monad over it. A coroutine is a value of \<open>coro\<close>: a tree of
  the calls it makes, each with the continuation that receives its outcome, so
  \<open>except\<close> clauses are part of the continuation. The looping coroutines of the
  library (\<open>Semaphore.acquire\<close>, \<open>Queue.put\<close>, \<open>Queue.get\<close>) are nodes of their own. There is one
  loop, and every future belongs to it. A position that is not that of an object stands
  for a value of another type: calling a method on it raises \<open>AttributeError\<close>, awaiting it \<open>TypeError\<close>.
\<close>

subsection \<open>Values, operations, callbacks\<close>

datatype val = VNone | VBool bool | VInt int | VFut nat | VObj nat | VList "val list" | VExn py_error

text \<open>The synchronous operations a coroutine or a plain callback can perform.\<close>

datatype api =
    CreateFuture | FutDone nat | FutCancelled nat | FutResult nat | FutException nat
  | SetResult nat val | SetException nat py_error | Cancel nat
  | AddDoneCallback nat api | RemoveDoneCallback nat api
  | CallSoon api | CallLater int api | CallAt int api | CancelHandle nat | StopLoop
  | SleepStart int val
  | NewEvent | EventIsSet nat | EventSet nat | EventClear nat | EventEnter nat | EventAbandon nat nat
  | NewLock | LockLocked nat | LockEnter nat | LockAbandon nat nat | LockTake nat | LockRelease nat
  | NewSemaphore int | SemLocked nat | SemRelease nat
  | NewQueue int | QSize nat | QIsEmpty nat | QIsFull nat | PutNowait nat val | GetNowait nat
  | GatherStart "nat list" bool | WaitStart nat int | WaitFinish nat

datatype callback =
    Step nat | Wakeup nat | SetUnlessCancelled nat val | GatherDone nat nat
  | WaitDone nat | WaitTimeout nat | Api api

subsection \<open>Coroutines\<close>

datatype coro =
    Return val
  | Raise py_error
  | Call api "val res \<Rightarrow> coro"
  | Spawn coro "nat \<Rightarrow> coro"
  | Await nat "val res \<Rightarrow> coro"
  | YieldNone "val res \<Rightarrow> coro"
  | SemAcquire nat "val res \<Rightarrow> coro"
  | QueuePut nat val "val res \<Rightarrow> coro"
  | QueueGet nat "val res \<Rightarrow> coro"

text \<open>Where a coroutine is suspended, and what one resumption of it gives.\<close>

datatype point =
    Start coro
  | AtFuture nat "val res \<Rightarrow> coro"
  | AtNone "val res \<Rightarrow> coro"
  | AtSem nat nat "val res \<Rightarrow> coro"
  | AtPut nat val nat "val res \<Rightarrow> coro"
  | AtGet nat nat "val res \<Rightarrow> coro"

datatype progress = Yielded "nat option" point | Returned val | Raised py_error

subsection \<open>The objects\<close>

datatype fstate = PENDING | CANCELLED | FINISHED

record task =
  t_coro :: "point option"
  t_waiter :: "nat option"
  t_must_cancel :: bool

record future =
  f_state :: fstate
  f_result :: val
  f_exception :: "py_error option"
  f_callbacks :: "callback list"
  f_blocking :: bool
  f_task :: "task option"

record handle =
  h_fn :: callback
  h_arg :: "nat option"
  h_cancelled :: bool

record event =
  e_flag :: bool
  e_waiters :: "nat list"

record lock =
  l_locked :: bool
  l_waiters :: "nat list"

record semaphore =
  s_value :: int
  s_waiters :: "nat list"

record queue =
  q_maxsize :: int
  q_items :: "val list"
  q_getters :: "nat list"
  q_putters :: "nat list"

record gathering =
  g_outer :: nat
  g_results :: "val list"
  g_remaining :: int
  g_return_exceptions :: bool

record waiting =
  v_task :: nat
  v_event :: nat
  v_expired :: bool
  v_handle :: "nat option"

text \<open>
  \<open>w_clock\<close> is the sequence of values that successive calls of \<open>_monotonic\<close> return and
  \<open>w_reads\<close> how many were made; \<open>w_stderr\<close> holds the exceptions reported by callbacks.
\<close>

record world =
  w_futs :: "future list"
  w_handles :: "handle list"
  w_ready :: "nat list"
  w_sched :: "(int \<times> nat) list"
  w_running :: bool
  w_stopping :: bool
  w_clock :: "nat \<Rightarrow> int"
  w_reads :: nat
  w_stderr :: "py_error list"
  w_events :: "event list"
  w_locks :: "lock list"
  w_sems :: "semaphore list"
  w_queues :: "queue list"
  w_gathers :: "gathering list"
  w_waits :: "waiting list"

type_synonym 'a aio = "(world, 'a) io"

definition new_loop :: "(nat \<Rightarrow> int) \<Rightarrow> world" where
  "new_loop clock = \<lparr>w_futs = [], w_handles = [], w_ready = [], w_sched = [], w_running = False, w_stopping = False,
     w_clock = clock, w_reads = 0, w_stderr = [], w_events = [], w_locks = [], w_sems = [], w_queues = [],
     w_gathers = [], w_waits = []\<rparr>"

abbreviation fut_at :: "world \<Rightarrow> nat \<Rightarrow> future" where
  "fut_at w f \<equiv> w_futs w ! f"

definition upd_fut :: "nat \<Rightarrow> (future \<Rightarrow> future) \<Rightarrow> unit aio" where
  "upd_fut f g = modify (\<lambda>w. w\<lparr>w_futs := (w_futs w)[f := g (fut_at w f)]\<rparr>)"

definition upd_event :: "nat \<Rightarrow> (event \<Rightarrow> event) \<Rightarrow> unit aio" where
  "upd_event e g = modify (\<lambda>w. w\<lparr>w_events := (w_events w)[e := g (w_events w ! e)]\<rparr>)"

definition upd_lock :: "nat \<Rightarrow> (lock \<Rightarrow> lock) \<Rightarrow> unit aio" where
  "upd_lock l g = modify (\<lambda>w. w\<lparr>w_locks := (w_locks w)[l := g (w_locks w ! l)]\<rparr>)"

definition upd_sem :: "nat \<Rightarrow> (semaphore \<Rightarrow> semaphore) \<Rightarrow> unit aio" where
  "upd_sem l g = modify (\<lambda>w. w\<lparr>w_sems := (w_sems w)[l := g (w_sems w ! l)]\<rparr>)"

definition upd_queue :: "nat \<Rightarrow> (queue \<Rightarrow> queue) \<Rightarrow> unit aio" where
  "upd_queue q g = modify (\<lambda>w. w\<lparr>w_queues := (w_queues w)[q := g (w_queues w ! q)]\<rparr>)"

definition upd_gather :: "nat \<Rightarrow> (gathering \<Rightarrow> gathering) \<Rightarrow> unit aio" where
  "upd_gather i g = modify (\<lambda>w. w\<lparr>w_gathers := (w_gathers w)[i := g (w_gathers w ! i)]\<rparr>)"

definition upd_wait :: "nat \<Rightarrow> (waiting \<Rightarrow> waiting) \<Rightarrow> unit aio" where
  "upd_wait i g = modify (\<lambda>w. w\<lparr>w_waits := (w_waits w)[i := g (w_waits w ! i)]\<rparr>)"

definition set_task :: "nat \<Rightarrow> (task \<Rightarrow> task) \<Rightarrow> unit aio" where
  "set_task t g = upd_fut t (\<lambda>f. f\<lparr>f_task := map_option g (f_task f)\<rparr>)"

subsection \<open>The event loop: handles, ready queue, timers\<close>

definition monotonic :: "int aio" where
  "monotonic = bind (gets (\<lambda>w. w_clock w (w_reads w))) (\<lambda>t.
     bind (modify (\<lambda>w. w\<lparr>w_reads := Suc (w_reads w)\<rparr>)) (\<lambda>_. ret t))"

definition new_handle :: "callback \<Rightarrow> nat option \<Rightarrow> nat aio" where
  "new_handle fn arg = bind (gets (\<lambda>w. length (w_handles w))) (\<lambda>h.
     bind (modify (\<lambda>w. w\<lparr>w_handles := w_handles w @ [\<lparr>h_fn = fn, h_arg = arg, h_cancelled = False\<rparr>]\<rparr>)) (\<lambda>_. ret h))"

definition handle_cancel :: "nat \<Rightarrow> unit aio" where
  "handle_cancel h = modify (\<lambda>w. w\<lparr>w_handles := (w_handles w)[h := (w_handles w ! h)\<lparr>h_cancelled := True\<rparr>]\<rparr>)"

definition call_soon :: "callback \<Rightarrow> nat option \<Rightarrow> nat aio" where
  "call_soon fn arg = bind (new_handle fn arg) (\<lambda>h.
     bind (modify (\<lambda>w. w\<lparr>w_ready := w_ready w @ [h]\<rparr>)) (\<lambda>_. ret h))"

fun sched_pos :: "int \<Rightarrow> (int \<times> nat) list \<Rightarrow> nat" where
  "sched_pos when [] = 0"
| "sched_pos when ((t, h) # xs) = (if t \<le> when then Suc (sched_pos when xs) else 0)"

definition list_insert :: "nat \<Rightarrow> 'a \<Rightarrow> 'a list \<Rightarrow> 'a list" where
  "list_insert i x xs = take i xs @ [x] @ drop i xs"

definition call_at :: "int \<Rightarrow> callback \<Rightarrow> nat option \<Rightarrow> nat aio" where
  "call_at when fn arg = bind (new_handle fn arg) (\<lambda>h.
     bind (modify (\<lambda>w. w\<lparr>w_sched := list_insert (sched_pos when (w_sched w)) (when, h) (w_sched w)\<rparr>)) (\<lambda>_. ret h))"

definition call_later :: "int \<Rightarrow> callback \<Rightarrow> nat option \<Rightarrow> nat aio" where
  "call_later delay fn arg = bind monotonic (\<lambda>t. call_at (t + delay) fn arg)"

definition loop_stop :: "unit aio" where
  "loop_stop = modify (\<lambda>w. w\<lparr>w_stopping := True\<rparr>)"

definition loop_close :: "unit aio" where
  "loop_close = modify (\<lambda>w. w\<lparr>w_ready := [], w_sched := []\<rparr>)"

definition get_running_loop :: "unit aio" where
  "get_running_loop = bind (gets w_running) (\<lambda>r. if r then ret () else raise RuntimeError)"

subsection \<open>Futures\<close>

definition new_future :: "task option \<Rightarrow> future" where
  "new_future t = \<lparr>f_state = PENDING, f_result = VNone, f_exception = None, f_callbacks = [], f_blocking = False, f_task = t\<rparr>"

definition create_future :: "nat aio" where
  "create_future = bind (gets (\<lambda>w. length (w_futs w))) (\<lambda>f.
     bind (modify (\<lambda>w. w\<lparr>w_futs := w_futs w @ [new_future None]\<rparr>)) (\<lambda>_. ret f))"

definition future_cancelled :: "nat \<Rightarrow> bool aio" where
  "future_cancelled f = gets (\<lambda>w. f_state (fut_at w f) = CANCELLED)"

definition future_done :: "nat \<Rightarrow> bool aio" where
  "future_done f = gets (\<lambda>w. f_state (fut_at w f) \<noteq> PENDING)"

definition outcome :: "future \<Rightarrow> val res" where
  "outcome f = (if f_state f = CANCELLED then Inl CancelledError
     else if f_state f \<noteq> FINISHED then Inl InvalidStateError
     else case f_exception f of Some e \<Rightarrow> Inl e | None \<Rightarrow> Inr (f_result f))"

definition future_result :: "nat \<Rightarrow> val aio" where
  "future_result f = (\<lambda>w. (outcome (fut_at w f), w))"

definition future_exception :: "nat \<Rightarrow> py_error option aio" where
  "future_exception f = bind (gets (\<lambda>w. fut_at w f)) (\<lambda>fu.
     if f_state fu = CANCELLED then raise CancelledError
     else if f_state fu \<noteq> FINISHED then raise InvalidStateError
     else ret (f_exception fu))"

definition schedule_callbacks :: "nat \<Rightarrow> unit aio" where
  "schedule_callbacks f = bind (gets (\<lambda>w. f_callbacks (fut_at w f))) (\<lambda>callbacks.
     bind (upd_fut f (\<lambda>fu. fu\<lparr>f_callbacks := []\<rparr>)) (\<lambda>_.
     for_each callbacks (\<lambda>fn. bind (call_soon fn (Some f)) (\<lambda>_. ret ()))))"

definition future_set_result :: "nat \<Rightarrow> val \<Rightarrow> unit aio" where
  "future_set_result f v = bind (gets (\<lambda>w. f_state (fut_at w f))) (\<lambda>st.
     if st \<noteq> PENDING then raise InvalidStateError
     else bind (upd_fut f (\<lambda>fu. fu\<lparr>f_result := v, f_state := FINISHED\<rparr>)) (\<lambda>_. schedule_callbacks f))"

definition future_set_exception :: "nat \<Rightarrow> py_error \<Rightarrow> unit aio" where
  "future_set_exception f e = bind (gets (\<lambda>w. f_state (fut_at w f))) (\<lambda>st.
     if st \<noteq> PENDING then raise InvalidStateError
     else bind (upd_fut f (\<lambda>fu. fu\<lparr>f_exception := Some e, f_state := FINISHED\<rparr>)) (\<lambda>_. schedule_callbacks f))"

definition future_cancel :: "nat \<Rightarrow> bool aio" where
  "future_cancel f = bind (gets (\<lambda>w. f_state (fut_at w f))) (\<lambda>st.
     if st \<noteq> PENDING then ret False
     else bind (upd_fut f (\<lambda>fu. fu\<lparr>f_state := CANCELLED\<rparr>)) (\<lambda>_. bind (schedule_callbacks f) (\<lambda>_. ret True)))"

definition add_done_callback :: "nat \<Rightarrow> callback \<Rightarrow> unit aio" where
  "add_done_callback f fn = bind (gets (\<lambda>w. f_state (fut_at w f))) (\<lambda>st.
     if st \<noteq> PENDING then bind (call_soon fn (Some f)) (\<lambda>_. ret ())
     else upd_fut f (\<lambda>fu. fu\<lparr>f_callbacks := f_callbacks fu @ [fn]\<rparr>))"

definition remove_done_callback :: "nat \<Rightarrow> callback \<Rightarrow> int aio" where
  "remove_done_callback f fn = bind (gets (\<lambda>w. length (f_callbacks (fut_at w f)))) (\<lambda>before.
     bind (upd_fut f (\<lambda>fu. fu\<lparr>f_callbacks := filter (\<lambda>g. g \<noteq> fn) (f_callbacks fu)\<rparr>)) (\<lambda>_.
     gets (\<lambda>w. int before - int (length (f_callbacks (fut_at w f))))))"

definition set_result_unless_cancelled :: "nat \<Rightarrow> val \<Rightarrow> unit aio" where
  "set_result_unless_cancelled f v = bind (future_cancelled f) (\<lambda>c. if \<not> c then future_set_result f v else ret ())"

text \<open>
  \<open>cancel\<close> dispatches on the class: a task passes the request to the future it waits for.
  The chain visits distinct tasks unless it is cyclic, so the number of futures bounds
  its length; a cyclic chain is Python's recursion error.
\<close>

fun cancel_chain :: "nat \<Rightarrow> nat \<Rightarrow> bool aio" where
  "cancel_chain 0 f = raise RuntimeError"
| "cancel_chain (Suc n) f = bind (gets (\<lambda>w. f_task (fut_at w f))) (\<lambda>t. case t of
       None \<Rightarrow> future_cancel f
     | Some t \<Rightarrow> bind (set_task f (\<lambda>t. t\<lparr>t_must_cancel := True\<rparr>)) (\<lambda>_.
         case t_waiter t of Some g \<Rightarrow> cancel_chain n g | None \<Rightarrow> ret True))"

definition cancel :: "nat \<Rightarrow> bool aio" where
  "cancel f = bind (gets (\<lambda>w. length (w_futs w))) (\<lambda>n. cancel_chain n f)"

end
