(* ===== verification/AsyncRun.thy ===== *)
theory AsyncRun
  imports Asyncio
begin

section \<open>Synchronisation, coroutines and the scheduler loop\<close>

text \<open>
  Models \<open>asyncio/locks.py\<close>, \<open>asyncio/queues.py\<close>, the module functions of \<open>asyncio/__init__.py\<close>,
  \<open>asyncio/tasks.py\<close> and the running of the loop in \<open>asyncio/events.py\<close>. An \<open>async\<close> method is cut
  at its \<open>await\<close>: the part before it is an operation (\<open>lock_enter\<close>), the clean-up
  after a cancellation another (\<open>lock_abandon\<close>), and a coroutine puts them together
  (\<open>lock_acquire\<close>).
\<close>

subsection \<open>Events\<close>

definition event_new :: "nat aio" where
  "event_new = bind (gets (\<lambda>w. length (w_events w))) (\<lambda>e.
     bind (modify (\<lambda>w. w\<lparr>w_events := w_events w @ [\<lparr>e_flag = False, e_waiters = []\<rparr>]\<rparr>)) (\<lambda>_. ret e))"

definition event_is_set :: "nat \<Rightarrow> bool aio" where
  "event_is_set e = gets (\<lambda>w. e_flag (w_events w ! e))"

definition settle_pending :: "nat \<Rightarrow> unit aio" where
  "settle_pending f = bind (future_done f) (\<lambda>d. if \<not> d then future_set_result f VNone else ret ())"

definition event_set :: "nat \<Rightarrow> unit aio" where
  "event_set e = bind (gets (\<lambda>w. w_events w ! e)) (\<lambda>ev.
     if \<not> e_flag ev then
       bind (upd_event e (\<lambda>v. v\<lparr>e_flag := True\<rparr>)) (\<lambda>_.
       bind (for_each (e_waiters ev) settle_pending) (\<lambda>_.
       upd_event e (\<lambda>v. v\<lparr>e_waiters := []\<rparr>)))
     else ret ())"

definition event_clear :: "nat \<Rightarrow> unit aio" where
  "event_clear e = upd_event e (\<lambda>v. v\<lparr>e_flag := False\<rparr>)"

definition event_enter :: "nat \<Rightarrow> val aio" where
  "event_enter e = bind (event_is_set e) (\<lambda>s. if s then ret (VBool True) else
     bind create_future (\<lambda>f.
     bind (upd_event e (\<lambda>v. v\<lparr>e_waiters := e_waiters v @ [f]\<rparr>)) (\<lambda>_. ret (VFut f))))"

definition event_abandon :: "nat \<Rightarrow> nat \<Rightarrow> unit aio" where
  "event_abandon e f = upd_event e (\<lambda>v. v\<lparr>e_waiters := remove1 f (e_waiters v)\<rparr>)"

subsection \<open>Locks\<close>

definition lock_new :: "nat aio" where
  "lock_new = bind (gets (\<lambda>w. length (w_locks w))) (\<lambda>l.
     bind (modify (\<lambda>w. w\<lparr>w_locks := w_locks w @ [\<lparr>l_locked = False, l_waiters = []\<rparr>]\<rparr>)) (\<lambda>_. ret l))"

definition lock_locked :: "nat \<Rightarrow> bool aio" where
  "lock_locked l = gets (\<lambda>w. l_locked (w_locks w ! l))"

definition lock_take :: "nat \<Rightarrow> unit aio" where
  "lock_take l = upd_lock l (\<lambda>v. v\<lparr>l_locked := True\<rparr>)"

definition lock_enter :: "nat \<Rightarrow> val aio" where
  "lock_enter l = bind (lock_locked l) (\<lambda>b. if \<not> b then bind (lock_take l) (\<lambda>_. ret (VBool True)) else
     bind create_future (\<lambda>f.
     bind (upd_lock l (\<lambda>v. v\<lparr>l_waiters := l_waiters v @ [f]\<rparr>)) (\<lambda>_. ret (VFut f))))"

definition lock_abandon :: "nat \<Rightarrow> nat \<Rightarrow> unit aio" where
  "lock_abandon l f = upd_lock l (\<lambda>v. v\<lparr>l_waiters := remove1 f (l_waiters v)\<rparr>)"

text \<open>The loops of the two \<open>release\<close> methods: the first waiter that is not done gets its result.\<close>

fun wake_first :: "nat list \<Rightarrow> nat option aio" where
  "wake_first [] = ret None"
| "wake_first (f # fs) = bind (future_done f) (\<lambda>d. if \<not> d then bind (future_set_result f VNone) (\<lambda>_. ret (Some f)) else wake_first fs)"

definition lock_release :: "nat \<Rightarrow> unit aio" where
  "lock_release l = bind (lock_locked l) (\<lambda>b. if \<not> b then raise RuntimeError else
     bind (upd_lock l (\<lambda>v. v\<lparr>l_locked := False\<rparr>)) (\<lambda>_.
     bind (gets (\<lambda>w. l_waiters (w_locks w ! l))) (\<lambda>ws.
     bind (wake_first ws) (\<lambda>r. case r of
         Some f \<Rightarrow> upd_lock l (\<lambda>v. v\<lparr>l_waiters := remove1 f (l_waiters v)\<rparr>)
       | None \<Rightarrow> ret ()))))"

subsection \<open>Semaphores\<close>

definition sem_new :: "int \<Rightarrow> nat aio" where
  "sem_new v = (if v < 0 then raise ValueError else bind (gets (\<lambda>w. length (w_sems w))) (\<lambda>s.
     bind (modify (\<lambda>w. w\<lparr>w_sems := w_sems w @ [\<lparr>s_value = v, s_waiters = []\<rparr>]\<rparr>)) (\<lambda>_. ret s)))"

definition sem_locked :: "nat \<Rightarrow> bool aio" where
  "sem_locked s = gets (\<lambda>w. s_value (w_sems w ! s) = 0)"

text \<open>One turn of the loop of \<open>acquire\<close>: the future to wait for, or none when a unit was taken.\<close>

definition sem_enter :: "nat \<Rightarrow> nat option aio" where
  "sem_enter s = bind (gets (\<lambda>w. s_value (w_sems w ! s))) (\<lambda>v. if v \<le> 0 then
       bind create_future (\<lambda>f. bind (upd_sem s (\<lambda>m. m\<lparr>s_waiters := s_waiters m @ [f]\<rparr>)) (\<lambda>_. ret (Some f)))
     else bind (upd_sem s (\<lambda>m. m\<lparr>s_value := s_value m - 1\<rparr>)) (\<lambda>_. ret None))"

definition sem_abandon :: "nat \<Rightarrow> nat \<Rightarrow> unit aio" where
  "sem_abandon s f = upd_sem s (\<lambda>m. m\<lparr>s_waiters := remove1 f (s_waiters m)\<rparr>)"

definition sem_release :: "nat \<Rightarrow> unit aio" where
  "sem_release s = bind (upd_sem s (\<lambda>m. m\<lparr>s_value := s_value m + 1\<rparr>)) (\<lambda>_.
     bind (gets (\<lambda>w. s_waiters (w_sems w ! s))) (\<lambda>ws. bind (wake_first ws) (\<lambda>_. ret ())))"

subsection \<open>Queues\<close>

definition queue_new :: "int \<Rightarrow> nat aio" where
  "queue_new n = bind (gets (\<lambda>w. length (w_queues w))) (\<lambda>q.
     bind (modify (\<lambda>w. w\<lparr>w_queues := w_queues w @ [\<lparr>q_maxsize = n, q_items = [], q_getters = [], q_putters = []\<rparr>]\<rparr>)) (\<lambda>_. ret q))"

definition queue_full :: "queue \<Rightarrow> bool" where
  "queue_full q \<longleftrightarrow> 0 < q_maxsize q \<and> q_maxsize q \<le> int (length (q_items q))"

text \<open>\<open>while waiters: fut = waiters.pop(0)\<close> until one that is not done is woken.\<close>

fun pop_wake :: "nat list \<Rightarrow> (nat list \<Rightarrow> unit aio) \<Rightarrow> unit aio" where
  "pop_wake [] put = ret ()"
| "pop_wake (f # fs) put = bind (put fs) (\<lambda>_.
     bind (future_done f) (\<lambda>d. if \<not> d then future_set_result f VNone else pop_wake fs put))"

definition wakeup_getter :: "nat \<Rightarrow> unit aio" where
  "wakeup_getter q = bind (gets (\<lambda>w. q_getters (w_queues w ! q))) (\<lambda>gs.
     pop_wake gs (\<lambda>fs. upd_queue q (\<lambda>v. v\<lparr>q_getters := fs\<rparr>)))"

definition wakeup_putter :: "nat \<Rightarrow> unit aio" where
  "wakeup_putter q = bind (gets (\<lambda>w. q_putters (w_queues w ! q))) (\<lambda>gs.
     pop_wake gs (\<lambda>fs. upd_queue q (\<lambda>v. v\<lparr>q_putters := fs\<rparr>)))"

definition put_nowait :: "nat \<Rightarrow> val \<Rightarrow> unit aio" where
  "put_nowait q x = bind (gets (\<lambda>w. queue_full (w_queues w ! q))) (\<lambda>b. if b then raise QueueFull else
     bind (upd_queue q (\<lambda>v. v\<lparr>q_items := q_items v @ [x]\<rparr>)) (\<lambda>_. wakeup_getter q))"

definition get_nowait :: "nat \<Rightarrow> val aio" where
  "get_nowait q = bind (gets (\<lambda>w. q_items (w_queues w ! q))) (\<lambda>xs. case xs of
       [] \<Rightarrow> raise QueueEmpty
     | x # rest \<Rightarrow> bind (upd_queue q (\<lambda>v. v\<lparr>q_items := rest\<rparr>)) (\<lambda>_. bind (wakeup_putter q) (\<lambda>_. ret x)))"

definition put_wait :: "nat \<Rightarrow> nat aio" where
  "put_wait q = bind create_future (\<lambda>f. bind (upd_queue q (\<lambda>v. v\<lparr>q_putters := q_putters v @ [f]\<rparr>)) (\<lambda>_. ret f))"

definition get_wait :: "nat \<Rightarrow> nat aio" where
  "get_wait q = bind create_future (\<lambda>f. bind (upd_queue q (\<lambda>v. v\<lparr>q_getters := q_getters v @ [f]\<rparr>)) (\<lambda>_. ret f))"

definition put_abandon :: "nat \<Rightarrow> nat \<Rightarrow> unit aio" where
  "put_abandon q f = upd_queue q (\<lambda>v. v\<lparr>q_putters := remove1 f (q_putters v)\<rparr>)"

definition get_abandon :: "nat \<Rightarrow> nat \<Rightarrow> unit aio" where
  "get_abandon q f = upd_queue q (\<lambda>v. v\<lparr>q_getters := remove1 f (q_getters v)\<rparr>)"

subsection \<open>Sleeping, gathering, waiting with a timeout\<close>

definition sleep_start :: "int \<Rightarrow> val \<Rightarrow> val aio" where
  "sleep_start delay v = bind create_future (\<lambda>f.
     bind (call_later delay (SetUnlessCancelled f v) None) (\<lambda>_. ret (VFut f)))"

definition fut_ok :: "world \<Rightarrow> nat \<Rightarrow> bool" where
  "fut_ok w f \<longleftrightarrow> f < length (w_futs w)"

text \<open>
  \<open>t.add_done_callback(...)\<close> in the last loop of \<open>gather\<close>: an argument that is not a future
  raises there, after the callbacks of those before it have been registered.
\<close>

definition gather_watch :: "nat \<Rightarrow> nat \<Rightarrow> nat \<Rightarrow> unit aio" where
  "gather_watch g i t = bind (gets (\<lambda>w. fut_ok w t)) (\<lambda>b.
     if b then add_done_callback t (GatherDone g i) else raise AttributeError)"

definition gather_start :: "nat list \<Rightarrow> bool \<Rightarrow> val aio" where
  "gather_start tasks re = bind create_future (\<lambda>outer.
     bind (gets (\<lambda>w. length (w_gathers w))) (\<lambda>g.
     bind (modify (\<lambda>w. w\<lparr>w_gathers := w_gathers w @ [\<lparr>g_outer = outer, g_results = replicate (length tasks) VNone,
         g_remaining = int (length tasks), g_return_exceptions = re\<rparr>]\<rparr>)) (\<lambda>_.
     if tasks = [] then bind (future_set_result outer (VList [])) (\<lambda>_. ret (VFut outer))
     else bind (for_each (enumerate 0 tasks) (\<lambda>(i, t). gather_watch g i t)) (\<lambda>_. ret (VFut outer)))))"

definition gather_store :: "nat \<Rightarrow> nat \<Rightarrow> val \<Rightarrow> unit aio" where
  "gather_store g i v =
     bind (upd_gather g (\<lambda>x. x\<lparr>g_results := (g_results x)[i := v], g_remaining := g_remaining x - 1\<rparr>)) (\<lambda>_.
     bind (gets (\<lambda>w. w_gathers w ! g)) (\<lambda>x.
     if g_remaining x = 0 then future_set_result (g_outer x) (VList (g_results x)) else ret ()))"

definition gather_done :: "nat \<Rightarrow> nat \<Rightarrow> nat \<Rightarrow> unit aio" where
  "gather_done g i t = bind (gets (\<lambda>w. w_gathers w ! g)) (\<lambda>x.
     bind (future_done (g_outer x)) (\<lambda>od. if od then ret () else
     bind (future_cancelled t) (\<lambda>c. if c then
         (if \<not> g_return_exceptions x then bind (future_cancel (g_outer x)) (\<lambda>_. ret ())
          else gather_store g i (VExn CancelledError))
       else bind (future_exception t) (\<lambda>ex. case ex of
           Some e \<Rightarrow> if \<not> g_return_exceptions x then future_set_exception (g_outer x) e else gather_store g i (VExn e)
         | None \<Rightarrow> bind (future_result t) (gather_store g i)))))"

definition wait_start :: "nat \<Rightarrow> int \<Rightarrow> val aio" where
  "wait_start t timeout = bind event_new (\<lambda>e.
     bind (gets (\<lambda>w. length (w_waits w))) (\<lambda>v.
     bind (modify (\<lambda>w. w\<lparr>w_waits := w_waits w @ [\<lparr>v_task = t, v_event = e, v_expired = False, v_handle = None\<rparr>]\<rparr>)) (\<lambda>_.
     bind (gets (\<lambda>w. fut_ok w t)) (\<lambda>b.
     bind (if b then add_done_callback t (WaitDone v) else ret ()) (\<lambda>_.
     bind (call_later timeout (WaitTimeout v) None) (\<lambda>h.
     bind (upd_wait v (\<lambda>x. x\<lparr>v_handle := Some h\<rparr>)) (\<lambda>_. ret (VList [VObj v, VObj e]))))))))"

definition wait_done :: "nat \<Rightarrow> unit aio" where
  "wait_done v = bind (gets (\<lambda>w. v_event (w_waits w ! v))) event_set"

definition wait_timeout :: "nat \<Rightarrow> unit aio" where
  "wait_timeout v = bind (upd_wait v (\<lambda>x. x\<lparr>v_expired := True\<rparr>)) (\<lambda>_.
     bind (gets (\<lambda>w. w_waits w ! v)) (\<lambda>x.
     bind (gets (\<lambda>w. fut_ok w (v_task x) \<and> f_state (fut_at w (v_task x)) = PENDING)) (\<lambda>p.
     bind (if p then bind (cancel (v_task x)) (\<lambda>_. ret ()) else ret ()) (\<lambda>_.
     event_set (v_event x)))))"

definition wait_finish :: "nat \<Rightarrow> val aio" where
  "wait_finish v = bind (gets (\<lambda>w. w_waits w ! v)) (\<lambda>x.
     bind (case v_handle x of Some h \<Rightarrow> handle_cancel h | None \<Rightarrow> ret ()) (\<lambda>_.
     if v_expired x then raise TimeoutError
     else bind (gets (\<lambda>w. fut_ok w (v_task x))) (\<lambda>b. if b then future_result (v_task x) else raise AttributeError)))"

subsection \<open>Performing an operation\<close>

definition is_api :: "callback \<Rightarrow> bool" where
  "is_api c = (case c of Api _ \<Rightarrow> True | _ \<Rightarrow> False)"

text \<open>
  The object whose method an operation calls exists; the handles of the library's own callbacks
  never leave it. \<open>gather\<close> and \<open>wait_for\<close> look at their arguments themselves.
\<close>

fun api_ok :: "api \<Rightarrow> world \<Rightarrow> bool" where
  "api_ok (FutDone f) w = fut_ok w f"
| "api_ok (FutCancelled f) w = fut_ok w f"
| "api_ok (FutResult f) w = fut_ok w f"
| "api_ok (FutException f) w = fut_ok w f"
| "api_ok (SetResult f v) w = fut_ok w f"
| "api_ok (SetException f e) w = fut_ok w f"
| "api_ok (Cancel f) w = fut_ok w f"
| "api_ok (AddDoneCallback f a) w = fut_ok w f"
| "api_ok (RemoveDoneCallback f a) w = fut_ok w f"
| "api_ok (CancelHandle h) w = (h < length (w_handles w) \<and> is_api (h_fn (w_handles w ! h)))"
| "api_ok (EventIsSet e) w = (e < length (w_events w))"
| "api_ok (EventSet e) w = (e < length (w_events w))"
| "api_ok (EventClear e) w = (e < length (w_events w))"
| "api_ok (EventEnter e) w = (e < length (w_events w))"
| "api_ok (EventAbandon e f) w = (e < length (w_events w))"
| "api_ok (LockLocked l) w = (l < length (w_locks w))"
| "api_ok (LockEnter l) w = (l < length (w_locks w))"
| "api_ok (LockAbandon l f) w = (l < length (w_locks w))"
| "api_ok (LockTake l) w = (l < length (w_locks w))"
| "api_ok (LockRelease l) w = (l < length (w_locks w))"
| "api_ok (SemLocked s) w = (s < length (w_sems w))"
| "api_ok (SemRelease s) w = (s < length (w_sems w))"
| "api_ok (QSize q) w = (q < length (w_queues w))"
| "api_ok (QIsEmpty q) w = (q < length (w_queues w))"
| "api_ok (QIsFull q) w = (q < length (w_queues w))"
| "api_ok (PutNowait q x) w = (q < length (w_queues w))"
| "api_ok (GetNowait q) w = (q < length (w_queues w))"
| "api_ok (WaitFinish v) w = (v < length (w_waits w))"
| "api_ok _ w = True"

abbreviation vnone :: "unit aio \<Rightarrow> val aio" where
  "vnone m \<equiv> bind m (\<lambda>_. ret VNone)"

fun perform :: "api \<Rightarrow> val aio" where
  "perform CreateFuture = bind create_future (\<lambda>f. ret (VFut f))"
| "perform (FutDone f) = bind (future_done f) (\<lambda>b. ret (VBool b))"
| "perform (FutCancelled f) = bind (future_cancelled f) (\<lambda>b. ret (VBool b))"
| "perform (FutResult f) = future_result f"
| "perform (FutException f) = bind (future_exception f) (\<lambda>e. ret (case e of None \<Rightarrow> VNone | Some e \<Rightarrow> VExn e))"
| "perform (SetResult f v) = vnone (future_set_result f v)"
| "perform (SetException f e) = vnone (future_set_exception f e)"
| "perform (Cancel f) = bind (cancel f) (\<lambda>b. ret (VBool b))"
| "perform (AddDoneCallback f a) = vnone (add_done_callback f (Api a))"
| "perform (RemoveDoneCallback f a) = bind (remove_done_callback f (Api a)) (\<lambda>n. ret (VInt n))"
| "perform (CallSoon a) = bind (call_soon (Api a) None) (\<lambda>h. ret (VObj h))"
| "perform (CallLater d a) = bind (call_later d (Api a) None) (\<lambda>h. ret (VObj h))"
| "perform (CallAt t a) = bind (call_at t (Api a) None) (\<lambda>h. ret (VObj h))"
| "perform (CancelHandle h) = vnone (handle_cancel h)"
| "perform StopLoop = vnone loop_stop"
| "perform (SleepStart d v) = sleep_start d v"
| "perform NewEvent = bind event_new (\<lambda>e. ret (VObj e))"
| "perform (EventIsSet e) = bind (event_is_set e) (\<lambda>b. ret (VBool b))"
| "perform (EventSet e) = vnone (event_set e)"
| "perform (EventClear e) = vnone (event_clear e)"
| "perform (EventEnter e) = event_enter e"
| "perform (EventAbandon e f) = vnone (event_abandon e f)"
| "perform NewLock = bind lock_new (\<lambda>l. ret (VObj l))"
| "perform (LockLocked l) = bind (lock_locked l) (\<lambda>b. ret (VBool b))"
| "perform (LockEnter l) = lock_enter l"
| "perform (LockAbandon l f) = vnone (lock_abandon l f)"
| "perform (LockTake l) = vnone (lock_take l)"
| "perform (LockRelease l) = vnone (lock_release l)"
| "perform (NewSemaphore v) = bind (sem_new v) (\<lambda>s. ret (VObj s))"
| "perform (SemLocked s) = bind (sem_locked s) (\<lambda>b. ret (VBool b))"
| "perform (SemRelease s) = vnone (sem_release s)"
| "perform (NewQueue n) = bind (queue_new n) (\<lambda>q. ret (VObj q))"
| "perform (QSize q) = gets (\<lambda>w. VInt (int (length (q_items (w_queues w ! q)))))"
| "perform (QIsEmpty q) = gets (\<lambda>w. VBool (q_items (w_queues w ! q) = []))"
| "perform (QIsFull q) = gets (\<lambda>w. VBool (queue_full (w_queues w ! q)))"
| "perform (PutNowait q x) = vnone (put_nowait q x)"
| "perform (GetNowait q) = get_nowait q"
| "perform (GatherStart ts b) = gather_start ts b"
| "perform (WaitStart t d) = wait_start t d"
| "perform (WaitFinish v) = wait_finish v"

definition run_api :: "api \<Rightarrow> val aio" where
  "run_api a = bind (gets (api_ok a)) (\<lambda>b. if b then perform a else raise AttributeError)"

subsection \<open>Library coroutines\<close>

text \<open>What \<open>except CancelledError: clean up; raise\<close> does with the outcome of an \<open>await\<close>.\<close>

definition on_cancel :: "api \<Rightarrow> (val res \<Rightarrow> coro) \<Rightarrow> (val \<Rightarrow> coro) \<Rightarrow> val res \<Rightarrow> coro" where
  "on_cancel cleanup k next r = (case r of
       Inl e \<Rightarrow> if e = CancelledError then Call cleanup (\<lambda>_. k (Inl CancelledError)) else k (Inl e)
     | Inr v \<Rightarrow> next v)"

definition event_wait :: "nat \<Rightarrow> (val res \<Rightarrow> coro) \<Rightarrow> coro" where
  "event_wait e k = Call (EventEnter e) (\<lambda>r. case r of
       Inr (VFut f) \<Rightarrow> Await f (on_cancel (EventAbandon e f) k (\<lambda>_. k (Inr (VBool True))))
     | r \<Rightarrow> k r)"

definition lock_acquire :: "nat \<Rightarrow> (val res \<Rightarrow> coro) \<Rightarrow> coro" where
  "lock_acquire l k = Call (LockEnter l) (\<lambda>r. case r of
       Inr (VFut f) \<Rightarrow> Await f (on_cancel (LockAbandon l f) k
         (\<lambda>_. Call (LockTake l) (\<lambda>_. k (Inr (VBool True)))))
     | r \<Rightarrow> k r)"

definition sleep :: "int \<Rightarrow> val \<Rightarrow> (val res \<Rightarrow> coro) \<Rightarrow> coro" where
  "sleep d v k = Call (SleepStart d v) (\<lambda>r. case r of Inr (VFut f) \<Rightarrow> Await f k | r \<Rightarrow> k r)"

datatype awaitable = ACoro coro | AFut nat

definition wait_task :: "int option \<Rightarrow> (val res \<Rightarrow> coro) \<Rightarrow> nat \<Rightarrow> coro" where
  "wait_task timeout k t = (case timeout of
       None \<Rightarrow> Await t k
     | Some d \<Rightarrow> Call (WaitStart t d) (\<lambda>r. case r of
           Inr (VList [VObj v, VObj e]) \<Rightarrow> event_wait e (\<lambda>r. case r of
               Inl x \<Rightarrow> k (Inl x)
             | Inr _ \<Rightarrow> Call (WaitFinish v) k)
         | r \<Rightarrow> k r))"

definition wait_for :: "awaitable \<Rightarrow> int option \<Rightarrow> (val res \<Rightarrow> coro) \<Rightarrow> coro" where
  "wait_for a timeout k = (case a of
       ACoro c \<Rightarrow> Spawn c (wait_task timeout k)
     | AFut f \<Rightarrow> wait_task timeout k f)"

fun gather :: "awaitable list \<Rightarrow> bool \<Rightarrow> nat list \<Rightarrow> (val res \<Rightarrow> coro) \<Rightarrow> coro" where
  "gather [] re ts k = Call (GatherStart ts re) k"
| "gather (ACoro c # xs) re ts k = Spawn c (\<lambda>t. gather xs re (ts @ [t]) k)"
| "gather (AFut f # xs) re ts k = gather xs re (ts @ [f]) k"

subsection \<open>Running a coroutine\<close>

definition create_task :: "coro \<Rightarrow> nat aio" where
  "create_task c = bind (gets (\<lambda>w. length (w_futs w))) (\<lambda>t.
     bind (modify (\<lambda>w. w\<lparr>w_futs := w_futs w @ [new_future (Some \<lparr>t_coro = Some (Start c), t_waiter = None, t_must_cancel = False\<rparr>)]\<rparr>)) (\<lambda>_.
     bind (call_soon (Step t) None) (\<lambda>_. ret t)))"

definition ensure_future :: "awaitable option \<Rightarrow> nat aio" where
  "ensure_future a = (case a of
       Some (ACoro c) \<Rightarrow> create_task c
     | Some (AFut f) \<Rightarrow> ret f
     | None \<Rightarrow> raise TypeError)"

text \<open>\<open>yield self\<close> in \<open>Future.__await__\<close>, and what follows when the task is resumed.\<close>

definition blocked_on :: "nat \<Rightarrow> world \<Rightarrow> world" where
  "blocked_on f w = snd (upd_fut f (\<lambda>fu. fu\<lparr>f_blocking := True\<rparr>) w)"

definition await_end :: "nat \<Rightarrow> py_error option \<Rightarrow> world \<Rightarrow> val res" where
  "await_end f exc w = (case exc of
       Some e \<Rightarrow> Inl e
     | None \<Rightarrow> if f_state (fut_at w f) = PENDING then Inl RuntimeError else outcome (fut_at w f))"

primrec run_coro :: "coro \<Rightarrow> world \<Rightarrow> progress \<times> world" where
  "run_coro (Return v) w = (Returned v, w)"
| "run_coro (Raise e) w = (Raised e, w)"
| "run_coro (Call a k) w = (case run_api a w of (r, w') \<Rightarrow> run_coro (k r) w')"
| "run_coro (Spawn c k) w = (case create_task c w of (Inr t, w') \<Rightarrow> run_coro (k t) w' | (Inl e, w') \<Rightarrow> (Raised e, w'))"
| "run_coro (Await f k) w = (if \<not> fut_ok w f then run_coro (k (Inl TypeError)) w
     else if f_state (fut_at w f) = PENDING then (Yielded (Some f) (AtFuture f k), blocked_on f w)
     else run_coro (k (outcome (fut_at w f))) w)"
| "run_coro (YieldNone k) w = (Yielded None (AtNone k), w)"
| "run_coro (SemAcquire s k) w = (if length (w_sems w) \<le> s then run_coro (k (Inl AttributeError)) w
     else case sem_enter s w of
         (Inr (Some f), w') \<Rightarrow> (Yielded (Some f) (AtSem s f k), blocked_on f w')
       | (Inr None, w') \<Rightarrow> run_coro (k (Inr (VBool True))) w'
       | (Inl e, w') \<Rightarrow> run_coro (k (Inl e)) w')"
| "run_coro (QueuePut q x k) w = (if length (w_queues w) \<le> q then run_coro (k (Inl AttributeError)) w
     else if queue_full (w_queues w ! q) then (case put_wait q w of
         (Inr f, w') \<Rightarrow> (Yielded (Some f) (AtPut q x f k), blocked_on f w')
       | (Inl e, w') \<Rightarrow> run_coro (k (Inl e)) w')
     else (case vnone (put_nowait q x) w of (r, w') \<Rightarrow> run_coro (k r) w'))"
| "run_coro (QueueGet q k) w = (if length (w_queues w) \<le> q then run_coro (k (Inl AttributeError)) w
     else if q_items (w_queues w ! q) = [] then (case get_wait q w of
         (Inr f, w') \<Rightarrow> (Yielded (Some f) (AtGet q f k), blocked_on f w')
       | (Inl e, w') \<Rightarrow> run_coro (k (Inl e)) w')
     else (case get_nowait q w of (r, w') \<Rightarrow> run_coro (k r) w'))"

text \<open>After the \<open>await\<close> in a loop: clean up and raise, or go round again.\<close>

definition loop_again :: "unit aio \<Rightarrow> nat \<Rightarrow> coro \<Rightarrow> (val res \<Rightarrow> coro) \<Rightarrow> py_error option \<Rightarrow> world \<Rightarrow> progress \<times> world" where
  "loop_again abandon f again k exc w = (case await_end f exc w of
       Inl e \<Rightarrow> run_coro (k (Inl e)) (if e = CancelledError then snd (abandon w) else w)
     | Inr _ \<Rightarrow> run_coro again w)"

fun resume :: "point option \<Rightarrow> py_error option \<Rightarrow> world \<Rightarrow> progress \<times> world" where
  "resume None exc w = (Raised RuntimeError, w)"
| "resume (Some (Start c)) None w = run_coro c w"
| "resume (Some (Start c)) (Some e) w = (Raised e, w)"
| "resume (Some (AtFuture f k)) exc w = run_coro (k (await_end f exc w)) w"
| "resume (Some (AtNone k)) exc w = run_coro (k (case exc of Some e \<Rightarrow> Inl e | None \<Rightarrow> Inr VNone)) w"
| "resume (Some (AtSem s f k)) exc w = loop_again (sem_abandon s f) f (SemAcquire s k) k exc w"
| "resume (Some (AtPut q x f k)) exc w = loop_again (put_abandon q f) f (QueuePut q x k) k exc w"
| "resume (Some (AtGet q f k)) exc w = loop_again (get_abandon q f) f (QueueGet q k) k exc w"

subsection \<open>Tasks\<close>

text \<open>The top of \<open>_step\<close>: forget the awaited future, turn a cancel request into \<open>CancelledError\<close>.\<close>

definition step_begin :: "nat \<Rightarrow> py_error option \<Rightarrow> (point option \<times> py_error option) aio" where
  "step_begin t exc = bind (gets (\<lambda>w. f_task (fut_at w t))) (\<lambda>tk. case tk of
       None \<Rightarrow> raise TypeError
     | Some tk \<Rightarrow> bind (set_task t (\<lambda>x. x\<lparr>t_waiter := None, t_must_cancel := False, t_coro := None\<rparr>)) (\<lambda>_.
         ret (t_coro tk, if t_must_cancel tk then Some CancelledError else exc)))"

definition step_end :: "nat \<Rightarrow> progress \<Rightarrow> unit aio" where
  "step_end t r = (case r of
       Returned v \<Rightarrow> future_set_result t v
     | Raised e \<Rightarrow> if e = CancelledError then bind (future_cancel t) (\<lambda>_. ret ()) else future_set_exception t e
     | Yielded (Some f) p \<Rightarrow>
         bind (upd_fut f (\<lambda>fu. fu\<lparr>f_blocking := False\<rparr>)) (\<lambda>_.
         bind (set_task t (\<lambda>x. x\<lparr>t_coro := Some p, t_waiter := Some f\<rparr>)) (\<lambda>_.
         add_done_callback f (Wakeup t)))
     | Yielded None p \<Rightarrow>
         bind (set_task t (\<lambda>x. x\<lparr>t_coro := Some p\<rparr>)) (\<lambda>_. bind (call_soon (Step t) None) (\<lambda>_. ret ())))"

definition task_step :: "nat \<Rightarrow> py_error option \<Rightarrow> unit aio" where
  "task_step t exc = bind (step_begin t exc) (\<lambda>(p, exc) w. case resume p exc w of (r, w') \<Rightarrow> step_end t r w')"

definition task_wakeup :: "nat \<Rightarrow> nat \<Rightarrow> unit aio" where
  "task_wakeup t f = bind (gets (\<lambda>w. outcome (fut_at w f))) (\<lambda>r. case r of
       Inl e \<Rightarrow> task_step t (Some e)
     | Inr _ \<Rightarrow> task_step t None)"

subsection \<open>Running the loop\<close>

definition run_callback :: "callback \<Rightarrow> nat option \<Rightarrow> unit aio" where
  "run_callback fn arg = (case fn of
       Step t \<Rightarrow> task_step t None
     | Wakeup t \<Rightarrow> (case arg of Some f \<Rightarrow> task_wakeup t f | None \<Rightarrow> raise TypeError)
     | SetUnlessCancelled f v \<Rightarrow> set_result_unless_cancelled f v
     | GatherDone g i \<Rightarrow> (case arg of Some t \<Rightarrow> gather_done g i t | None \<Rightarrow> raise TypeError)
     | WaitDone v \<Rightarrow> wait_done v
     | WaitTimeout v \<Rightarrow> wait_timeout v
     | Api a \<Rightarrow> bind (run_api a) (\<lambda>_. ret ()))"

text \<open>\<open>except Exception\<close>: in this library \<open>CancelledError\<close> derives from \<open>BaseException\<close> and is not caught.\<close>

definition report :: "unit aio \<Rightarrow> unit aio" where
  "report m = catch m (\<lambda>e. if e = CancelledError then raise e else modify (\<lambda>w. w\<lparr>w_stderr := w_stderr w @ [e]\<rparr>))"

definition handle_run :: "nat \<Rightarrow> unit aio" where
  "handle_run h = bind (gets (\<lambda>w. w_handles w ! h)) (\<lambda>x.
     if \<not> h_cancelled x then report (run_callback (h_fn x) (h_arg x)) else ret ())"

fun due :: "int \<Rightarrow> (int \<times> nat) list \<Rightarrow> nat list" where
  "due now [] = []"
| "due now ((t, h) # xs) = (if t \<le> now then h # due now xs else [])"

fun not_due :: "int \<Rightarrow> (int \<times> nat) list \<Rightarrow> (int \<times> nat) list" where
  "not_due now [] = []"
| "not_due now ((t, h) # xs) = (if t \<le> now then not_due now xs else (t, h) # xs)"

definition promote :: "int \<Rightarrow> unit aio" where
  "promote now = modify (\<lambda>w. w\<lparr>w_ready := w_ready w @ due now (w_sched w), w_sched := not_due now (w_sched w)\<rparr>)"

fun run_ready :: "nat \<Rightarrow> unit aio" where
  "run_ready 0 = ret ()"
| "run_ready (Suc n) = bind (gets w_ready) (\<lambda>rs. case rs of
       [] \<Rightarrow> ret ()
     | h # hs \<Rightarrow> bind (modify (\<lambda>w. w\<lparr>w_ready := hs\<rparr>)) (\<lambda>_. bind (handle_run h) (\<lambda>_. run_ready n)))"

text \<open>
  What the handler of one interrupt does to the loop: an operation, or a coroutine that the
  router wraps in a task.
\<close>

datatype irq = IrqCall api | IrqTask coro

definition run_irq :: "irq \<Rightarrow> unit aio" where
  "run_irq x = (case x of
       IrqCall a \<Rightarrow> bind (run_api a) (\<lambda>_. ret ())
     | IrqTask c \<Rightarrow> bind (create_task c) (\<lambda>_. ret ()))"

text \<open>One turn of the loop, with the interrupts that the hardware layer hands over at this turn.\<close>

definition run_once :: "irq list \<Rightarrow> unit aio" where
  "run_once irqs = bind monotonic (\<lambda>now.
     bind (report (for_each irqs run_irq)) (\<lambda>_.
     bind (promote now) (\<lambda>_.
     bind (gets (\<lambda>w. length (w_ready w))) run_ready)))"

partial_function (option) run_while :: "nat \<Rightarrow> (nat \<Rightarrow> irq list) \<Rightarrow> nat \<Rightarrow> world \<Rightarrow> (unit res \<times> world) option" where
  "run_while f irqs n w = (if f_state (fut_at w f) \<noteq> PENDING \<or> w_stopping w then Some (Inr (), w)
     else case run_once (irqs n) w of
         (Inr _, w') \<Rightarrow> run_while f irqs (Suc n) w'
       | (Inl e, w') \<Rightarrow> Some (Inl e, w'))"

definition run_until_complete :: "awaitable \<Rightarrow> (nat \<Rightarrow> irq list) \<Rightarrow> world \<Rightarrow> (val res \<times> world) option" where
  "run_until_complete a irqs w =
     (case (case a of ACoro c \<Rightarrow> create_task c w | AFut f \<Rightarrow> (Inr f, w)) of
         (Inl e, w1) \<Rightarrow> Some (Inl e, w1)
       | (Inr f, w1) \<Rightarrow> (case run_while f irqs 0 (w1\<lparr>w_running := True, w_stopping := False\<rparr>) of
             None \<Rightarrow> None
           | Some (Inl e, w2) \<Rightarrow> Some (Inl e, w2\<lparr>w_running := False\<rparr>)
           | Some (Inr _, w2) \<Rightarrow>
               (let w3 = w2\<lparr>w_running := False\<rparr> in
                if f_state (fut_at w3 f) = CANCELLED then Some (Inl CancelledError, w3)
                else Some (future_result f w3))))"

end
