(* ===== verification/AsyncInv.thy ===== *)
theory AsyncInv
  imports AsyncRun
begin

section \<open>The scheduling invariant of the event loop\<close>

text \<open>
  Every unfinished task has exactly one pending resumption (a \<open>_step\<close> or \<open>_wakeup\<close>, in the
  ready queue or among the callbacks of a pending future), and a future that is
  done never changes its outcome. \<open>well_formed\<close> says that references between objects are
  valid; \<open>rel\<close> relates the worlds before and after an operation, and \<open>quiet w0 m\<close> says
  that \<open>m\<close> respects it from every world that extends \<open>w0\<close>. Contracts of compound
  operations follow by the rules collected in \<open>quiet_intros\<close>.
\<close>

named_theorems quiet_intros \<open>operations that respect the scheduling invariant\<close>

subsection \<open>Well-formed worlds\<close>

definition is_task :: "world \<Rightarrow> nat \<Rightarrow> bool" where
  "is_task w t \<longleftrightarrow> t < length (w_futs w) \<and> f_task (fut_at w t) \<noteq> None"

fun cb_ok :: "world \<Rightarrow> callback \<Rightarrow> bool" where
  "cb_ok w (Step t) = is_task w t"
| "cb_ok w (Wakeup t) = is_task w t"
| "cb_ok w (SetUnlessCancelled f v) = fut_ok w f"
| "cb_ok w (GatherDone g i) = (g < length (w_gathers w))"
| "cb_ok w (WaitDone v) = (v < length (w_waits w))"
| "cb_ok w (WaitTimeout v) = (v < length (w_waits w))"
| "cb_ok w (Api a) = True"

definition resumes :: "nat \<Rightarrow> callback \<Rightarrow> bool" where
  "resumes t c \<longleftrightarrow> c = Step t \<or> c = Wakeup t"

definition resumption :: "callback \<Rightarrow> bool" where
  "resumption c \<longleftrightarrow> (\<exists>t. resumes t c)"

definition plain_handle :: "world \<Rightarrow> nat \<Rightarrow> bool" where
  "plain_handle w h \<longleftrightarrow> h < length (w_handles w) \<and> \<not> resumption (h_fn (w_handles w ! h))"

fun point_ok :: "world \<Rightarrow> point \<Rightarrow> bool" where
  "point_ok w (Start c) = True"
| "point_ok w (AtFuture f k) = fut_ok w f"
| "point_ok w (AtNone k) = True"
| "point_ok w (AtSem s f k) = (fut_ok w f \<and> s < length (w_sems w))"
| "point_ok w (AtPut q x f k) = (fut_ok w f \<and> q < length (w_queues w))"
| "point_ok w (AtGet q f k) = (fut_ok w f \<and> q < length (w_queues w))"

definition task_ok :: "world \<Rightarrow> task \<Rightarrow> bool" where
  "task_ok w t \<longleftrightarrow> (\<forall>f. t_waiter t = Some f \<longrightarrow> fut_ok w f) \<and> (\<forall>p. t_coro t = Some p \<longrightarrow> point_ok w p)"

definition future_ok :: "world \<Rightarrow> future \<Rightarrow> bool" where
  "future_ok w f \<longleftrightarrow> (f_state f \<noteq> PENDING \<longrightarrow> f_callbacks f = []) \<and> list_all (cb_ok w) (f_callbacks f)
     \<and> (\<forall>t. f_task f = Some t \<longrightarrow> task_ok w t)"

definition handle_ok :: "world \<Rightarrow> handle \<Rightarrow> bool" where
  "handle_ok w h \<longleftrightarrow> cb_ok w (h_fn h) \<and> (\<forall>f. h_arg h = Some f \<longrightarrow> fut_ok w f)
     \<and> (h_arg h = None \<longrightarrow> (\<forall>t. h_fn h \<noteq> Wakeup t))"

definition queue_ok :: "world \<Rightarrow> queue \<Rightarrow> bool" where
  "queue_ok w q \<longleftrightarrow> list_all (fut_ok w) (q_getters q) \<and> list_all (fut_ok w) (q_putters q)"

definition waiting_ok :: "world \<Rightarrow> waiting \<Rightarrow> bool" where
  "waiting_ok w v \<longleftrightarrow> v_event v < length (w_events w) \<and> (\<forall>h. v_handle v = Some h \<longrightarrow> plain_handle w h)"

definition well_formed :: "world \<Rightarrow> bool" where
  "well_formed w \<longleftrightarrow> list_all (future_ok w) (w_futs w) \<and> list_all (handle_ok w) (w_handles w)
     \<and> list_all (\<lambda>h. h < length (w_handles w)) (w_ready w) \<and> list_all (\<lambda>x. plain_handle w (snd x)) (w_sched w)
     \<and> list_all (\<lambda>e. list_all (fut_ok w) (e_waiters e)) (w_events w)
     \<and> list_all (\<lambda>l. list_all (fut_ok w) (l_waiters l)) (w_locks w)
     \<and> list_all (\<lambda>s. list_all (fut_ok w) (s_waiters s)) (w_sems w)
     \<and> list_all (queue_ok w) (w_queues w) \<and> list_all (\<lambda>g. fut_ok w (g_outer g)) (w_gathers w)
     \<and> list_all (waiting_ok w) (w_waits w)"

subsection \<open>Pending resumptions\<close>

definition coro_of :: "world \<Rightarrow> nat \<Rightarrow> point option" where
  "coro_of w t = (if t < length (w_futs w) then Option.bind (f_task (fut_at w t)) t_coro else None)"

definition live :: "world \<Rightarrow> nat \<Rightarrow> nat" where
  "live w t = (if coro_of w t = None then 0 else 1)"

definition in_ready :: "world \<Rightarrow> nat \<Rightarrow> nat" where
  "in_ready w t = length (filter (\<lambda>h. \<not> h_cancelled (w_handles w ! h) \<and> resumes t (h_fn (w_handles w ! h))) (w_ready w))"

definition in_callbacks :: "world \<Rightarrow> nat \<Rightarrow> nat" where
  "in_callbacks w t = sum_list (map (\<lambda>f. length (filter (resumes t) (f_callbacks f))) (w_futs w))"

definition pending :: "world \<Rightarrow> nat \<Rightarrow> nat" where
  "pending w t = in_ready w t + in_callbacks w t"

definition balance :: "world \<Rightarrow> nat \<Rightarrow> int" where
  "balance w t = int (live w t) - int (pending w t)"

subsection \<open>The relation\<close>

definition ext :: "world \<Rightarrow> world \<Rightarrow> bool" where
  "ext w w' \<longleftrightarrow> length (w_futs w) \<le> length (w_futs w') \<and> (\<forall>t. is_task w t \<longrightarrow> is_task w' t)
     \<and> length (w_handles w) \<le> length (w_handles w')
     \<and> (\<forall>h < length (w_handles w). h_fn (w_handles w' ! h) = h_fn (w_handles w ! h))
     \<and> length (w_events w) \<le> length (w_events w') \<and> length (w_locks w) \<le> length (w_locks w')
     \<and> length (w_sems w) \<le> length (w_sems w') \<and> length (w_queues w) \<le> length (w_queues w')
     \<and> length (w_gathers w) \<le> length (w_gathers w') \<and> length (w_waits w) \<le> length (w_waits w')"

definition settled_kept :: "world \<Rightarrow> world \<Rightarrow> bool" where
  "settled_kept w w' \<longleftrightarrow> (\<forall>f < length (w_futs w). f_state (fut_at w f) \<noteq> PENDING \<longrightarrow>
     f_state (fut_at w' f) = f_state (fut_at w f) \<and> outcome (fut_at w' f) = outcome (fut_at w f))"

definition coros_kept :: "world \<Rightarrow> world \<Rightarrow> bool" where
  "coros_kept w w' \<longleftrightarrow> (\<forall>t < length (w_futs w). coro_of w' t = coro_of w t)"

definition rel :: "world \<Rightarrow> world \<Rightarrow> bool" where
  "rel w w' \<longleftrightarrow> well_formed w' \<and> ext w w' \<and> settled_kept w w' \<and> coros_kept w w' \<and> (\<forall>t. balance w' t = balance w t)"

definition quiet :: "world \<Rightarrow> 'a aio \<Rightarrow> bool" where
  "quiet w0 m \<longleftrightarrow> (\<forall>w. well_formed w \<longrightarrow> ext w0 w \<longrightarrow> rel w (snd (m w)))"

lemma ext_refl [simp]: "ext w w" by (simp add: ext_def)

lemma ext_trans: "ext a b \<Longrightarrow> ext b c \<Longrightarrow> ext a c"
  unfolding ext_def by (intro conjI allI impI; elim conjE) (auto intro: le_trans)

lemma rel_refl: "well_formed w \<Longrightarrow> rel w w"
  by (simp add: rel_def settled_kept_def coros_kept_def)

lemma rel_trans: "rel a b \<Longrightarrow> rel b c \<Longrightarrow> rel a c"
  unfolding rel_def
  by (intro conjI; elim conjE) (auto simp: settled_kept_def coros_kept_def ext_def intro: ext_trans)

lemma fut_ok_ext: "ext w w' \<Longrightarrow> fut_ok w f \<Longrightarrow> fut_ok w' f"
  by (simp add: ext_def fut_ok_def)

lemma cb_ok_ext: "ext w w' \<Longrightarrow> cb_ok w c \<Longrightarrow> cb_ok w' c"
  by (cases c) (auto simp: ext_def fut_ok_def)

lemma plain_handle_ext: "ext w w' \<Longrightarrow> plain_handle w h \<Longrightarrow> plain_handle w' h"
  by (auto simp: ext_def plain_handle_def)

lemma point_ok_ext: "ext w w' \<Longrightarrow> point_ok w p \<Longrightarrow> point_ok w' p"
  by (cases p) (auto simp: ext_def fut_ok_def)

lemma list_all_ext:
  assumes "ext w w'" "list_all (P w) xs" "\<And>x. P w x \<Longrightarrow> P w' x"
  shows "list_all (P w') xs"
  using assms(2,3) by (auto simp: list_all_iff)

lemma task_ok_ext: "ext w w' \<Longrightarrow> task_ok w t \<Longrightarrow> task_ok w' t"
  by (auto simp: task_ok_def intro: fut_ok_ext point_ok_ext)

lemma future_ok_ext: "ext w w' \<Longrightarrow> future_ok w f \<Longrightarrow> future_ok w' f"
  by (auto simp: future_ok_def list_all_iff intro: cb_ok_ext task_ok_ext)

lemma handle_ok_ext: "ext w w' \<Longrightarrow> handle_ok w h \<Longrightarrow> handle_ok w' h"
  by (auto simp: handle_ok_def intro: cb_ok_ext fut_ok_ext)

lemma queue_ok_ext: "ext w w' \<Longrightarrow> queue_ok w h \<Longrightarrow> queue_ok w' h"
  by (auto simp: queue_ok_def list_all_iff intro: fut_ok_ext)

lemma waiting_ok_ext: "ext w w' \<Longrightarrow> waiting_ok w h \<Longrightarrow> waiting_ok w' h"
  by (auto simp: waiting_ok_def intro: fut_ok_ext plain_handle_ext) (simp add: ext_def)

lemmas ok_ext = fut_ok_ext cb_ok_ext plain_handle_ext point_ok_ext task_ok_ext future_ok_ext handle_ok_ext
  queue_ok_ext waiting_ok_ext

text \<open>A world that extends a well-formed one is well-formed if its changed parts are.\<close>

lemma well_formed_ext:
  assumes "well_formed w" "ext w w'"
    "\<And>f. f \<in> set (w_futs w') \<Longrightarrow> f \<in> set (w_futs w) \<or> future_ok w' f"
    "\<And>h. h \<in> set (w_handles w') \<Longrightarrow> h \<in> set (w_handles w) \<or> handle_ok w' h"
    "\<And>h. h \<in> set (w_ready w') \<Longrightarrow> h \<in> set (w_ready w) \<or> h < length (w_handles w')"
    "\<And>x. x \<in> set (w_sched w') \<Longrightarrow> x \<in> set (w_sched w) \<or> plain_handle w' (snd x)"
    "\<And>x. x \<in> set (w_events w') \<Longrightarrow> x \<in> set (w_events w) \<or> list_all (fut_ok w') (e_waiters x)"
    "\<And>x. x \<in> set (w_locks w') \<Longrightarrow> x \<in> set (w_locks w) \<or> list_all (fut_ok w') (l_waiters x)"
    "\<And>x. x \<in> set (w_sems w') \<Longrightarrow> x \<in> set (w_sems w) \<or> list_all (fut_ok w') (s_waiters x)"
    "\<And>x. x \<in> set (w_queues w') \<Longrightarrow> x \<in> set (w_queues w) \<or> queue_ok w' x"
    "\<And>x. x \<in> set (w_gathers w') \<Longrightarrow> x \<in> set (w_gathers w) \<or> fut_ok w' (g_outer x)"
    "\<And>x. x \<in> set (w_waits w') \<Longrightarrow> x \<in> set (w_waits w) \<or> waiting_ok w' x"
  shows "well_formed w'"
proof -
  have l: "length (w_handles w) \<le> length (w_handles w')" using assms(2) by (simp add: ext_def)
  show ?thesis
    unfolding well_formed_def list_all_iff
    using assms(1) [unfolded well_formed_def list_all_iff] assms(3-) ok_ext [OF assms(2)] l
    by (intro conjI ballI) (meson less_le_trans list_all_iff)+
qed


subsection \<open>The rules\<close>

lemma quietI: "(\<And>w. well_formed w \<Longrightarrow> ext w0 w \<Longrightarrow> rel w (snd (m w))) \<Longrightarrow> quiet w0 m"
  by (simp add: quiet_def)

lemma quietD: "quiet w0 m \<Longrightarrow> well_formed w \<Longrightarrow> ext w0 w \<Longrightarrow> rel w (snd (m w))"
  by (simp add: quiet_def)

lemma quiet_pure [quiet_intros]: "quiet w0 (ret x)" "quiet w0 (raise e)" "quiet w0 (gets g)" "quiet w0 (lift_res r)"
  by (auto intro!: quietI rel_refl)

lemma quiet_bind_gets [quiet_intros]:
  assumes "\<And>w. well_formed w \<Longrightarrow> ext w0 w \<Longrightarrow> quiet w (f (g w))"
  shows "quiet w0 (bind (gets g) f)"
proof (rule quietI)
  fix w
  assume "well_formed w" "ext w0 w"
  then show "rel w (snd (bind (gets g) f w))" using quietD [OF assms, of w w] by simp
qed

lemma quiet_bind_of:
  assumes "quiet w0 m"
    "\<And>w x w'. well_formed w \<Longrightarrow> ext w0 w \<Longrightarrow> m w = (Inr x, w') \<Longrightarrow> well_formed w' \<Longrightarrow> ext w0 w' \<Longrightarrow> quiet w' (f x)"
  shows "quiet w0 (bind m f)"
proof (rule quietI)
  fix w
  assume w: "well_formed w" "ext w0 w"
  obtain r w' where m: "m w = (r, w')" by fastforce
  have r: "rel w w'" using quietD [OF assms(1) w] m by simp
  then have w': "well_formed w'" "ext w0 w'" using w ext_trans by (auto simp: rel_def)
  show "rel w (snd (bind m f w))"
  proof (cases r)
    case (Inr x)
    then show ?thesis using quietD [OF assms(2) [OF w _ w'] w'(1) ext_refl] m r
      by (auto simp: bind_def intro: rel_trans)
  qed (use r m in \<open>simp add: bind_def\<close>)
qed

lemma quiet_ext: "quiet w0 m \<Longrightarrow> ext w0 w \<Longrightarrow> quiet w m"
  unfolding quiet_def using ext_trans by blast

lemma quiet_bind: "quiet w0 m \<Longrightarrow> (\<And>x. quiet w0 (f x)) \<Longrightarrow> quiet w0 (bind m f)"
  by (rule quiet_bind_of) (auto intro: quiet_ext)

lemma quiet_if [quiet_intros]: "(b \<Longrightarrow> quiet w0 m) \<Longrightarrow> (\<not> b \<Longrightarrow> quiet w0 m') \<Longrightarrow> quiet w0 (if b then m else m')"
  by simp

lemma quiet_option [quiet_intros]:
  "(x = None \<Longrightarrow> quiet w0 m) \<Longrightarrow> (\<And>y. x = Some y \<Longrightarrow> quiet w0 (f y)) \<Longrightarrow> quiet w0 (case x of None \<Rightarrow> m | Some y \<Rightarrow> f y)"
  by (cases x) auto

lemma quiet_list [quiet_intros]:
  "(xs = [] \<Longrightarrow> quiet w0 m) \<Longrightarrow> (\<And>y ys. xs = y # ys \<Longrightarrow> quiet w0 (f y ys)) \<Longrightarrow> quiet w0 (case xs of [] \<Rightarrow> m | y # ys \<Rightarrow> f y ys)"
  by (cases xs) auto

lemma quiet_for_each: "(\<And>x. x \<in> set xs \<Longrightarrow> quiet w0 (g x)) \<Longrightarrow> quiet w0 (for_each xs g)"
  by (induction xs) (auto intro: quiet_intros quiet_bind)

lemma quiet_catch: 
  assumes "quiet w0 m" "\<And>e. quiet w0 (h e)"
  shows "quiet w0 (catch m h)"
proof (rule quietI)
  fix w
  assume w: "well_formed w" "ext w0 w"
  obtain r w' where m: "m w = (r, w')" by fastforce
  have r: "rel w w'" using quietD [OF assms(1) w] m by simp
  then have w': "well_formed w'" "ext w0 w'" using w ext_trans by (auto simp: rel_def)
  show "rel w (snd (catch m h w))"
    using r m rel_trans [OF r quietD [OF assms(2) w']] by (cases r) (simp_all add: catch_def)
qed

subsection \<open>Operations on the objects that hold no resumption\<close>

lemma balance_cong: "w_futs w' = w_futs w \<Longrightarrow> w_handles w' = w_handles w \<Longrightarrow> w_ready w' = w_ready w \<Longrightarrow> balance w' t = balance w t"
  by (simp add: balance_def live_def coro_of_def pending_def in_ready_def in_callbacks_def)

lemma rel_same_core:
  assumes "well_formed w'" "ext w w'" "w_futs w' = w_futs w" "w_handles w' = w_handles w" "w_ready w' = w_ready w"
  shows "rel w w'"
  using assms balance_cong [of w' w] by (simp add: rel_def settled_kept_def coros_kept_def coro_of_def)

lemma well_formed_parts:
  assumes "well_formed w"
  shows "f < length (w_futs w) \<Longrightarrow> future_ok w (fut_at w f)"
    "h < length (w_handles w) \<Longrightarrow> handle_ok w (w_handles w ! h)"
    "e < length (w_events w) \<Longrightarrow> list_all (fut_ok w) (e_waiters (w_events w ! e))"
    "l < length (w_locks w) \<Longrightarrow> list_all (fut_ok w) (l_waiters (w_locks w ! l))"
    "s < length (w_sems w) \<Longrightarrow> list_all (fut_ok w) (s_waiters (w_sems w ! s))"
    "q < length (w_queues w) \<Longrightarrow> queue_ok w (w_queues w ! q)"
    "g < length (w_gathers w) \<Longrightarrow> fut_ok w (g_outer (w_gathers w ! g))"
    "v < length (w_waits w) \<Longrightarrow> waiting_ok w (w_waits w ! v)"
  using assms by (simp_all add: well_formed_def list_all_length)

lemma ext_lengths:
  assumes "ext w0 w"
  shows "e < length (w_events w0) \<Longrightarrow> e < length (w_events w)" "l < length (w_locks w0) \<Longrightarrow> l < length (w_locks w)"
    "s < length (w_sems w0) \<Longrightarrow> s < length (w_sems w)" "q < length (w_queues w0) \<Longrightarrow> q < length (w_queues w)"
    "g < length (w_gathers w0) \<Longrightarrow> g < length (w_gathers w)" "v < length (w_waits w0) \<Longrightarrow> v < length (w_waits w)"
    "h < length (w_handles w0) \<Longrightarrow> h < length (w_handles w)"
  using assms by (auto simp: ext_def)

lemma set_update_memE: "x \<in> set (xs[i := y]) \<Longrightarrow> x \<in> set xs \<or> x = y"
  using set_update_subset_insert [of xs i y] by auto

text \<open>A change of the other objects only has to keep their references valid.\<close>

lemma quiet_objects:
  assumes "\<And>w. w_futs (u w) = w_futs w \<and> w_handles (u w) = w_handles w \<and> w_ready (u w) = w_ready w"
    "\<And>w. length (w_events w) \<le> length (w_events (u w)) \<and> length (w_locks w) \<le> length (w_locks (u w))
      \<and> length (w_sems w) \<le> length (w_sems (u w)) \<and> length (w_queues w) \<le> length (w_queues (u w))
      \<and> length (w_gathers w) \<le> length (w_gathers (u w)) \<and> length (w_waits w) \<le> length (w_waits (u w))"
    "\<And>w x. well_formed w \<Longrightarrow> ext w0 w \<Longrightarrow> x \<in> set (w_sched (u w)) \<Longrightarrow> x \<in> set (w_sched w) \<or> plain_handle w (snd x)"
    "\<And>w x. well_formed w \<Longrightarrow> ext w0 w \<Longrightarrow> x \<in> set (w_events (u w)) \<Longrightarrow> x \<in> set (w_events w) \<or> list_all (fut_ok w) (e_waiters x)"
    "\<And>w x. well_formed w \<Longrightarrow> ext w0 w \<Longrightarrow> x \<in> set (w_locks (u w)) \<Longrightarrow> x \<in> set (w_locks w) \<or> list_all (fut_ok w) (l_waiters x)"
    "\<And>w x. well_formed w \<Longrightarrow> ext w0 w \<Longrightarrow> x \<in> set (w_sems (u w)) \<Longrightarrow> x \<in> set (w_sems w) \<or> list_all (fut_ok w) (s_waiters x)"
    "\<And>w x. well_formed w \<Longrightarrow> ext w0 w \<Longrightarrow> x \<in> set (w_queues (u w)) \<Longrightarrow> x \<in> set (w_queues w) \<or> queue_ok w x"
    "\<And>w x. well_formed w \<Longrightarrow> ext w0 w \<Longrightarrow> x \<in> set (w_gathers (u w)) \<Longrightarrow> x \<in> set (w_gathers w) \<or> fut_ok w (g_outer x)"
    "\<And>w x. well_formed w \<Longrightarrow> ext w0 w \<Longrightarrow> x \<in> set (w_waits (u w)) \<Longrightarrow> x \<in> set (w_waits w) \<or> waiting_ok w x"
  shows "quiet w0 (modify u)"
proof (rule quietI)
  fix w :: world
  assume w: "well_formed w" "ext w0 w"
  have x: "ext w (u w)" using assms(1,2) by (simp add: ext_def is_task_def)
  note k = ok_ext [OF x]
  have "well_formed (u w)"
  proof (rule well_formed_ext [OF w(1) x])
    show "x \<in> set (w_events w) \<or> list_all (fut_ok (u w)) (e_waiters x)" if "x \<in> set (w_events (u w))" for x
      using assms(4) [OF w that] k(1) by (auto simp: list_all_iff)
    show "x \<in> set (w_locks w) \<or> list_all (fut_ok (u w)) (l_waiters x)" if "x \<in> set (w_locks (u w))" for x
      using assms(5) [OF w that] k(1) by (auto simp: list_all_iff)
    show "x \<in> set (w_sems w) \<or> list_all (fut_ok (u w)) (s_waiters x)" if "x \<in> set (w_sems (u w))" for x
      using assms(6) [OF w that] k(1) by (auto simp: list_all_iff)
  qed (use assms(1) in \<open>simp_all\<close>, use assms(3,7-9) [OF w] k in blast)+
  then show "rel w (snd (modify u w))" using rel_same_core [OF _ x] assms(1) by simp
qed

lemma quiet_upd_event:
  assumes "e < length (w_events w0)"
    "\<And>w v. ext w0 w \<Longrightarrow> list_all (fut_ok w) (e_waiters v) \<Longrightarrow> list_all (fut_ok w) (e_waiters (g v))"
  shows "quiet w0 (upd_event e g)"
proof -
  have "list_all (fut_ok w) (e_waiters (g (w_events w ! e)))" if "well_formed w" "ext w0 w" for w
    using well_formed_parts(3) [OF that(1) ext_lengths(1) [OF that(2) assms(1)]] by (rule assms(2) [OF that(2)])
  then show ?thesis unfolding upd_event_def by - (rule quiet_objects, auto dest!: set_update_memE)
qed

lemma quiet_upd_lock:
  assumes "e < length (w_locks w0)"
    "\<And>w v. ext w0 w \<Longrightarrow> list_all (fut_ok w) (l_waiters v) \<Longrightarrow> list_all (fut_ok w) (l_waiters (g v))"
  shows "quiet w0 (upd_lock e g)"
proof -
  have "list_all (fut_ok w) (l_waiters (g (w_locks w ! e)))" if "well_formed w" "ext w0 w" for w
    using well_formed_parts(4) [OF that(1) ext_lengths(2) [OF that(2) assms(1)]] by (rule assms(2) [OF that(2)])
  then show ?thesis unfolding upd_lock_def by - (rule quiet_objects, auto dest!: set_update_memE)
qed

lemma quiet_upd_sem:
  assumes "e < length (w_sems w0)"
    "\<And>w v. ext w0 w \<Longrightarrow> list_all (fut_ok w) (s_waiters v) \<Longrightarrow> list_all (fut_ok w) (s_waiters (g v))"
  shows "quiet w0 (upd_sem e g)"
proof -
  have "list_all (fut_ok w) (s_waiters (g (w_sems w ! e)))" if "well_formed w" "ext w0 w" for w
    using well_formed_parts(5) [OF that(1) ext_lengths(3) [OF that(2) assms(1)]] by (rule assms(2) [OF that(2)])
  then show ?thesis unfolding upd_sem_def by - (rule quiet_objects, auto dest!: set_update_memE)
qed

lemma quiet_upd_queue:
  assumes "e < length (w_queues w0)" "\<And>w v. ext w0 w \<Longrightarrow> queue_ok w v \<Longrightarrow> queue_ok w (g v)"
  shows "quiet w0 (upd_queue e g)"
proof -
  have "queue_ok w (g (w_queues w ! e))" if "well_formed w" "ext w0 w" for w
    using well_formed_parts(6) [OF that(1) ext_lengths(4) [OF that(2) assms(1)]] by (rule assms(2) [OF that(2)])
  then show ?thesis unfolding upd_queue_def by - (rule quiet_objects, auto dest!: set_update_memE)
qed

lemma quiet_upd_gather:
  assumes "e < length (w_gathers w0)" "\<And>v. g_outer (g v) = g_outer v"
  shows "quiet w0 (upd_gather e g)"
proof -
  have "fut_ok w (g_outer (g (w_gathers w ! e)))" if "well_formed w" "ext w0 w" for w
    using well_formed_parts(7) [OF that(1) ext_lengths(5) [OF that(2) assms(1)]] by (simp add: assms(2))
  then show ?thesis unfolding upd_gather_def by - (rule quiet_objects, auto dest!: set_update_memE)
qed

lemma quiet_upd_wait:
  assumes "e < length (w_waits w0)" "\<And>w v. ext w0 w \<Longrightarrow> waiting_ok w v \<Longrightarrow> waiting_ok w (g v)"
  shows "quiet w0 (upd_wait e g)"
proof -
  have "waiting_ok w (g (w_waits w ! e))" if "well_formed w" "ext w0 w" for w
    using well_formed_parts(8) [OF that(1) ext_lengths(6) [OF that(2) assms(1)]] by (rule assms(2) [OF that(2)])
  then show ?thesis unfolding upd_wait_def by - (rule quiet_objects, auto dest!: set_update_memE)
qed

lemma quiet_flags [quiet_intros]:
  "quiet w0 (modify (\<lambda>w. w\<lparr>w_stopping := b\<rparr>))" "quiet w0 (modify (\<lambda>w. w\<lparr>w_reads := Suc (w_reads w)\<rparr>))"
  "quiet w0 (modify (\<lambda>w. w\<lparr>w_stderr := w_stderr w @ [e]\<rparr>))" "quiet w0 (modify (\<lambda>w. w\<lparr>w_running := b\<rparr>))"
  by (rule quiet_objects; simp)+

lemma quiet_news [quiet_intros]:
  "quiet w0 (modify (\<lambda>w. w\<lparr>w_events := w_events w @ [\<lparr>e_flag = b, e_waiters = []\<rparr>]\<rparr>))"
  "quiet w0 (modify (\<lambda>w. w\<lparr>w_locks := w_locks w @ [\<lparr>l_locked = b, l_waiters = []\<rparr>]\<rparr>))"
  "quiet w0 (modify (\<lambda>w. w\<lparr>w_sems := w_sems w @ [\<lparr>s_value = v, s_waiters = []\<rparr>]\<rparr>))"
  "quiet w0 (modify (\<lambda>w. w\<lparr>w_queues := w_queues w @ [\<lparr>q_maxsize = n, q_items = [], q_getters = [], q_putters = []\<rparr>]\<rparr>))"
  by (rule quiet_objects; auto simp: queue_ok_def)+

subsection \<open>Futures and handles\<close>

lemma sum_list_map_update:
  fixes g :: "'a \<Rightarrow> nat"
  shows "i < length xs \<Longrightarrow> sum_list (map g (xs[i := y])) + g (xs ! i) = sum_list (map g xs) + g y"
  by (induction xs arbitrary: i) (auto split: nat.splits)

lemma in_callbacks_update:
  assumes "f < length (w_futs w)"
  shows "in_callbacks (w\<lparr>w_futs := (w_futs w)[f := fu]\<rparr>) t + length (filter (resumes t) (f_callbacks (fut_at w f)))
    = in_callbacks w t + length (filter (resumes t) (f_callbacks fu))"
  using sum_list_map_update [OF assms, of "\<lambda>f. length (filter (resumes t) (f_callbacks f))" fu]
  by (simp add: in_callbacks_def)

lemma filter_new_handles:
  "length (filter (\<lambda>h. P ((hs @ ys) ! h)) [length hs..<length hs + length ys]) = length (filter P ys)"
proof -
  have "map (\<lambda>h. (hs @ ys) ! h) [length hs..<length hs + length ys] = ys"
    by (rule nth_equalityI) auto
  from arg_cong [OF this, of "\<lambda>z. length (filter P z)"] show ?thesis by (simp add: filter_map comp_def)
qed

text \<open>New handles, put at the end of the ready queue.\<close>

definition enqueue :: "handle list \<Rightarrow> world \<Rightarrow> world" where
  "enqueue hs w = w\<lparr>w_handles := w_handles w @ hs,
     w_ready := w_ready w @ [length (w_handles w)..<length (w_handles w) + length hs]\<rparr>"

lemma enqueue_simps [simp]:
  "w_futs (enqueue hs w) = w_futs w" "w_sched (enqueue hs w) = w_sched w" "w_events (enqueue hs w) = w_events w"
  "w_locks (enqueue hs w) = w_locks w" "w_sems (enqueue hs w) = w_sems w" "w_queues (enqueue hs w) = w_queues w"
  "w_gathers (enqueue hs w) = w_gathers w" "w_waits (enqueue hs w) = w_waits w" "w_handles (enqueue hs w) = w_handles w @ hs"
  by (simp_all add: enqueue_def)

lemma enqueue_append: "enqueue ys (enqueue xs w) = enqueue (xs @ ys) w"
  using upt_add_eq_append [of "length (w_handles w)" "length (w_handles w) + length xs" "length ys"]
  by (simp add: enqueue_def add.assoc)

definition handle_of :: "nat option \<Rightarrow> callback \<Rightarrow> handle" where
  "handle_of a c = \<lparr>h_fn = c, h_arg = a, h_cancelled = False\<rparr>"

lemma call_soon_run: "call_soon c a w = (Inr (length (w_handles w)), enqueue [handle_of a c] w)"
  by (simp add: call_soon_def new_handle_def bind_def enqueue_def handle_of_def)

lemma schedule_run:
  "for_each cs (\<lambda>fn. bind (call_soon fn (Some f)) (\<lambda>_. ret ())) w = (Inr (), enqueue (map (handle_of (Some f)) cs) w)"
proof (induction cs arbitrary: w)
  case Nil
  then show ?case by (simp add: enqueue_def)
qed (simp add: bind_def call_soon_run enqueue_append)

lemma ext_enqueue: "ext w (enqueue hs w)"
  by (simp add: ext_def is_task_def nth_append)

lemma in_ready_enqueue:
  assumes "well_formed w"
  shows "in_ready (enqueue hs w) t = in_ready w t + length (filter (\<lambda>h. \<not> h_cancelled h \<and> resumes t (h_fn h)) hs)"
proof -
  let ?P = "\<lambda>h. \<not> h_cancelled h \<and> resumes t (h_fn h)"
  have "filter (\<lambda>h. ?P ((w_handles w @ hs) ! h)) (w_ready w) = filter (\<lambda>h. ?P (w_handles w ! h)) (w_ready w)"
    using assms by (intro filter_cong refl) (auto simp: well_formed_def list_all_iff nth_append)
  then show ?thesis
    using filter_new_handles [of ?P "w_handles w" hs] by (simp add: in_ready_def enqueue_def)
qed

lemma pending_enqueue:
  assumes "well_formed w"
  shows "pending (enqueue hs w) t = pending w t + length (filter (\<lambda>h. \<not> h_cancelled h \<and> resumes t (h_fn h)) hs)"
  using in_ready_enqueue [OF assms] by (simp add: pending_def in_callbacks_def)

lemma handle_of_resumes [simp]: "(\<lambda>h. \<not> h_cancelled h \<and> resumes t (h_fn h)) \<circ> handle_of a = resumes t"
  by (simp add: comp_def handle_of_def)

lemma well_formed_enqueue:
  assumes "well_formed w" "list_all (handle_ok w) hs"
  shows "well_formed (enqueue hs w)"
  by (rule well_formed_ext [OF assms(1) ext_enqueue])
    (use assms(2) ok_ext [OF ext_enqueue [of w hs]] in \<open>auto simp: list_all_iff enqueue_def\<close>)

lemma live_enqueue [simp]: "live (enqueue hs w) t = live w t" "coro_of (enqueue hs w) t = coro_of w t"
  by (simp_all add: live_def coro_of_def)

lemma quiet_call_soon:
  assumes "cb_ok w0 c" "\<not> resumption c" "\<And>f. a = Some f \<Longrightarrow> fut_ok w0 f"
  shows "quiet w0 (call_soon c a)"
proof (rule quietI)
  fix w
  assume w: "well_formed w" "ext w0 w"
  have k: "list_all (handle_ok w) [handle_of a c]"
    using assms cb_ok_ext [OF w(2)] fut_ok_ext [OF w(2)] by (auto simp: handle_ok_def handle_of_def resumption_def resumes_def)
  have "balance (enqueue [handle_of a c] w) t = balance w t" for t
    using pending_enqueue [OF w(1), of "[handle_of a c]" t] assms(2)
    by (simp add: balance_def handle_of_def resumption_def)
  then show "rel w (snd (call_soon c a w))"
    using well_formed_enqueue [OF w(1) k] ext_enqueue [of w]
    by (simp add: call_soon_run rel_def settled_kept_def coros_kept_def)
qed

text \<open>A change of one future that keeps its callbacks, coroutine and outcome.\<close>

lemma coro_of_update:
  "f < length (w_futs w) \<Longrightarrow> coro_of (w\<lparr>w_futs := (w_futs w)[f := fu]\<rparr>) t =
     (if t = f then Option.bind (f_task fu) t_coro else coro_of w t)"
  by (auto simp: coro_of_def)

lemma ext_update:
  assumes "f < length (w_futs w)" "f_task fu = None \<longleftrightarrow> f_task (fut_at w f) = None"
  shows "ext w (w\<lparr>w_futs := (w_futs w)[f := fu]\<rparr>)"
  using assms by (auto simp: ext_def is_task_def nth_list_update)

lemma well_formed_update:
  assumes "well_formed w" "f < length (w_futs w)" "f_task fu = None \<longleftrightarrow> f_task (fut_at w f) = None" "future_ok w fu"
  shows "well_formed (w\<lparr>w_futs := (w_futs w)[f := fu]\<rparr>)"
proof (rule well_formed_ext [OF assms(1) ext_update [OF assms(2,3)]])
  have "future_ok (w\<lparr>w_futs := (w_futs w)[f := fu]\<rparr>) fu"
    by (rule future_ok_ext [OF ext_update [OF assms(2,3)] assms(4)])
  then show "x \<in> set (w_futs w) \<or> future_ok (w\<lparr>w_futs := (w_futs w)[f := fu]\<rparr>) x"
    if "x \<in> set (w_futs (w\<lparr>w_futs := (w_futs w)[f := fu]\<rparr>))" for x
    using that by (auto dest: set_update_memE)
qed simp_all

lemma pending_update:
  assumes "f < length (w_futs w)"
  shows "pending (w\<lparr>w_futs := (w_futs w)[f := fu]\<rparr>) t + length (filter (resumes t) (f_callbacks (fut_at w f)))
    = pending w t + length (filter (resumes t) (f_callbacks fu))"
  using in_callbacks_update [OF assms, of fu t] by (simp add: pending_def in_ready_def)

lemma rel_update:
  assumes "well_formed w" "f < length (w_futs w)" "future_ok w fu"
    "f_task fu = None \<longleftrightarrow> f_task (fut_at w f) = None" "Option.bind (f_task fu) t_coro = Option.bind (f_task (fut_at w f)) t_coro"
    "\<And>t. length (filter (resumes t) (f_callbacks fu)) = length (filter (resumes t) (f_callbacks (fut_at w f)))"
    "f_state (fut_at w f) \<noteq> PENDING \<Longrightarrow> f_state fu = f_state (fut_at w f) \<and> outcome fu = outcome (fut_at w f)"
  shows "rel w (w\<lparr>w_futs := (w_futs w)[f := fu]\<rparr>)"
proof -
  have "coro_of (w\<lparr>w_futs := (w_futs w)[f := fu]\<rparr>) t = coro_of w t" for t
    using assms(2,5) by (auto simp: coro_of_update) (simp add: coro_of_def)
  moreover have "pending (w\<lparr>w_futs := (w_futs w)[f := fu]\<rparr>) t = pending w t" for t
    using pending_update [OF assms(2), of fu t] assms(6) by simp
  moreover have "settled_kept w (w\<lparr>w_futs := (w_futs w)[f := fu]\<rparr>)"
    unfolding settled_kept_def
  proof (intro allI impI)
    fix g
    assume "g < length (w_futs w)" "f_state (fut_at w g) \<noteq> PENDING"
    then show "f_state (fut_at (w\<lparr>w_futs := (w_futs w)[f := fu]\<rparr>) g) = f_state (fut_at w g)
        \<and> outcome (fut_at (w\<lparr>w_futs := (w_futs w)[f := fu]\<rparr>) g) = outcome (fut_at w g)"
      using assms(7) by (cases "g = f") simp_all
  qed
  ultimately show ?thesis
    using well_formed_update [OF assms(1,2,4,3)] ext_update [OF assms(2,4)]
    by (simp add: rel_def coros_kept_def balance_def live_def)
qed

text \<open>Settling a pending future moves its callbacks to the ready queue.\<close>

lemma rel_settle:
  assumes "well_formed w" "f < length (w_futs w)" "f_state (fut_at w f) = PENDING"
    "f_state fu \<noteq> PENDING" "f_task fu = f_task (fut_at w f)" "f_callbacks fu = []"
  shows "rel w (enqueue (map (handle_of (Some f)) (f_callbacks (fut_at w f))) (w\<lparr>w_futs := (w_futs w)[f := fu]\<rparr>))"
proof -
  let ?u = "w\<lparr>w_futs := (w_futs w)[f := fu]\<rparr>"
  let ?hs = "map (handle_of (Some f)) (f_callbacks (fut_at w f))"
  have fo: "future_ok w (fut_at w f)" using well_formed_parts(1) [OF assms(1,2)] .
  then have "future_ok w fu" using assms(5,6) by (simp add: future_ok_def)
  then have u: "well_formed ?u" "ext w ?u"
    using well_formed_update [OF assms(1,2)] ext_update [OF assms(2)] assms(5) by simp_all
  have "list_all (handle_ok ?u) ?hs"
    using fo assms(2) ok_ext(1,2) [OF u(2)] by (auto simp: future_ok_def handle_ok_def handle_of_def list_all_iff fut_ok_def)
  then have wf: "well_formed (enqueue ?hs ?u)" by (rule well_formed_enqueue [OF u(1)])
  have c: "coro_of ?u t = coro_of w t" for t
    using assms(2,5) by (auto simp: coro_of_update) (simp add: coro_of_def)
  have "pending (enqueue ?hs ?u) t = pending w t" for t
    using pending_update [OF assms(2), of fu t] pending_enqueue [OF u(1), of ?hs t] assms(6) by simp
  then have "balance (enqueue ?hs ?u) t = balance w t" for t
    using c by (simp add: balance_def live_def)
  moreover have "ext w (enqueue ?hs ?u)" using ext_trans [OF u(2) ext_enqueue] .
  moreover have "settled_kept w (enqueue ?hs ?u)"
    unfolding settled_kept_def
  proof (intro allI impI)
    fix g
    assume "g < length (w_futs w)" "f_state (fut_at w g) \<noteq> PENDING"
    then show "f_state (fut_at (enqueue ?hs ?u) g) = f_state (fut_at w g) \<and> outcome (fut_at (enqueue ?hs ?u) g) = outcome (fut_at w g)"
      using assms(3) by (cases "g = f") simp_all
  qed
  ultimately show ?thesis using wf c by (simp add: rel_def coros_kept_def)
qed

end
