(* ===== verification/AsyncOps.thy ===== *)
theory AsyncOps
  imports AsyncInv
begin

section \<open>Every operation of the library keeps the scheduling invariant\<close>

text \<open>
  The contract \<open>quiet\<close> for every operation of \<open>asyncio\<close>, and from it the properties
  of the running loop: references stay valid, an unfinished task has exactly one pending
  resumption, and a future that is done keeps its outcome.
\<close>

subsection \<open>Futures\<close>

lemma outcome_update [simp]: "outcome (fu\<lparr>f_blocking := b\<rparr>) = outcome fu" "outcome (fu\<lparr>f_task := t\<rparr>) = outcome fu"
    "outcome (fu\<lparr>f_callbacks := cs\<rparr>) = outcome fu"
  by (simp_all add: outcome_def split: option.split)

lemma quiet_upd_fut:
  assumes "fut_ok w0 f" "\<And>fu. f_task (g fu) = f_task fu" "\<And>fu. f_state (g fu) = f_state fu"
    "\<And>fu. outcome (g fu) = outcome fu" "\<And>fu. set (f_callbacks (g fu)) \<subseteq> set (f_callbacks fu)"
    "\<And>fu t. filter (resumes t) (f_callbacks (g fu)) = filter (resumes t) (f_callbacks fu)"
  shows "quiet w0 (upd_fut f g)"
proof (rule quietI)
  fix w
  assume w: "well_formed w" "ext w0 w"
  have f: "f < length (w_futs w)" using fut_ok_ext [OF w(2) assms(1)] by (simp add: fut_ok_def)
  have "future_ok w (g (fut_at w f))"
    using well_formed_parts(1) [OF w(1) f] assms(2,3) assms(5) [of "fut_at w f"] by (auto simp: future_ok_def list_all_iff)
  then show "rel w (snd (upd_fut f g w))"
    unfolding upd_fut_def using w(1) f by (auto intro!: rel_update simp: assms(2-4,6))
qed

lemma quiet_blocking [quiet_intros]: "fut_ok w0 f \<Longrightarrow> quiet w0 (upd_fut f (\<lambda>fu. fu\<lparr>f_blocking := b\<rparr>))"
  by (rule quiet_upd_fut) simp_all

lemma quiet_must_cancel [quiet_intros]:
  assumes "fut_ok w0 f"
  shows "quiet w0 (set_task f (\<lambda>t. t\<lparr>t_must_cancel := b\<rparr>))"
proof (rule quietI)
  fix w
  assume w: "well_formed w" "ext w0 w"
  have f: "f < length (w_futs w)" using fut_ok_ext [OF w(2) assms] by (simp add: fut_ok_def)
  show "rel w (snd (set_task f (\<lambda>t. t\<lparr>t_must_cancel := b\<rparr>) w))"
    using well_formed_parts(1) [OF w(1) f] unfolding set_task_def upd_fut_def
    by (cases "f_task (fut_at w f)")
      (auto intro!: rel_update [OF w(1) f] simp: future_ok_def task_ok_def)
qed

lemma quiet_remove_done_callback [quiet_intros]: "fut_ok w0 f \<Longrightarrow> quiet w0 (remove_done_callback f (Api a))"
  unfolding remove_done_callback_def
proof (intro quiet_intros quiet_bind)
  fix w
  assume "fut_ok w0 f" "ext w0 w"
  moreover have "filter (resumes t) (filter (\<lambda>c. c \<noteq> Api a) cs) = filter (resumes t) cs" for t cs
    by (induction cs) (auto simp: resumes_def)
  ultimately show "quiet w (upd_fut f (\<lambda>fu. fu\<lparr>f_callbacks := filter (\<lambda>g. g \<noteq> Api a) (f_callbacks fu)\<rparr>))"
    by (intro quiet_upd_fut) (auto dest: fut_ok_ext)
qed

text \<open>The three ways to settle a future.\<close>

lemma settle_run:
  assumes "\<And>fu. f_callbacks (g fu) = f_callbacks fu" "f < length (w_futs w)"
  shows "bind (upd_fut f g) (\<lambda>_. schedule_callbacks f) w =
    (Inr (), enqueue (map (handle_of (Some f)) (f_callbacks (fut_at w f))) (w\<lparr>w_futs := (w_futs w)[f := (g (fut_at w f))\<lparr>f_callbacks := []\<rparr>]\<rparr>))"
  using assms by (simp add: schedule_callbacks_def upd_fut_def schedule_run)

lemma quiet_settle:
  assumes "f_state (fut_at w f) = PENDING" "fut_ok w f" "well_formed w" "\<And>fu. f_callbacks (g fu) = f_callbacks fu"
    "\<And>fu. f_task (g fu) = f_task fu" "\<And>fu. f_state (g fu) \<noteq> PENDING"
  shows "rel w (snd (bind (upd_fut f g) (\<lambda>_. schedule_callbacks f) w))"
  using rel_settle [OF assms(3) _ assms(1), of "(g (fut_at w f))\<lparr>f_callbacks := []\<rparr>"] assms(2,5,6)
    settle_run [of g f w] assms(4)
  by (simp add: fut_ok_def)

lemma quiet_future_set_result [quiet_intros]: "fut_ok w0 f \<Longrightarrow> quiet w0 (future_set_result f v)"
  unfolding future_set_result_def
  by (rule quietI) (auto intro!: quiet_settle rel_refl dest: fut_ok_ext)

lemma quiet_future_set_exception [quiet_intros]: "fut_ok w0 f \<Longrightarrow> quiet w0 (future_set_exception f e)"
  unfolding future_set_exception_def
  by (rule quietI) (auto intro!: quiet_settle rel_refl dest: fut_ok_ext)

lemma snd_bind_ret: "snd (bind m (\<lambda>_. ret x) w) = snd (m w)"
  by (auto simp: bind_def split: prod.splits sum.splits)

lemma quiet_future_cancel [quiet_intros]: "fut_ok w0 f \<Longrightarrow> quiet w0 (future_cancel f)"
  unfolding future_cancel_def bind_assoc [symmetric]
  by (rule quietI) (auto simp: snd_bind_ret intro!: quiet_settle rel_refl dest: fut_ok_ext)

lemma resumption_simps [simp]:
  "resumption (Step t)" "resumption (Wakeup t)" "\<not> resumption (SetUnlessCancelled f v)" "\<not> resumption (GatherDone g i)"
  "\<not> resumption (WaitDone x)" "\<not> resumption (WaitTimeout x)" "\<not> resumption (Api a)"
  by (auto simp: resumption_def resumes_def)

lemma quiet_add_done_callback:
  assumes "fut_ok w0 f" "cb_ok w0 c" "\<not> resumption c"
  shows "quiet w0 (add_done_callback f c)"
proof (rule quietI)
  fix w
  assume w: "well_formed w" "ext w0 w"
  note k = fut_ok_ext [OF w(2) assms(1)] cb_ok_ext [OF w(2) assms(2)]
  show "rel w (snd (add_done_callback f c w))"
  proof (cases "f_state (fut_at w f) = PENDING")
    case True
    have f: "f < length (w_futs w)" using k(1) by (simp add: fut_ok_def)
    show ?thesis
      using True f k(2) well_formed_parts(1) [OF w(1) f] assms(3) unfolding add_done_callback_def upd_fut_def
      by (auto intro!: rel_update [OF w(1) f] simp: future_ok_def resumption_def)
  next
    case False
    have "rel w (snd (call_soon c (Some f) w))"
      using quietD [OF quiet_call_soon [OF k(2) assms(3), of "Some f"] w(1) ext_refl] k(1) by simp
    then show ?thesis using False by (simp add: add_done_callback_def snd_bind_ret)
  qed
qed

subsection \<open>Fresh objects\<close>

lemma rel_new_future:
  assumes "well_formed w"
  shows "rel w (w\<lparr>w_futs := w_futs w @ [new_future None]\<rparr>)"
proof -
  let ?w = "w\<lparr>w_futs := w_futs w @ [new_future None]\<rparr>"
  have x: "ext w ?w" by (simp add: ext_def is_task_def nth_append)
  have "well_formed ?w"
    by (rule well_formed_ext [OF assms x]) (auto simp: new_future_def future_ok_def)
  moreover have "coro_of ?w t = coro_of w t" for t by (simp add: coro_of_def nth_append new_future_def)
  moreover from this have "balance ?w t = balance w t" for t
    by (simp add: balance_def live_def pending_def in_ready_def in_callbacks_def new_future_def)
  ultimately show ?thesis using x by (simp add: rel_def settled_kept_def coros_kept_def nth_append)
qed

lemma create_future_run: "create_future w = (Inr (length (w_futs w)), w\<lparr>w_futs := w_futs w @ [new_future None]\<rparr>)"
  by (simp add: create_future_def bind_def)

lemma quiet_create_future [quiet_intros]: "quiet w0 create_future"
  by (rule quietI) (simp add: create_future_run rel_new_future)

lemma quiet_bind_create_future [quiet_intros]:
  assumes "\<And>w f. well_formed w \<Longrightarrow> ext w0 w \<Longrightarrow> fut_ok w f \<Longrightarrow> quiet w (k f)"
  shows "quiet w0 (bind create_future k)"
  by (rule quiet_bind_of [OF quiet_create_future]) (auto simp: create_future_run fut_ok_def intro!: assms)

lemma rel_new_handle:
  assumes "well_formed w" "handle_ok w h"
  shows "rel w (w\<lparr>w_handles := w_handles w @ [h]\<rparr>)"
proof -
  let ?w = "w\<lparr>w_handles := w_handles w @ [h]\<rparr>"
  have x: "ext w ?w" by (simp add: ext_def is_task_def nth_append)
  have "well_formed ?w"
    by (rule well_formed_ext [OF assms(1) x]) (use handle_ok_ext [OF x assms(2)] in auto)
  moreover have "in_ready ?w t = in_ready w t" for t
    unfolding in_ready_def using assms(1)
    by (intro arg_cong [of _ _ length] filter_cong) (auto simp: well_formed_def list_all_iff nth_append)
  then have "balance ?w t = balance w t" for t
    by (simp add: balance_def live_def coro_of_def pending_def in_callbacks_def)
  ultimately show ?thesis using x by (simp add: rel_def settled_kept_def coros_kept_def coro_of_def)
qed

lemma new_handle_run: "new_handle c a w = (Inr (length (w_handles w)), w\<lparr>w_handles := w_handles w @ [handle_of a c]\<rparr>)"
  by (simp add: new_handle_def bind_def handle_of_def)

lemma quiet_bind_new_handle:
  assumes "cb_ok w0 c" "\<not> resumption c" "\<And>w h. well_formed w \<Longrightarrow> ext w0 w \<Longrightarrow> plain_handle w h \<Longrightarrow> quiet w (k h)"
  shows "quiet w0 (bind (new_handle c None) k)"
proof (rule quiet_bind_of)
  show "quiet w0 (new_handle c None)"
    by (rule quietI) (use assms(1,2) in \<open>auto simp: new_handle_run handle_ok_def handle_of_def intro!: rel_new_handle dest: cb_ok_ext\<close>)
  show "quiet w' (k x)" if "new_handle c None w = (Inr x, w')" "well_formed w'" "ext w0 w'" for w x w'
    using that assms(2) by (auto simp: new_handle_run plain_handle_def handle_of_def intro!: assms(3))
qed

lemma list_insert_mem [simp]: "set (list_insert i x xs) = insert x (set xs)"
  unfolding list_insert_def by (metis Un_insert_right append_Cons append_Nil append_take_drop_id list.simps(15) set_append)

lemma quiet_sched:
  assumes "plain_handle w0 h"
  shows "quiet w0 (modify (\<lambda>w. w\<lparr>w_sched := list_insert (sched_pos t (w_sched w)) (t, h) (w_sched w)\<rparr>))"
  by (rule quiet_objects) (use assms in \<open>auto dest: plain_handle_ext\<close>)

lemma quiet_bind_call_at:
  assumes "cb_ok w0 c" "\<not> resumption c" "\<And>w h. well_formed w \<Longrightarrow> ext w0 w \<Longrightarrow> plain_handle w h \<Longrightarrow> quiet w (k h)"
  shows "quiet w0 (bind (call_at t c None) k)"
  unfolding call_at_def bind_assoc
  by (rule quiet_bind_new_handle [OF assms(1,2)])
    (auto intro!: quiet_bind quiet_sched intro: assms(3) simp: bind_ret_left)

lemma quiet_monotonic [quiet_intros]: "quiet w0 monotonic"
  unfolding monotonic_def by (intro quiet_intros quiet_bind)

lemma quiet_bind_call_later:
  assumes "cb_ok w0 c" "\<not> resumption c" "\<And>w h. well_formed w \<Longrightarrow> ext w0 w \<Longrightarrow> plain_handle w h \<Longrightarrow> quiet w (k h)"
  shows "quiet w0 (bind (call_later d c None) k)"
  unfolding call_later_def bind_assoc
  by (rule quiet_bind [OF quiet_monotonic]) (rule quiet_bind_call_at [OF assms])

lemma quiet_handle_cancel:
  assumes "plain_handle w0 h"
  shows "quiet w0 (handle_cancel h)"
proof (rule quietI)
  fix w :: world
  let ?w = "w\<lparr>w_handles := (w_handles w)[h := (w_handles w ! h)\<lparr>h_cancelled := True\<rparr>]\<rparr>"
  assume w: "well_formed w" "ext w0 w"
  have h: "h < length (w_handles w)" "\<not> resumption (h_fn (w_handles w ! h))"
    using plain_handle_ext [OF w(2) assms] by (simp_all add: plain_handle_def)
  have x: "ext w ?w" using h by (auto simp: ext_def is_task_def nth_list_update)
  have "handle_ok w ((w_handles w ! h)\<lparr>h_cancelled := True\<rparr>)"
    using well_formed_parts(2) [OF w(1) h(1)] by (simp add: handle_ok_def)
  then have "well_formed ?w"
    by (intro well_formed_ext [OF w(1) x]) (use w(1) handle_ok_ext [OF x] in \<open>auto dest!: set_update_memE\<close>)
  moreover have "in_ready ?w t = in_ready w t" for t
    unfolding in_ready_def using h
    by (intro arg_cong [of _ _ length] filter_cong) (auto simp: nth_list_update resumption_def)
  then have "balance ?w t = balance w t" for t
    by (simp add: balance_def live_def coro_of_def pending_def in_callbacks_def)
  ultimately show "rel w (snd (handle_cancel h w))"
    using x by (simp add: handle_cancel_def rel_def settled_kept_def coros_kept_def coro_of_def)
qed


subsection \<open>The library\<close>

lemma quiet_cancel_chain [quiet_intros]: "fut_ok w0 f \<Longrightarrow> quiet w0 (cancel_chain n f)"
proof (induction n arbitrary: w0 f)
  case (Suc n)
  have "quiet w (bind (set_task f (\<lambda>t. t\<lparr>t_must_cancel := True\<rparr>)) (\<lambda>_. case t_waiter t of Some g \<Rightarrow> cancel_chain n g | None \<Rightarrow> ret True))"
    if w: "well_formed w" "ext w0 w" "f_task (fut_at w f) = Some t" for w t
  proof -
    have f: "fut_ok w f" by (rule fut_ok_ext [OF w(2) Suc(2)])
    have "\<And>g. t_waiter t = Some g \<Longrightarrow> fut_ok w g"
      using well_formed_parts(1) [OF w(1), of f] f w(3) by (simp add: fut_ok_def future_ok_def task_ok_def)
    then show ?thesis using f by (auto intro!: quiet_bind quiet_intros Suc.IH)
  qed
  then show ?case using Suc(2) unfolding cancel_chain.simps by (intro quiet_intros) (auto dest: fut_ok_ext)
qed (simp add: quiet_intros)

lemma quiet_cancel [quiet_intros]: "fut_ok w0 f \<Longrightarrow> quiet w0 (cancel f)"
  unfolding cancel_def by (auto intro!: quiet_intros dest: fut_ok_ext)

lemma quiet_settle_pending: "fut_ok w0 f \<Longrightarrow> quiet w0 (settle_pending f)"
  unfolding settle_pending_def future_done_def by (auto intro!: quiet_intros dest: fut_ok_ext)

lemma quiet_event_set [quiet_intros]:
  assumes "e < length (w_events w0)"
  shows "quiet w0 (event_set e)"
  unfolding event_set_def
proof (intro quiet_intros)
  fix w
  assume w: "well_formed w" "ext w0 w"
  have e: "e < length (w_events w)" by (rule ext_lengths(1) [OF w(2) assms])
  have "list_all (fut_ok w) (e_waiters (w_events w ! e))" by (rule well_formed_parts(3) [OF w(1) e])
  then show "quiet w (bind (upd_event e (\<lambda>v. v\<lparr>e_flag := True\<rparr>)) (\<lambda>_.
      bind (for_each (e_waiters (w_events w ! e)) settle_pending) (\<lambda>_. upd_event e (\<lambda>v. v\<lparr>e_waiters := []\<rparr>))))"
    using e by (intro quiet_bind quiet_upd_event quiet_for_each quiet_settle_pending) (auto simp: list_all_iff)
qed

lemma remove1_ok: "list_all P xs \<Longrightarrow> list_all P (remove1 x xs)"
  by (auto simp: list_all_iff dest: notin_set_remove1 set_remove1_subset [THEN subsetD])

lemma quiet_event_enter [quiet_intros]: "e < length (w_events w0) \<Longrightarrow> quiet w0 (event_enter e)"
  unfolding event_enter_def event_is_set_def
  by (auto intro!: quiet_intros quiet_bind quiet_upd_event dest: ext_lengths fut_ok_ext)

lemma quiet_lock_enter [quiet_intros]: "l < length (w_locks w0) \<Longrightarrow> quiet w0 (lock_enter l)"
  unfolding lock_enter_def lock_locked_def lock_take_def
  by (auto intro!: quiet_intros quiet_bind quiet_upd_lock dest: ext_lengths fut_ok_ext)

lemma quiet_wake_first [quiet_intros]: "list_all (fut_ok w0) fs \<Longrightarrow> quiet w0 (wake_first fs)"
proof (induction fs arbitrary: w0)
  case (Cons f fs)
  have "list_all (fut_ok w) fs" "fut_ok w f" if "ext w0 w" for w
    using Cons(2) fut_ok_ext [OF that] by (auto simp: list_all_iff)
  then show ?case
    unfolding wake_first.simps future_done_def by (intro quiet_intros quiet_bind Cons.IH)
qed (simp add: quiet_intros)

lemma quiet_lock_release [quiet_intros]:
  assumes "l < length (w_locks w0)"
  shows "quiet w0 (lock_release l)"
proof -
  have k: "quiet w (bind (gets (\<lambda>w. l_waiters (w_locks w ! l))) (\<lambda>ws. bind (wake_first ws) (\<lambda>r. case r of
      Some f \<Rightarrow> upd_lock l (\<lambda>v. v\<lparr>l_waiters := remove1 f (l_waiters v)\<rparr>) | None \<Rightarrow> ret ())))" if "l < length (w_locks w)" for w
    using that by (auto intro!: quiet_intros quiet_bind quiet_upd_lock well_formed_parts(4) remove1_ok dest: ext_lengths)
  show ?thesis
    unfolding lock_release_def lock_locked_def
    by (intro quiet_bind_gets quiet_pure quiet_if quiet_bind [OF quiet_upd_lock] k)
      (use ext_lengths(2) assms in auto)
qed

lemma quiet_sem_release [quiet_intros]:
  assumes "s < length (w_sems w0)"
  shows "quiet w0 (sem_release s)"
  unfolding sem_release_def
  using assms by (auto intro!: quiet_intros quiet_bind quiet_upd_sem well_formed_parts(5) dest: ext_lengths)

lemma quiet_sem_enter [quiet_intros]: "s < length (w_sems w0) \<Longrightarrow> quiet w0 (sem_enter s)"
  unfolding sem_enter_def
  by (auto intro!: quiet_intros quiet_bind quiet_upd_sem dest: ext_lengths fut_ok_ext)

lemma quiet_pop_wake:
  assumes "list_all (fut_ok w0) fs" "\<And>gs w. ext w0 w \<Longrightarrow> set gs \<subseteq> set fs \<Longrightarrow> quiet w (put gs)"
  shows "quiet w0 (pop_wake fs put)"
  using assms
proof (induction fs arbitrary: w0)
  case (Cons f fs)
  have "quiet w (pop_wake fs put)" if "ext w0 w" for w
  proof (rule Cons.IH)
    show "list_all (fut_ok w) fs" using Cons(2) fut_ok_ext [OF that] by (auto simp: list_all_iff)
    show "quiet w' (put gs)" if "ext w w'" "set gs \<subseteq> set fs" for gs w'
      by (rule Cons(3) [OF ext_trans [OF \<open>ext w0 w\<close> that(1)]]) (use that(2) in auto)
  qed
  moreover have "quiet w0 (put fs)" using Cons(3) [of w0 fs] by auto
  moreover have "fut_ok w f" if "ext w0 w" for w using Cons(2) fut_ok_ext [OF that] by simp
  ultimately show ?case
    unfolding pop_wake.simps future_done_def by (intro quiet_bind_gets quiet_bind quiet_intros)
qed (simp add: quiet_intros)

lemma quiet_wakeups [quiet_intros]:
  assumes "q < length (w_queues w0)"
  shows "quiet w0 (wakeup_getter q)" "quiet w0 (wakeup_putter q)"
proof -
  have k: "list_all (fut_ok w) (q_getters (w_queues w ! q))" "list_all (fut_ok w) (q_putters (w_queues w ! q))"
    if "well_formed w" "ext w0 w" for w
    using well_formed_parts(6) [OF that(1) ext_lengths(4) [OF that(2) assms]] by (simp_all add: queue_ok_def)
  have sub: "list_all (fut_ok w') gs" if "list_all (fut_ok w) fs" "ext w w'" "set gs \<subseteq> set fs" for w w' gs fs
    using that fut_ok_ext [OF that(2)] by (auto simp: list_all_iff)
  show "quiet w0 (wakeup_getter q)" unfolding wakeup_getter_def
  proof (rule quiet_bind_gets, rule quiet_pop_wake, erule (1) k)
    fix w gs w'
    assume a: "well_formed w" "ext w0 w" "ext w w'" "set gs \<subseteq> set (q_getters (w_queues w ! q))"
    have "q < length (w_queues w')" by (rule ext_lengths(4) [OF ext_trans [OF a(2,3)] assms])
    then show "quiet w' (upd_queue q (\<lambda>v. v\<lparr>q_getters := gs\<rparr>))"
      using sub [OF k(1) [OF a(1,2)] _ a(4)] ext_trans [OF a(3)] by (intro quiet_upd_queue) (auto simp: queue_ok_def)
  qed
  show "quiet w0 (wakeup_putter q)" unfolding wakeup_putter_def
  proof (rule quiet_bind_gets, rule quiet_pop_wake, erule (1) k)
    fix w gs w'
    assume a: "well_formed w" "ext w0 w" "ext w w'" "set gs \<subseteq> set (q_putters (w_queues w ! q))"
    have "q < length (w_queues w')" by (rule ext_lengths(4) [OF ext_trans [OF a(2,3)] assms])
    then show "quiet w' (upd_queue q (\<lambda>v. v\<lparr>q_putters := gs\<rparr>))"
      using sub [OF k(2) [OF a(1,2)] _ a(4)] ext_trans [OF a(3)] by (intro quiet_upd_queue) (auto simp: queue_ok_def)
  qed
qed

lemma quiet_upd_items [quiet_intros]: "q < length (w_queues w0) \<Longrightarrow> quiet w0 (upd_queue q (\<lambda>v. v\<lparr>q_items := g v\<rparr>))"
  by (rule quiet_upd_queue) (auto simp: queue_ok_def)

lemma quiet_put_nowait [quiet_intros]: "q < length (w_queues w0) \<Longrightarrow> quiet w0 (put_nowait q x)"
  unfolding put_nowait_def by (auto intro!: quiet_intros quiet_bind dest: ext_lengths)

lemma quiet_get_nowait [quiet_intros]: "q < length (w_queues w0) \<Longrightarrow> quiet w0 (get_nowait q)"
  unfolding get_nowait_def by (auto intro!: quiet_intros quiet_bind dest: ext_lengths)

lemma quiet_queue_waits [quiet_intros]:
  assumes "q < length (w_queues w0)"
  shows "quiet w0 (put_wait q)" "quiet w0 (get_wait q)" "quiet w0 (put_abandon q f)" "quiet w0 (get_abandon q f)"
  unfolding put_wait_def get_wait_def put_abandon_def get_abandon_def
  using assms by (auto intro!: quiet_intros quiet_bind quiet_upd_queue remove1_ok simp: queue_ok_def dest: ext_lengths fut_ok_ext)


lemma quiet_sleep_start [quiet_intros]: "quiet w0 (sleep_start d v)"
  unfolding sleep_start_def by (auto intro!: quiet_intros quiet_bind_call_later simp: fut_ok_ext)

lemma quiet_gather_watch: "g < length (w_gathers w0) \<Longrightarrow> quiet w0 (gather_watch g i t)"
  unfolding gather_watch_def
  by (auto intro!: quiet_bind_gets quiet_add_done_callback quiet_intros dest: ext_lengths)

lemma quiet_gather_start [quiet_intros]: "quiet w0 (gather_start ts re)"
  unfolding gather_start_def
proof (intro quiet_bind_create_future quiet_bind_gets)
  fix w outer w1
  let ?m = "modify (\<lambda>w. w\<lparr>w_gathers := w_gathers w @ [\<lparr>g_outer = outer, g_results = replicate (length ts) VNone,
         g_remaining = int (length ts), g_return_exceptions = re\<rparr>]\<rparr>)"
  assume w: "well_formed w" "ext w0 w" "fut_ok w outer" "well_formed w1" "ext w w1"
  show "quiet w1 (bind ?m (\<lambda>_. if ts = [] then bind (future_set_result outer (VList [])) (\<lambda>_. ret (VFut outer))
     else bind (for_each (List.enumerate 0 ts) (\<lambda>(i, t). gather_watch (length (w_gathers w1)) i t)) (\<lambda>_. ret (VFut outer))))"
  proof (rule quiet_bind_of)
    show "quiet w1 ?m"
      by (rule quiet_objects) (use fut_ok_ext [OF ext_trans [OF w(5)] w(3)] in auto)
    fix u x w'
    assume u: "ext w1 u" "?m u = (Inr x, w')" "ext w1 w'"
    have g: "length (w_gathers w1) < length (w_gathers w')" using u(1,2) by (auto simp: ext_def)
    have "fut_ok w' outer" by (rule fut_ok_ext [OF ext_trans [OF w(5) u(3)] w(3)])
    then show "quiet w' (if ts = [] then bind (future_set_result outer (VList [])) (\<lambda>_. ret (VFut outer))
        else bind (for_each (List.enumerate 0 ts) (\<lambda>(i, t). gather_watch (length (w_gathers w1)) i t)) (\<lambda>_. ret (VFut outer)))"
      using g
      by (intro quiet_if quiet_bind quiet_intros quiet_for_each)
        (auto intro!: quiet_gather_watch)
  qed
qed

lemma quiet_future_result [quiet_intros]: "quiet w0 (future_result t)"
  by (simp add: future_result_def quietI rel_refl)

lemma quiet_future_exception [quiet_intros]: "quiet w0 (future_exception t)"
  unfolding future_exception_def by (intro quiet_intros)

lemma quiet_gather_store:
  assumes "g < length (w_gathers w0)"
  shows "quiet w0 (gather_store g i v)"
  unfolding gather_store_def
  by (intro quiet_bind quiet_upd_gather quiet_intros) (use assms in \<open>auto dest: ext_lengths well_formed_parts(7)\<close>)

lemma quiet_gather_done:
  assumes "g < length (w_gathers w0)" "fut_ok w0 t"
  shows "quiet w0 (gather_done g i t)"
  unfolding gather_done_def future_done_def future_cancelled_def
proof (rule quiet_bind_gets)
  fix w :: world
  let ?x = "w_gathers w ! g"
  assume w: "well_formed w" "ext w0 w"
  have g: "g < length (w_gathers w)" by (rule ext_lengths(5) [OF w(2) assms(1)])
  have o: "fut_ok w (g_outer ?x)" by (rule well_formed_parts(7) [OF w(1) g])
  have s: "quiet w' (gather_store g i v)" "fut_ok w' (g_outer ?x)" if "ext w w'" for w' v
    using quiet_gather_store [OF ext_lengths(5) [OF that g]] fut_ok_ext [OF that o] by auto
  show "quiet w (bind (gets (\<lambda>w. f_state (fut_at w (g_outer ?x)) \<noteq> PENDING)) (\<lambda>od. if od then ret () else
      bind (gets (\<lambda>w. f_state (fut_at w t) = CANCELLED)) (\<lambda>c. if c then
         (if \<not> g_return_exceptions ?x then bind (future_cancel (g_outer ?x)) (\<lambda>_. ret ())
          else gather_store g i (VExn CancelledError))
       else bind (future_exception t) (\<lambda>ex. case ex of
           Some e \<Rightarrow> if \<not> g_return_exceptions ?x then future_set_exception (g_outer ?x) e else gather_store g i (VExn e)
         | None \<Rightarrow> bind (future_result t) (gather_store g i)))))"
    by (intro quiet_bind_gets quiet_if quiet_bind [OF quiet_future_exception] quiet_bind [OF quiet_future_result] quiet_option quiet_bind [OF quiet_future_cancel]
        quiet_pure quiet_future_set_exception s) (auto intro: ext_trans)
qed

lemma quiet_event_new [quiet_intros]: "quiet w0 event_new"
  unfolding event_new_def by (intro quiet_intros quiet_bind)

lemma quiet_bind_event_new [quiet_intros]:
  assumes "\<And>w e. well_formed w \<Longrightarrow> ext w0 w \<Longrightarrow> e < length (w_events w) \<Longrightarrow> quiet w (k e)"
  shows "quiet w0 (bind event_new k)"
  by (rule quiet_bind_of [OF quiet_event_new]) (auto simp: event_new_def bind_def intro!: assms)

lemma quiet_bind_new_waiting:
  assumes "e < length (w_events w1)"
    "\<And>w. well_formed w \<Longrightarrow> ext w1 w \<Longrightarrow> length (w_waits w1) < length (w_waits w) \<Longrightarrow> quiet w k"
  shows "quiet w1 (bind (modify (\<lambda>w. w\<lparr>w_waits := w_waits w @ [\<lparr>v_task = t, v_event = e, v_expired = False, v_handle = None\<rparr>]\<rparr>)) (\<lambda>_. k))"
  by (rule quiet_bind_of, rule quiet_objects)
    (use assms(1) in \<open>auto simp: waiting_ok_def intro: ext_lengths intro!: assms(2)\<close>, simp add: ext_def)

lemma quiet_wait_start [quiet_intros]: "quiet w0 (wait_start t d)"
  unfolding wait_start_def
proof (intro quiet_bind_event_new quiet_bind_gets quiet_bind_new_waiting)
  fix w w1 w2 w3 :: world and e
  let ?v = "length (w_waits w1)"
  assume w: "e < length (w_events w)" "ext w w1"
  show e: "e < length (w_events w1)" by (rule ext_lengths(1) [OF w(2,1)])
  assume w2: "?v < length (w_waits w2)" "ext w2 w3"
  then have v: "?v < length (w_waits w3)" by (auto dest: ext_lengths)
  show "quiet w3 (bind (if fut_ok w3 t then add_done_callback t (WaitDone ?v) else ret ()) (\<lambda>_. bind (call_later d (WaitTimeout ?v) None) (\<lambda>h.
      bind (upd_wait ?v (\<lambda>x. x\<lparr>v_handle := Some h\<rparr>)) (\<lambda>_. ret (VList [VObj ?v, VObj e])))))"
    by (intro quiet_bind quiet_if quiet_add_done_callback quiet_bind_call_later quiet_upd_wait quiet_intros)
      (use v in \<open>auto simp: waiting_ok_def dest: plain_handle_ext ext_lengths\<close>)
qed

lemma quiet_wait_done: "v < length (w_waits w0) \<Longrightarrow> quiet w0 (wait_done v)"
  unfolding wait_done_def
  by (intro quiet_intros) (auto simp: waiting_ok_def dest: ext_lengths well_formed_parts(8))

lemma quiet_wait_timeout:
  assumes "v < length (w_waits w0)"
  shows "quiet w0 (wait_timeout v)"
  unfolding wait_timeout_def
proof (rule quiet_bind [OF quiet_upd_wait [OF assms]], simp add: waiting_ok_def, rule quiet_bind_gets)
  fix w :: world
  let ?x = "w_waits w ! v"
  assume w: "well_formed w" "ext w0 w"
  have "waiting_ok w ?x" by (rule well_formed_parts(8) [OF w(1) ext_lengths(6) [OF w(2) assms]])
  then have x: "v_event ?x < length (w_events w')" if "ext w w'" for w'
    using that by (auto simp: waiting_ok_def intro: ext_lengths)
  show "quiet w (bind (gets (\<lambda>w. fut_ok w (v_task ?x) \<and> f_state (fut_at w (v_task ?x)) = PENDING)) (\<lambda>p.
      bind (if p then bind (cancel (v_task ?x)) (\<lambda>_. ret ()) else ret ()) (\<lambda>_. event_set (v_event ?x))))"
    by (intro quiet_bind_gets quiet_bind quiet_if quiet_cancel quiet_pure quiet_event_set x) auto
qed

lemma quiet_wait_finish [quiet_intros]:
  assumes "v < length (w_waits w0)"
  shows "quiet w0 (wait_finish v)"
  unfolding wait_finish_def
proof (rule quiet_bind_gets)
  fix w :: world
  let ?x = "w_waits w ! v"
  assume w: "well_formed w" "ext w0 w"
  have "waiting_ok w ?x" by (rule well_formed_parts(8) [OF w(1) ext_lengths(6) [OF w(2) assms]])
  then show "quiet w (bind (case v_handle ?x of None \<Rightarrow> ret () | Some h \<Rightarrow> handle_cancel h) (\<lambda>_.
      if v_expired ?x then raise TimeoutError
      else bind (gets (\<lambda>w. fut_ok w (v_task ?x))) (\<lambda>b. if b then future_result (v_task ?x) else raise AttributeError)))"
    by (intro quiet_bind quiet_intros quiet_handle_cancel)
      (auto simp: waiting_ok_def)
qed

subsection \<open>Operations, coroutines, tasks\<close>

lemma quiet_perform: "api_ok a w0 \<Longrightarrow> quiet w0 (perform a)"
proof (cases a)
  case (CallLater d b)
  then show ?thesis by (auto intro!: quiet_bind_call_later quiet_intros)
next
  case (CallAt d b)
  then show ?thesis by (auto intro!: quiet_bind_call_at quiet_intros)
next
  case (CancelHandle h)
  moreover assume "api_ok a w0"
  ultimately show ?thesis
    by (auto intro!: quiet_bind quiet_handle_cancel quiet_intros simp: plain_handle_def is_api_def split: callback.splits)
qed (auto intro!: quiet_intros quiet_bind quiet_add_done_callback quiet_call_soon quiet_upd_event quiet_upd_lock remove1_ok
    simp: future_done_def future_cancelled_def event_is_set_def loop_stop_def
      event_clear_def event_abandon_def lock_new_def lock_locked_def lock_abandon_def lock_take_def sem_new_def sem_locked_def
      queue_new_def)

end
