(* ===== verification/AsyncLoop.thy ===== *)
theory AsyncLoop
  imports AsyncOps
begin

section \<open>The running loop\<close>

text \<open>
  Running a coroutine segment respects the contract of the operations; a step of a task takes
  its pending resumption out and puts at most one back. Hence the properties of the
  loop: no task is lost or scheduled twice, and outcomes are final.
\<close>

subsection \<open>Coroutine segments\<close>

lemma run_api_rel:
  assumes "well_formed w"
  shows "rel w (snd (run_api a w))"
  unfolding run_api_def using assms quietD [OF quiet_perform assms ext_refl] by (simp add: rel_refl)

lemma rel_create_task:
  assumes "well_formed w"
  shows "rel w (snd (create_task c w))"
proof -
  let ?f = "new_future (Some \<lparr>t_coro = Some (Start c), t_waiter = None, t_must_cancel = False\<rparr>)"
  let ?n = "length (w_futs w)"
  let ?u = "w\<lparr>w_futs := w_futs w @ [?f]\<rparr>"
  let ?h = "[handle_of None (Step ?n)]"
  have x: "ext w ?u" by (simp add: ext_def is_task_def nth_append)
  have u: "well_formed ?u"
    by (rule well_formed_ext [OF assms x]) (auto simp: new_future_def future_ok_def task_ok_def)
  have "list_all (handle_ok ?u) ?h" by (simp add: handle_ok_def handle_of_def is_task_def new_future_def)
  then have wf: "well_formed (enqueue ?h ?u)" by (rule well_formed_enqueue [OF u])
  have c: "coro_of ?u t = (if t = ?n then Some (Start c) else coro_of w t)" for t
    by (auto simp: coro_of_def nth_append new_future_def)
  have "pending (enqueue ?h ?u) t = pending w t + (if t = ?n then 1 else 0)" for t
    using pending_enqueue [OF u, of ?h t]
    by (simp add: handle_of_def resumes_def pending_def in_ready_def in_callbacks_def new_future_def)
  then have "balance (enqueue ?h ?u) t = balance w t" for t
    using c by (simp add: balance_def live_def) (simp add: coro_of_def)
  then show ?thesis
    using wf ext_trans [OF x ext_enqueue] c
    by (simp add: create_task_def bind_def call_soon_run rel_def settled_kept_def coros_kept_def nth_append)
qed

definition progress_ok :: "world \<Rightarrow> progress \<Rightarrow> bool" where
  "progress_ok w r = (case r of Yielded f p \<Rightarrow> point_ok w p \<and> (\<forall>g. f = Some g \<longrightarrow> fut_ok w g) | _ \<Rightarrow> True)"

definition goes :: "world \<Rightarrow> progress \<times> world \<Rightarrow> bool" where
  "goes w r \<longleftrightarrow> rel w (snd r) \<and> progress_ok (snd r) (fst r)"

lemma goes_trans: "rel w w' \<Longrightarrow> goes w' r \<Longrightarrow> goes w r"
  by (auto simp: goes_def intro: rel_trans)

lemma goes_yield:
  assumes "rel w w'" "fut_ok w' f" "point_ok w' p"
  shows "goes w (Yielded (Some f) p, blocked_on f w')"
proof -
  have w': "well_formed w'" using assms(1) by (simp add: rel_def)
  have r: "rel w' (blocked_on f w')"
    unfolding blocked_on_def by (rule quietD [OF quiet_blocking [OF assms(2)] w' ext_refl])
  then have "ext w' (blocked_on f w')" by (simp add: rel_def)
  then show ?thesis
    using rel_trans [OF assms(1) r] assms(2,3) by (auto simp: goes_def progress_ok_def intro: fut_ok_ext point_ok_ext)
qed

lemma rel_wf: "rel w w' \<Longrightarrow> well_formed w'" by (simp add: rel_def)

lemma rel_ext: "rel w w' \<Longrightarrow> ext w w'" by (simp add: rel_def)

lemma run_coro_goes: "well_formed w \<Longrightarrow> goes w (run_coro c w)"
proof (induction c arbitrary: w)
  case (Call a k)
  obtain r w' where a: "run_api a w = (r, w')" by fastforce
  have "rel w w'" using run_api_rel [OF Call(2), of a] a by simp
  then show ?case using Call(1) [of "k r" w'] a by (auto intro: goes_trans rel_wf)
next
  case (Spawn c k)
  obtain r w' where a: "create_task c w = (r, w')" by fastforce
  have r: "rel w w'" using rel_create_task [OF Spawn(3), of c] a by simp
  show ?case
  proof (cases r)
    case (Inl e)
    then show ?thesis using a r by (simp add: goes_def progress_ok_def)
  next
    case (Inr t)
    then show ?thesis using goes_trans [OF r Spawn(2) [OF _ rel_wf [OF r]]] a by simp
  qed
next
  case (Await f k)
  then show ?case using goes_yield [OF rel_refl, of w f "AtFuture f k"] by auto
next
  case (SemAcquire s k)
  show ?case
  proof (cases "length (w_sems w) \<le> s")
    case False
    obtain r w' where a: "sem_enter s w = (r, w')" by fastforce
    have r: "rel w w'" using quietD [OF quiet_sem_enter SemAcquire(2) ext_refl, of s] a False by simp
    have "fut_ok w' f" "s < length (w_sems w')" if "r = Inr (Some f)" for f
      using a that False by (auto simp: sem_enter_def create_future_run bind_def upd_sem_def fut_ok_def split: if_splits)
    moreover have "goes w (run_coro (k x) w')" for x by (rule goes_trans [OF r SemAcquire(1) [OF rangeI rel_wf [OF r]]])
    ultimately show ?thesis using False a goes_yield [OF r] by (simp split: sum.split option.split)
  qed (simp add: SemAcquire(1) [OF rangeI SemAcquire(2)])
next
  case (QueuePut q x k)
  consider "length (w_queues w) \<le> q" | "q < length (w_queues w)" "queue_full (w_queues w ! q)"
    | "q < length (w_queues w)" "\<not> queue_full (w_queues w ! q)" using not_le by blast
  then show ?case
  proof cases
    case 2
    obtain r w' where a: "put_wait q w = (r, w')" by fastforce
    have r: "rel w w'" using quietD [OF quiet_queue_waits(1) [OF 2(1)] QueuePut(2) ext_refl] a by simp
    have "fut_ok w' f" "q < length (w_queues w')" if "r = Inr f" for f
      using a that 2 by (auto simp: put_wait_def create_future_run bind_def upd_queue_def fut_ok_def)
    moreover have "goes w (run_coro (k x) w')" for x by (rule goes_trans [OF r QueuePut(1) [OF rangeI rel_wf [OF r]]])
    ultimately show ?thesis using 2 a goes_yield [OF r] by (simp split: sum.split)
  next
    case 3
    obtain r w' where a: "vnone (put_nowait q x) w = (r, w')" by fastforce
    have "rel w (snd (vnone (put_nowait q x) w))"
      by (rule quietD [OF quiet_bind [OF quiet_put_nowait [OF 3(1)] quiet_pure(1)] QueuePut(2) ext_refl])
    then have "rel w w'" unfolding a by simp
    from goes_trans [OF this QueuePut(1) [OF rangeI rel_wf [OF this]]] show ?thesis using 3 a by simp
  qed (simp add: QueuePut(1) [OF rangeI QueuePut(2)])
next
  case (QueueGet q k)
  consider "length (w_queues w) \<le> q" | "q < length (w_queues w)" "q_items (w_queues w ! q) = []"
    | "q < length (w_queues w)" "q_items (w_queues w ! q) \<noteq> []" using not_le by blast
  then show ?case
  proof cases
    case 2
    obtain r w' where a: "get_wait q w = (r, w')" by fastforce
    have r: "rel w w'" using quietD [OF quiet_queue_waits(2) [OF 2(1)] QueueGet(2) ext_refl] a by simp
    have "fut_ok w' f" "q < length (w_queues w')" if "r = Inr f" for f
      using a that 2 by (auto simp: get_wait_def create_future_run bind_def upd_queue_def fut_ok_def)
    moreover have "goes w (run_coro (k x) w')" for x by (rule goes_trans [OF r QueueGet(1) [OF rangeI rel_wf [OF r]]])
    ultimately show ?thesis using 2 a goes_yield [OF r] by (simp split: sum.split)
  next
    case 3
    obtain r w' where a: "get_nowait q w = (r, w')" by fastforce
    have "rel w w'" using quietD [OF quiet_get_nowait [OF 3(1)] QueueGet(2) ext_refl] a by simp
    from goes_trans [OF this QueueGet(1) [OF rangeI rel_wf [OF this]]] show ?thesis using 3 a by simp
  qed (simp add: QueueGet(1) [OF rangeI QueueGet(2)])
qed (auto simp: goes_def progress_ok_def rel_refl)

lemma goes_loop_again:
  assumes "well_formed w" "quiet w abandon"
  shows "goes w (loop_again abandon f again k exc w)"
proof -
  have "rel w (snd (abandon w))" by (rule quietD [OF assms(2,1) ext_refl])
  then show ?thesis
    unfolding loop_again_def using run_coro_goes assms(1)
    by (auto split: sum.splits intro: goes_trans rel_wf)
qed

lemma quiet_sem_abandon: "s < length (w_sems w0) \<Longrightarrow> quiet w0 (sem_abandon s f)"
  unfolding sem_abandon_def by (auto intro!: quiet_upd_sem remove1_ok)

lemma resume_goes:
  assumes "well_formed w" "\<And>p. p0 = Some p \<Longrightarrow> point_ok w p"
  shows "goes w (resume p0 exc w)"
  using assms
  by (cases "(p0, exc, w)" rule: resume.cases)
    (auto simp: goes_def [of _ "(Raised _, _)"] progress_ok_def rel_refl
      intro!: run_coro_goes goes_loop_again quiet_sem_abandon quiet_queue_waits)


subsection \<open>Steps of a task\<close>

text \<open>\<open>moved d w w'\<close>: as \<open>rel\<close>, but the balance of each task changes by \<open>d\<close> and coroutines advance.\<close>

definition moved :: "(nat \<Rightarrow> int) \<Rightarrow> world \<Rightarrow> world \<Rightarrow> bool" where
  "moved d w w' \<longleftrightarrow> well_formed w' \<and> ext w w' \<and> settled_kept w w' \<and> (\<forall>t. balance w' t = balance w t + d t)"

definition one :: "nat \<Rightarrow> int \<Rightarrow> nat \<Rightarrow> int" where
  "one t k x = (if x = t then k else 0)"

lemma one_simps [simp]: "one t k t = k" "x \<noteq> t \<Longrightarrow> one t k x = 0" "one t k x + one t j x = one t (k + j) x" "one t 0 x = 0"
  by (simp_all add: one_def)

lemma rel_moved: "rel w w' \<Longrightarrow> moved (\<lambda>_. 0) w w'"
  by (simp add: rel_def moved_def)

lemma settled_kept_trans: "settled_kept a b \<Longrightarrow> settled_kept b c \<Longrightarrow> ext a b \<Longrightarrow> settled_kept a c"
  by (auto simp: settled_kept_def ext_def)

lemma moved_trans: "moved d a b \<Longrightarrow> moved d' b c \<Longrightarrow> moved (\<lambda>t. d t + d' t) a c"
  by (auto simp: moved_def intro: ext_trans settled_kept_trans)

lemma moved_update:
  assumes "well_formed w" "f < length (w_futs w)" "future_ok w fu"
    "f_task fu = None \<longleftrightarrow> f_task (fut_at w f) = None" "f_state fu = f_state (fut_at w f)" "outcome fu = outcome (fut_at w f)"
    "\<And>t. d t = one f (int (live (w\<lparr>w_futs := (w_futs w)[f := fu]\<rparr>) f) - int (live w f)) t
      - int (length (filter (resumes t) (f_callbacks fu))) + int (length (filter (resumes t) (f_callbacks (fut_at w f))))"
  shows "moved d w (w\<lparr>w_futs := (w_futs w)[f := fu]\<rparr>)"
proof -
  let ?w = "w\<lparr>w_futs := (w_futs w)[f := fu]\<rparr>"
  have "live ?w t = live w t" if "t \<noteq> f" for t
    using that assms(2) by (simp add: live_def coro_of_update)
  then have "balance ?w t = balance w t + d t" for t
    using pending_update [OF assms(2), of fu t] assms(7) [of t] by (cases "t = f") (auto simp: balance_def)
  moreover have "settled_kept w ?w" using assms(2,5,6) by (auto simp: settled_kept_def nth_list_update)
  ultimately show ?thesis
    using well_formed_update [OF assms(1,2,4,3)] ext_update [OF assms(2,4)] by (simp add: moved_def)
qed

lemma moved_add_wakeup:
  assumes "well_formed w" "fut_ok w f" "is_task w t"
  shows "moved (one t (-1)) w (snd (add_done_callback f (Wakeup t) w))"
proof (cases "f_state (fut_at w f) = PENDING")
  case True
  have f: "f < length (w_futs w)" using assms(2) by (simp add: fut_ok_def)
  let ?fu = "(fut_at w f)\<lparr>f_callbacks := f_callbacks (fut_at w f) @ [Wakeup t]\<rparr>"
  have "moved (one t (-1)) w (w\<lparr>w_futs := (w_futs w)[f := ?fu]\<rparr>)"
  proof (rule moved_update [OF assms(1) f])
    show "future_ok w ?fu" using True well_formed_parts(1) [OF assms(1) f] assms(3) by (simp add: future_ok_def)
    have "live (w\<lparr>w_futs := (w_futs w)[f := ?fu]\<rparr>) f = live w f" using f by (simp add: live_def coro_of_def)
    then show "one t (-1) x = one f (int (live (w\<lparr>w_futs := (w_futs w)[f := ?fu]\<rparr>) f) - int (live w f)) x
        - int (length (filter (resumes x) (f_callbacks ?fu))) + int (length (filter (resumes x) (f_callbacks (fut_at w f))))" for x
      by (simp add: resumes_def one_def)
  qed simp_all
  then show ?thesis using True by (simp add: add_done_callback_def upd_fut_def)
next
  case False
  have "list_all (handle_ok w) [handle_of (Some f) (Wakeup t)]" using assms by (simp add: handle_ok_def handle_of_def)
  from well_formed_enqueue [OF assms(1) this] show ?thesis
    using False pending_enqueue [OF assms(1), of "[handle_of (Some f) (Wakeup t)]"]
    by (simp add: add_done_callback_def snd_bind_ret call_soon_run moved_def ext_enqueue settled_kept_def balance_def
        handle_of_def resumes_def one_def)
qed

lemma moved_call_soon_step:
  assumes "well_formed w" "is_task w t"
  shows "moved (one t (-1)) w (snd (call_soon (Step t) None w))"
proof -
  have "list_all (handle_ok w) [handle_of None (Step t)]" using assms by (simp add: handle_ok_def handle_of_def)
  from well_formed_enqueue [OF assms(1) this] show ?thesis
    using pending_enqueue [OF assms(1), of "[handle_of None (Step t)]"]
    by (simp add: call_soon_run moved_def ext_enqueue settled_kept_def balance_def handle_of_def resumes_def one_def)
qed

lemma moved_set_task:
  assumes "well_formed w" "f_task (fut_at w t) = Some tk" "t < length (w_futs w)" "task_ok w (g tk)"
    "k = (if t_coro (g tk) = None then 0 else 1) - int (live w t)"
  shows "moved (one t k) w (snd (set_task t g w))"
  unfolding set_task_def upd_fut_def
  using assms(2,4,5) well_formed_parts(1) [OF assms(1,3)]
  by (auto intro!: moved_update [OF assms(1,3)] simp: future_ok_def live_def coro_of_update [OF assms(3)])

lemma step_begin_moved:
  assumes "well_formed w" "is_task w t" "balance w t = 1"
  obtains p e w' where "step_begin t exc w = (Inr (p, e), w')" "moved (one t (-1)) w w'" "coro_of w' t = None"
    "\<And>q. p = Some q \<Longrightarrow> point_ok w' q"
proof -
  obtain tk where tk: "t < length (w_futs w)" "f_task (fut_at w t) = Some tk" using assms(2) by (auto simp: is_task_def)
  let ?g = "\<lambda>x. x\<lparr>t_waiter := None, t_must_cancel := False, t_coro := None\<rparr>"
  let ?w = "snd (set_task t ?g w)"
  have l: "live w t = 1" using assms(3) by (auto simp: balance_def live_def split: if_splits)
  have m: "moved (one t (-1)) w ?w"
    by (rule moved_set_task [OF assms(1) tk(2,1)]) (simp_all add: task_ok_def l)
  have "step_begin t exc w = (Inr (t_coro tk, if t_must_cancel tk then Some CancelledError else exc), ?w)"
    by (simp add: step_begin_def tk bind_def set_task_def upd_fut_def)
  moreover have "coro_of ?w t = None" by (simp add: set_task_def upd_fut_def coro_of_def tk)
  moreover have "point_ok ?w q" if "t_coro tk = Some q" for q
    using well_formed_parts(1) [OF assms(1) tk(1)] tk(2) that m
    by (auto simp: future_ok_def task_ok_def moved_def intro: point_ok_ext)
  ultimately show ?thesis using that m by blast
qed

lemma quiet_moved: "quiet w m \<Longrightarrow> well_formed w \<Longrightarrow> moved (\<lambda>_. 0) w (snd (m w))"
  by (rule rel_moved) (auto dest: quietD)

lemma step_end_moved:
  assumes "well_formed w" "is_task w t" "coro_of w t = None" "progress_ok w r"
  shows "moved (\<lambda>_. 0) w (snd (step_end t r w))"
proof (cases r)
  case (Yielded fo p)
  obtain tk where tk: "t < length (w_futs w)" "f_task (fut_at w t) = Some tk" using assms(2) by (auto simp: is_task_def)
  have tok: "task_ok w tk" using well_formed_parts(1) [OF assms(1) tk(1)] tk(2) by (simp add: future_ok_def)
  have p: "point_ok w p" using assms(4) Yielded by (simp add: progress_ok_def)
  show ?thesis
  proof (cases fo)
    case None
    let ?g = "\<lambda>x. x\<lparr>t_coro := Some p\<rparr>"
    have m: "moved (one t 1) w (snd (set_task t ?g w))"
      by (rule moved_set_task [OF assms(1) tk(2,1)]) (use tok p assms(3) in \<open>simp_all add: task_ok_def live_def\<close>)
    then have "well_formed (snd (set_task t ?g w))" "is_task (snd (set_task t ?g w)) t"
      using assms(2) by (auto simp: moved_def ext_def)
    from moved_trans [OF m moved_call_soon_step [OF this]] show ?thesis
      using Yielded None by (simp add: step_end_def snd_bind_ret set_task_def upd_fut_def cong: if_cong)
  next
    case (Some f)
    let ?g = "\<lambda>x. x\<lparr>t_coro := Some p, t_waiter := Some f\<rparr>"
    let ?w1 = "snd (upd_fut f (\<lambda>fu. fu\<lparr>f_blocking := False\<rparr>) w)"
    let ?w2 = "snd (set_task t ?g ?w1)"
    have f: "fut_ok w f" using assms(4) Yielded Some by (simp add: progress_ok_def)
    have r: "rel w ?w1" by (rule quietD [OF quiet_blocking [OF f] assms(1) ext_refl])
    have w1: "well_formed ?w1" "t < length (w_futs ?w1)" "f_task (fut_at ?w1 t) = Some tk" "coro_of ?w1 t = None"
      using r tk assms(3) f by (auto simp: rel_def coros_kept_def upd_fut_def nth_list_update fut_ok_def)
    have "task_ok ?w1 (?g tk)" using point_ok_ext [OF rel_ext [OF r] p] fut_ok_ext [OF rel_ext [OF r] f] by (simp add: task_ok_def)
    then have m: "moved (one t 1) ?w1 ?w2"
      by (rule moved_set_task [OF w1(1,3,2)]) (use w1(4) in \<open>simp add: live_def\<close>)
    then have w2: "well_formed ?w2" "fut_ok ?w2 f" "is_task ?w2 t"
      using fut_ok_ext [OF ext_trans [OF rel_ext [OF r]] f] w1(2,3) by (auto simp: moved_def ext_def is_task_def)
    from moved_trans [OF moved_trans [OF rel_moved [OF r] m] moved_add_wakeup [OF w2]] show ?thesis
      using Yielded Some by (simp add: step_end_def set_task_def upd_fut_def cong: if_cong)
  qed
qed (use assms in \<open>auto simp: step_end_def snd_bind_ret is_task_def fut_ok_def intro!: quiet_moved quiet_intros quiet_bind\<close>)

lemma task_step_moved:
  assumes "well_formed w" "is_task w t" "balance w t = 1"
  shows "moved (one t (-1)) w (snd (task_step t exc w))"
proof -
  obtain p e w1 where b: "step_begin t exc w = (Inr (p, e), w1)" "moved (one t (-1)) w w1" "coro_of w1 t = None"
    "\<And>q. p = Some q \<Longrightarrow> point_ok w1 q"
    by (rule step_begin_moved [OF assms]) (rule that)
  obtain r w2 where r: "resume p e w1 = (r, w2)" by fastforce
  have w1: "well_formed w1" "is_task w1 t" using b(2) assms(2) by (auto simp: moved_def ext_def)
  have g: "rel w1 w2" "progress_ok w2 r" using resume_goes [OF w1(1) b(4), of p e] r by (simp_all add: goes_def)
  have "is_task w2 t" "coro_of w2 t = None" using g(1) w1(2) b(3) by (auto simp: rel_def ext_def coros_kept_def is_task_def)
  from step_end_moved [OF rel_wf [OF g(1)] this g(2)] have "moved (\<lambda>_. 0) w2 (snd (step_end t r w2))" .
  from moved_trans [OF moved_trans [OF b(2) rel_moved [OF g(1)]] this] show ?thesis
    using b(1) r by (simp add: task_step_def bind_def)
qed


subsection \<open>Turns of the loop\<close>

lemma report_moved: "moved d w (snd (m w)) \<Longrightarrow> moved d w (snd (report m w))"
proof -
  assume m: "moved d w (snd (m w))"
  have "moved (\<lambda>_. 0) w' (w'\<lparr>w_stderr := w_stderr w' @ [e]\<rparr>)" if "well_formed w'" for w' e
    using rel_moved [OF quietD [OF quiet_flags(3) that ext_refl, of e]] by simp
  from moved_trans [OF m this] m show ?thesis
    by (auto simp: report_def catch_def moved_def split: prod.splits sum.splits)
qed

lemma moved_pop:
  assumes "well_formed w" "w_ready w = h # hs"
  shows "moved (\<lambda>t. if \<not> h_cancelled (w_handles w ! h) \<and> resumes t (h_fn (w_handles w ! h)) then 1 else 0) w (w\<lparr>w_ready := hs\<rparr>)"
proof -
  let ?w = "w\<lparr>w_ready := hs\<rparr>"
  have x: "ext w ?w" by (simp add: ext_def is_task_def)
  have "well_formed ?w" by (rule well_formed_ext [OF assms(1) x]) (use assms in \<open>auto simp: well_formed_def list_all_iff\<close>)
  then show ?thesis
    using x assms(2) by (simp add: moved_def settled_kept_def balance_def live_def coro_of_def pending_def in_ready_def in_callbacks_def)
qed

lemma plain_callback_moved:
  assumes "well_formed w" "cb_ok w c" "\<not> resumption c" "\<And>f. a = Some f \<Longrightarrow> fut_ok w f"
  shows "moved (\<lambda>_. 0) w (snd (run_callback c a w))"
proof (rule quiet_moved [OF _ assms(1)])
  have "quiet w (run_api x)" for x by (rule quietI) (rule run_api_rel)
  then show "quiet w (run_callback c a)"
    using assms(2-4)
    by (cases c) (auto simp: run_callback_def set_result_unless_cancelled_def future_cancelled_def
        intro!: quiet_bind quiet_intros quiet_gather_done quiet_wait_done quiet_wait_timeout split: option.split dest: fut_ok_ext)
qed

text \<open>All tasks are in balance: as many pending resumptions as unfinished coroutines.\<close>

definition balanced :: "world \<Rightarrow> bool" where
  "balanced w \<longleftrightarrow> well_formed w \<and> (\<forall>t. balance w t = 0)"

lemma moved_balanced: "moved (\<lambda>_. 0) w w' \<Longrightarrow> balanced w \<Longrightarrow> balanced w'"
  by (simp add: balanced_def moved_def)

lemma run_callback_moved:
  assumes "well_formed w" "handle_ok w h" "\<And>t. balance w t = (if resumes t (h_fn h) then 1 else 0)"
  shows "moved (\<lambda>t. if resumes t (h_fn h) then -1 else 0) w (snd (run_callback (h_fn h) (h_arg h) w))"
proof (cases "resumption (h_fn h)")
  case False
  then have "(\<lambda>t. if resumes t (h_fn h) then -1 else 0) = (\<lambda>_. 0 :: int)" by (auto simp: resumption_def)
  then show ?thesis using plain_callback_moved [OF assms(1) _ False] assms(2) by (simp add: handle_ok_def)
next
  case True
  then obtain t where t: "h_fn h = Step t \<or> h_fn h = Wakeup t" by (auto simp: resumption_def resumes_def)
  have d: "(\<lambda>x. if resumes x (h_fn h) then -1 else 0) = one t (-1)" using t by (auto simp: resumes_def one_def)
  have "is_task w t" "balance w t = 1" using t assms(2,3) by (auto simp: handle_ok_def resumes_def)
  note s = task_step_moved [OF assms(1) this]
  from t show ?thesis
  proof
    assume "h_fn h = Step t"
    then show ?thesis unfolding d using s by (simp add: run_callback_def)
  next
    assume "h_fn h = Wakeup t"
    moreover from this obtain f where "h_arg h = Some f" using assms(2) by (cases "h_arg h") (auto simp: handle_ok_def)
    ultimately show ?thesis unfolding d using s by (simp add: run_callback_def task_wakeup_def split: sum.split)
  qed
qed

lemma handle_run_moved:
  assumes "balanced w" "w_ready w = h # hs"
  shows "moved (\<lambda>_. 0) w (snd (handle_run h (w\<lparr>w_ready := hs\<rparr>)))"
proof -
  let ?w = "w\<lparr>w_ready := hs\<rparr>" and ?h = "w_handles w ! h"
  have wf: "well_formed w" and b: "\<And>t. balance w t = 0" using assms(1) by (auto simp: balanced_def)
  note p = moved_pop [OF wf assms(2)]
  have h: "h < length (w_handles w)" using wf assms(2) by (simp add: well_formed_def)
  show ?thesis
  proof (cases "h_cancelled ?h")
    case True
    then show ?thesis using p by (simp add: handle_run_def)
  next
    case False
    have w: "well_formed ?w" "ext w ?w" "\<And>t. balance ?w t = (if resumes t (h_fn ?h) then 1 else 0)"
      using p b False by (auto simp: moved_def)
    have "handle_ok ?w ?h" by (rule handle_ok_ext [OF w(2) well_formed_parts(2) [OF wf h]])
    from report_moved [where m = "run_callback (h_fn ?h) (h_arg ?h)", OF run_callback_moved [OF w(1) this w(3)]] have
      "moved (\<lambda>t. if resumes t (h_fn ?h) then -1 else 0) ?w (snd (handle_run h ?w))"
      using False by (simp add: handle_run_def)
    from moved_trans [OF p this] show ?thesis using False by (simp add: moved_def)
  qed
qed

lemma moved_refl: "well_formed w \<Longrightarrow> moved (\<lambda>_. 0) w w"
  by (rule rel_moved [OF rel_refl])

lemma moved0_trans: "moved (\<lambda>_. 0) a b \<Longrightarrow> moved (\<lambda>_. 0) b c \<Longrightarrow> moved (\<lambda>_. 0) a c"
  using moved_trans [of "\<lambda>_. 0" a b "\<lambda>_. 0" c] by simp

lemma run_ready_moved: "balanced w \<Longrightarrow> moved (\<lambda>_. 0) w (snd (run_ready n w))"
proof (induction n arbitrary: w)
  case (Suc n)
  show ?case
  proof (cases "w_ready w")
    case (Cons h hs)
    note m = handle_run_moved [OF Suc(2) Cons]
    obtain r w' where r: "handle_run h (w\<lparr>w_ready := hs\<rparr>) = (r, w')" by fastforce
    have m': "moved (\<lambda>_. 0) w w'" using m r by simp
    show ?thesis
      using Cons r m' moved0_trans [OF m' Suc.IH [OF moved_balanced [OF m' Suc(2)]]] by (cases r) (simp_all add: bind_def)
  qed (use Suc(2) in \<open>simp add: moved_refl balanced_def\<close>)
qed (simp add: moved_refl balanced_def)

lemma due_split: "map snd (not_due now xs) = drop (length (due now xs)) (map snd xs)" "due now xs = take (length (due now xs)) (map snd xs)"
  by (induction now xs rule: due.induct) auto

lemma due_mem: "h \<in> set (due now xs) \<Longrightarrow> \<exists>t. (t, h) \<in> set xs \<and> t \<le> now"
  by (induction now xs rule: due.induct) (auto split: if_splits)

lemma not_due_mem: "x \<in> set (not_due now xs) \<Longrightarrow> x \<in> set xs"
  by (induction now xs rule: not_due.induct) (auto split: if_splits)

lemma promote_moved:
  assumes "well_formed w"
  shows "moved (\<lambda>_. 0) w (snd (promote now w))"
proof -
  let ?w = "w\<lparr>w_ready := w_ready w @ due now (w_sched w), w_sched := not_due now (w_sched w)\<rparr>"
  have p: "plain_handle w h" if "h \<in> set (due now (w_sched w))" for h
    using assms due_mem [OF that] by (force simp: well_formed_def list_all_iff)
  have x: "ext w ?w" by (simp add: ext_def is_task_def)
  have "well_formed ?w"
    by (rule well_formed_ext [OF assms x]) (use p in \<open>auto simp: plain_handle_def dest: not_due_mem\<close>)
  moreover have "filter (\<lambda>h. \<not> h_cancelled (w_handles w ! h) \<and> resumes t (h_fn (w_handles w ! h))) (due now (w_sched w)) = []" for t
    using p by (auto simp: filter_empty_conv plain_handle_def resumption_def)
  then have "balance ?w t = balance w t" for t
    by (simp add: balance_def live_def coro_of_def pending_def in_ready_def in_callbacks_def)
  ultimately show ?thesis using x by (simp add: promote_def moved_def settled_kept_def)
qed

lemma quiet_run_irq: "quiet w0 (run_irq x)"
proof -
  have "quiet w0 (run_api a)" "quiet w0 (create_task c)" for a c
    by (auto intro: quietI run_api_rel rel_create_task)
  then show ?thesis by (cases x) (simp_all add: run_irq_def quiet_bind quiet_pure)
qed

lemma run_once_moved:
  assumes "balanced w"
  shows "moved (\<lambda>_. 0) w (snd (run_once irqs w))"
proof -
  let ?r = "report (for_each irqs run_irq)"
  obtain now w1 where m: "monotonic w = (Inr now, w1)" by (simp add: monotonic_def bind_def)
  have wf: "well_formed w" using assms by (simp add: balanced_def)
  have m1: "moved (\<lambda>_. 0) w w1" using quiet_moved [OF quiet_monotonic wf] m by simp
  then have w1: "well_formed w1" by (simp add: moved_def)
  obtain r w2 where r: "?r w1 = (r, w2)" by fastforce
  have "quiet w1 (for_each irqs run_irq)"
    by (intro quiet_for_each quiet_run_irq)
  from report_moved [where m = "for_each irqs run_irq", OF quiet_moved [OF this w1]] have m2: "moved (\<lambda>_. 0) w w2"
    using moved0_trans [OF m1] r by simp
  have m3: "moved (\<lambda>_. 0) w (snd (promote now w2))"
    using moved0_trans [OF m2 promote_moved] m2 by (simp add: moved_def)
  show ?thesis
  proof (cases r)
    case (Inl e)
    then show ?thesis using m2 unfolding run_once_def by (simp add: bind_Inr [where m = monotonic, OF m] bind_Inl [where m = ?r, OF r [unfolded Inl]])
  next
    case (Inr u)
    then show ?thesis
      using moved0_trans [OF m3 run_ready_moved [OF moved_balanced [OF m3 assms]]]
      unfolding run_once_def by (simp add: bind_Inr [where m = monotonic, OF m] bind_Inr [where m = ?r, OF r [unfolded Inr]] promote_def)
  qed
qed


subsection \<open>Reachable worlds\<close>

text \<open>
  What can happen to the loop: the kernel creates a task or performs an operation outside
  the loop, \<open>run_until_complete\<close> sets its flags, and the loop takes a turn (also one
  that ends in an exception). \<open>close\<close>, which drops what is pending, is not among them: nothing in
  the repository calls it.
\<close>

inductive loop_step :: "world \<Rightarrow> world \<Rightarrow> bool" where
  Create: "loop_step w (snd (create_task c w))"
| Operate: "loop_step w (snd (run_api a w))"
| Flags: "loop_step w (w\<lparr>w_running := b, w_stopping := c\<rparr>)"
| Turn: "loop_step w (snd (run_once irqs w))"

definition loop_reach :: "world \<Rightarrow> bool" where
  "loop_reach w \<longleftrightarrow> (\<exists>clock. loop_step\<^sup>*\<^sup>* (new_loop clock) w)"

lemma loop_step_moved:
  assumes "loop_step w w'" "balanced w"
  shows "moved (\<lambda>_. 0) w w'"
  using assms
proof cases
  case (Flags c b)
  have wf: "well_formed w" using assms(2) by (simp add: balanced_def)
  have "moved (\<lambda>_. 0) w (w\<lparr>w_running := b\<rparr>)" using quiet_moved [OF quiet_flags(4) wf, of b] by simp
  moreover from this have "moved (\<lambda>_. 0) (w\<lparr>w_running := b\<rparr>) (w\<lparr>w_running := b, w_stopping := c\<rparr>)"
    using quiet_moved [OF quiet_flags(1), of "w\<lparr>w_running := b\<rparr>" c] by (simp add: moved_def)
  ultimately show ?thesis using Flags moved0_trans by simp
qed (use assms(2) in \<open>auto simp: balanced_def intro!: rel_moved rel_create_task run_api_rel run_once_moved\<close>)

lemma balanced_new_loop: "balanced (new_loop clock)"
  by (simp add: balanced_def well_formed_def new_loop_def balance_def live_def coro_of_def pending_def in_ready_def in_callbacks_def)

lemma loop_steps_moved: "loop_step\<^sup>*\<^sup>* w w' \<Longrightarrow> balanced w \<Longrightarrow> moved (\<lambda>_. 0) w w'"
proof (induction rule: rtranclp_induct)
  case base
  then show ?case by (simp add: moved_refl balanced_def)
next
  case (step y z)
  then show ?case using loop_step_moved moved_balanced moved0_trans by blast
qed

lemma loop_reach_balanced: "loop_reach w \<Longrightarrow> balanced w"
  using loop_steps_moved balanced_new_loop moved_balanced unfolding loop_reach_def by blast

text \<open>
  C3. In every reachable state of the event loop, a task whose coroutine has not finished has
  exactly one pending resumption (an uncancelled entry of the ready queue or a callback of some
  future), and a task whose coroutine has finished has none: no wake-up is lost and none is doubled.
\<close>

theorem task_resumed_once:
  assumes "loop_reach w"
  shows "pending w t = (if coro_of w t = None then 0 else 1)"
  using loop_reach_balanced [OF assms] by (auto simp: balanced_def balance_def live_def split: if_splits) 

lemma loop_reach_simple: "loop_reach (snd (create_task (Return VNone) (new_loop (\<lambda>_. 0))))"
  unfolding loop_reach_def by (blast intro: loop_step.Create)

theorem task_resumed_once_witness:
  "\<exists>w. loop_reach w \<and> coro_of w 0 = Some (Start (Return VNone)) \<and> pending w 0 = 1"
  using task_resumed_once [OF loop_reach_simple, of 0] loop_reach_simple
  by (intro exI [of _ "snd (create_task (Return VNone) (new_loop (\<lambda>_. 0)))"])
    (simp add: create_task_def bind_def new_loop_def coro_of_def call_soon_def new_handle_def new_future_def)

text \<open>
  C4. A future settles once: when it is done (a result, an exception or cancelled), no later
  operation or turn of the loop changes its state or what \<open>result()\<close> gives.
\<close>

theorem future_settles_once:
  assumes "loop_reach w" "loop_step\<^sup>*\<^sup>* w w'" "f < length (w_futs w)" "f_state (fut_at w f) \<noteq> PENDING"
  shows "f_state (fut_at w' f) = f_state (fut_at w f) \<and> outcome (fut_at w' f) = outcome (fut_at w f)"
  using loop_steps_moved [OF assms(2) loop_reach_balanced [OF assms(1)]] assms(3,4)
  by (auto simp: moved_def settled_kept_def)

theorem future_settles_once_witness:
  "\<exists>w w'. loop_reach w \<and> loop_step w w' \<and> f_state (fut_at w 0) = FINISHED \<and> outcome (fut_at w' 0) = Inr (VInt 7)"
proof -
  let ?w1 = "snd (run_api CreateFuture (new_loop (\<lambda>_. 0)))"
  let ?w = "snd (run_api (SetResult 0 (VInt 7)) ?w1)"
  let ?w' = "snd (run_api (Cancel 0) ?w)"
  have r: "loop_reach ?w"
    unfolding loop_reach_def by (blast intro: loop_step.Operate rtranclp.intros)
  have s: "loop_step ?w ?w'" by (rule loop_step.Operate)
  have d: "0 < length (w_futs ?w)" "f_state (fut_at ?w 0) = FINISHED" "outcome (fut_at ?w 0) = Inr (VInt 7)"
    by (simp_all add: run_api_def new_loop_def bind_def create_future_def fut_ok_def future_set_result_def new_future_def
        schedule_callbacks_def upd_fut_def outcome_def)
  have ss: "loop_step\<^sup>*\<^sup>* ?w ?w'" using s by blast
  show ?thesis
    using future_settles_once [OF r ss d(1)] r s d by (intro exI [of _ ?w] exI [of _ ?w']) simp
qed

end
