(* ===== verification/AsyncSync.thy ===== *)
theory AsyncSync
  imports AsyncLoop
begin

section \<open>What the synchronisation objects promise\<close>

text \<open>
  Bounds that every operation keeps (semaphores, bounded queues, the order of timers), the
  abstract bounded queue that \<open>Queue\<close> implements, failures that leave the state alone, the
  return of a sleeping coroutine, and the hand-over of a lock.
\<close>

named_theorems bounds_intros \<open>operations that keep the bounds of the synchronisation objects\<close>

subsection \<open>Bounds\<close>

definition within_bounds :: "world \<Rightarrow> bool" where
  "within_bounds w \<longleftrightarrow> (\<forall>s \<in> set (w_sems w). 0 \<le> s_value s)
     \<and> (\<forall>q \<in> set (w_queues w). 0 < q_maxsize q \<longrightarrow> int (length (q_items q)) \<le> q_maxsize q)
     \<and> sorted (map fst (w_sched w))"

definition bounded :: "'a aio \<Rightarrow> bool" where
  "bounded m \<longleftrightarrow> (\<forall>w. within_bounds w \<longrightarrow> within_bounds (snd (m w)))"

lemma boundedD: "bounded m \<Longrightarrow> within_bounds w \<Longrightarrow> within_bounds (snd (m w))"
  by (simp add: bounded_def)

lemma bounded_pure [bounds_intros]: "bounded (ret x)" "bounded (raise e)" "bounded (gets g)" "bounded (\<lambda>w. (g' w, w))"
  by (simp_all add: bounded_def)

lemma bounded_bind [bounds_intros]: "bounded m \<Longrightarrow> (\<And>x. bounded (f x)) \<Longrightarrow> bounded (bind m f)"
  unfolding bounded_def bind_def by (auto split: prod.splits sum.splits)

lemma bounded_bind_gets: "(\<And>w. within_bounds w \<Longrightarrow> within_bounds (snd (f (g w) w))) \<Longrightarrow> bounded (bind (gets g) f)"
  by (simp add: bounded_def)

lemma bounded_if [bounds_intros]: "bounded m \<Longrightarrow> bounded m' \<Longrightarrow> bounded (if b then m else m')"
  by simp

lemma bounded_option [bounds_intros]: "bounded m \<Longrightarrow> (\<And>y. bounded (f y)) \<Longrightarrow> bounded (case x of None \<Rightarrow> m | Some y \<Rightarrow> f y)"
  by (cases x) auto

lemma bounded_for_each [bounds_intros]: "(\<And>x. bounded (g x)) \<Longrightarrow> bounded (for_each xs g)"
  by (induction xs) (auto intro: bounds_intros)

lemma bounded_catch [bounds_intros]: "bounded m \<Longrightarrow> (\<And>e. bounded (h e)) \<Longrightarrow> bounded (catch m h)"
  unfolding bounded_def catch_def by (auto split: prod.splits sum.splits)

lemma bounded_modify:
  "(\<And>w. w_sems (u w) = w_sems w \<and> w_queues (u w) = w_queues w \<and> w_sched (u w) = w_sched w) \<Longrightarrow> bounded (modify u)"
  by (simp add: bounded_def within_bounds_def)

lemma bounded_updates [bounds_intros]:
  "bounded (upd_fut f g0)" "bounded (upd_event e g1)" "bounded (upd_lock l g2)" "bounded (upd_gather i g3)" "bounded (upd_wait v g4)"
  "bounded (set_task t g5)" "bounded (handle_cancel h)" "bounded loop_stop" "bounded (modify (\<lambda>w. w\<lparr>w_futs := g6 w\<rparr>))"
  "bounded (modify (\<lambda>w. w\<lparr>w_handles := g7 w\<rparr>))" "bounded (modify (\<lambda>w. w\<lparr>w_ready := g8 w\<rparr>))"
  "bounded (modify (\<lambda>w. w\<lparr>w_reads := g9 w\<rparr>))" "bounded (modify (\<lambda>w. w\<lparr>w_stderr := g10 w\<rparr>))"
  "bounded (modify (\<lambda>w. w\<lparr>w_events := g11 w\<rparr>))" "bounded (modify (\<lambda>w. w\<lparr>w_locks := g12 w\<rparr>))"
  "bounded (modify (\<lambda>w. w\<lparr>w_gathers := g13 w\<rparr>))" "bounded (modify (\<lambda>w. w\<lparr>w_waits := g14 w\<rparr>))"
  unfolding upd_fut_def upd_event_def upd_lock_def upd_gather_def upd_wait_def set_task_def handle_cancel_def loop_stop_def
  by (rule bounded_modify; simp)+

lemma bounded_monotonic [bounds_intros]: "bounded monotonic"
  unfolding monotonic_def by (intro bounds_intros)

lemma bounded_call_soon [bounds_intros]: "bounded (call_soon c a)"
  unfolding call_soon_def new_handle_def by (intro bounds_intros)

lemma sorted_sched_insert: "sorted (map fst xs) \<Longrightarrow> sorted (map fst (list_insert (sched_pos t xs) (t, h) xs))"
proof (induction t xs rule: sched_pos.induct)
  case (2 a t h' xs)
  then show ?case by (auto simp: list_insert_def split: if_splits dest: in_set_takeD in_set_dropD)
qed (simp add: list_insert_def)

lemma bounded_call_at [bounds_intros]: "bounded (call_at t c a)"
proof -
  have "bounded (modify (\<lambda>w. w\<lparr>w_sched := list_insert (sched_pos t (w_sched w)) (t, h) (w_sched w)\<rparr>))" for h
    by (simp add: bounded_def within_bounds_def sorted_sched_insert)
  then show ?thesis unfolding call_at_def new_handle_def by (intro bounds_intros)
qed

lemma bounded_call_later [bounds_intros]: "bounded (call_later d c a)"
  unfolding call_later_def by (intro bounds_intros)

lemma bounded_futures [bounds_intros]:
  "bounded create_future" "bounded (schedule_callbacks f)" "bounded (future_set_result f v)" "bounded (future_set_exception f e)"
  "bounded (future_cancel f)" "bounded (add_done_callback f c)" "bounded (remove_done_callback f c)"
  "bounded (future_done f)" "bounded (future_cancelled f)" "bounded (future_result f)" "bounded (future_exception f)"
  unfolding create_future_def schedule_callbacks_def future_set_result_def future_set_exception_def future_cancel_def
    add_done_callback_def remove_done_callback_def future_done_def future_cancelled_def future_result_def future_exception_def
  by (intro bounds_intros)+

lemma bounded_cancel [bounds_intros]: "bounded (cancel f)"
proof -
  have "bounded (cancel_chain n f)" for n
  proof (induction n arbitrary: f)
    case (Suc n)
    show ?case unfolding cancel_chain.simps by (intro bounds_intros Suc)
  qed (simp add: bounds_intros)
  then show ?thesis unfolding cancel_def by (intro bounds_intros)
qed

lemma bounded_wake_first [bounds_intros]: "bounded (wake_first fs)"
proof (induction fs)
  case (Cons f fs)
  show ?case unfolding wake_first.simps by (intro bounds_intros Cons)
qed (simp add: bounds_intros)

lemma bounded_upd_sem:
  assumes "\<And>s. 0 \<le> s_value s \<Longrightarrow> 0 \<le> s_value (g s)"
  shows "bounded (upd_sem i g)"
  unfolding bounded_def
proof (intro allI impI)
  fix w
  assume w: "within_bounds w"
  show "within_bounds (snd (upd_sem i g w))"
  proof (cases "i < length (w_sems w)")
    case True
    then show ?thesis using w assms by (auto simp: upd_sem_def within_bounds_def dest!: set_update_memE)
  qed (use w in \<open>simp add: upd_sem_def list_update_beyond\<close>)
qed

lemma bounded_upd_queue:
  assumes "\<And>q. 0 < q_maxsize (g q) \<Longrightarrow> q_maxsize (g q) = q_maxsize q \<and> length (q_items (g q)) \<le> length (q_items q)"
  shows "bounded (upd_queue i g)"
  unfolding bounded_def
proof (intro allI impI)
  fix w
  assume w: "within_bounds w"
  show "within_bounds (snd (upd_queue i g w))"
  proof (cases "i < length (w_queues w)")
    case True
    let ?q = "w_queues w ! i"
    have "?q \<in> set (w_queues w)" using True by simp
    then have "0 < q_maxsize (g ?q) \<longrightarrow> int (length (q_items (g ?q))) \<le> q_maxsize (g ?q)"
      using w assms [of ?q] by (force simp: within_bounds_def)
    then show ?thesis using w by (auto simp: upd_queue_def within_bounds_def dest!: set_update_memE)
  qed (use w in \<open>simp add: upd_queue_def list_update_beyond\<close>)
qed

lemma bounded_semaphores [bounds_intros]:
  "bounded (sem_enter s)" "bounded (sem_release s)" "bounded (sem_new v)" "bounded (sem_abandon s f)"
proof -
  have "bounded (upd_sem s (\<lambda>m. m\<lparr>s_waiters := h m\<rparr>))" "bounded (upd_sem s (\<lambda>m. m\<lparr>s_value := s_value m + 1\<rparr>))" for s h
    by (auto intro: bounded_upd_sem)
  note [bounds_intros] = this
  show "bounded (sem_release s)" "bounded (sem_abandon s f)"
    unfolding sem_release_def sem_abandon_def by (intro bounds_intros)+
  show "bounded (sem_new v)" unfolding sem_new_def
    by (auto intro!: bounds_intros simp: bounded_def [of "modify _"] within_bounds_def)
  have e: "bounded (bind create_future (\<lambda>f. bind (upd_sem s (\<lambda>m. m\<lparr>s_waiters := s_waiters m @ [f]\<rparr>)) (\<lambda>_. ret (Some f))))"
    by (intro bounds_intros)
  show "bounded (sem_enter s)" unfolding sem_enter_def
  proof (rule bounded_bind_gets)
    fix w :: world
    let ?m = "if s_value (w_sems w ! s) \<le> 0 then bind create_future (\<lambda>f. bind (upd_sem s (\<lambda>m. m\<lparr>s_waiters := s_waiters m @ [f]\<rparr>)) (\<lambda>_. ret (Some f)))
      else bind (upd_sem s (\<lambda>m. m\<lparr>s_value := s_value m - 1\<rparr>)) (\<lambda>_. ret None)"
    assume w: "within_bounds w"
    show "within_bounds (snd (?m w))"
    proof (cases "s_value (w_sems w ! s) \<le> 0")
      case True
      then show ?thesis using boundedD [OF e w] by simp
    next
      case False
      then show ?thesis using w by (auto simp: upd_sem_def within_bounds_def snd_bind_ret dest!: set_update_memE)
    qed
  qed
qed


lemma bounded_pop_wake: "(\<And>gs. bounded (put gs)) \<Longrightarrow> bounded (pop_wake fs put)"
proof (induction fs)
  case (Cons f fs)
  show ?case unfolding pop_wake.simps by (intro bounds_intros Cons.prems Cons.IH)
qed (simp add: bounds_intros)

lemma bounded_waiter_lists [bounds_intros]:
  "bounded (upd_queue q (\<lambda>v. v\<lparr>q_getters := g v\<rparr>))" "bounded (upd_queue q (\<lambda>v. v\<lparr>q_putters := g v\<rparr>))"
  by (rule bounded_upd_queue; simp)+

lemma bounded_wakeups [bounds_intros]: "bounded (wakeup_getter q)" "bounded (wakeup_putter q)"
  unfolding wakeup_getter_def wakeup_putter_def by (intro bounds_intros bounded_pop_wake)+

lemma bounded_put_nowait [bounds_intros]: "bounded (put_nowait q x)"
  unfolding put_nowait_def
proof (rule bounded_bind_gets)
  fix w :: world
  let ?w = "snd (upd_queue q (\<lambda>v. v\<lparr>q_items := q_items v @ [x]\<rparr>) w)"
  let ?m = "if queue_full (w_queues w ! q) then raise QueueFull else bind (upd_queue q (\<lambda>v. v\<lparr>q_items := q_items v @ [x]\<rparr>)) (\<lambda>_. wakeup_getter q)"
  assume w: "within_bounds w"
  show "within_bounds (snd (?m w))"
  proof (cases "queue_full (w_queues w ! q)")
    case False
    then have "within_bounds ?w"
      using w by (auto simp: upd_queue_def within_bounds_def queue_full_def dest!: set_update_memE)
    then show ?thesis using False boundedD [OF bounded_wakeups(1)] by (simp add: upd_queue_def)
  qed (use w in simp)
qed

lemma bounded_get_nowait [bounds_intros]: "bounded (get_nowait q)"
  unfolding get_nowait_def
proof (rule bounded_bind_gets)
  fix w :: world
  assume w: "within_bounds w"
  show "within_bounds (snd ((case q_items (w_queues w ! q) of [] \<Rightarrow> raise QueueEmpty
     | x # rest \<Rightarrow> bind (upd_queue q (\<lambda>v. v\<lparr>q_items := rest\<rparr>)) (\<lambda>_. bind (wakeup_putter q) (\<lambda>_. ret x))) w))"
  proof (cases "q_items (w_queues w ! q)")
    case (Cons x rest)
    let ?w = "snd (upd_queue q (\<lambda>v. v\<lparr>q_items := rest\<rparr>) w)"
    have "within_bounds ?w"
    proof (cases "q < length (w_queues w)")
      case True
      then have "w_queues w ! q \<in> set (w_queues w)" by simp
      with w Cons have "0 < q_maxsize (w_queues w ! q) \<longrightarrow> int (Suc (length rest)) \<le> q_maxsize (w_queues w ! q)"
        by (fastforce simp: within_bounds_def)
      then show ?thesis using w by (auto simp: upd_queue_def within_bounds_def dest!: set_update_memE)
    qed (use w in \<open>simp add: upd_queue_def list_update_beyond\<close>)
    then show ?thesis using Cons boundedD [OF bounded_wakeups(2)] by (simp add: upd_queue_def snd_bind_ret)
  qed (use w in simp)
qed

lemma bounded_library [bounds_intros]:
  "bounded event_new" "bounded (event_set e)" "bounded (event_enter e)" "bounded (lock_enter l)" "bounded (lock_release l)"
  "bounded (put_wait q)" "bounded (get_wait q)" "bounded (put_abandon q f)" "bounded (get_abandon q f)" "bounded (sleep_start d v)"
  "bounded (gather_start ts re)" "bounded (gather_done g i t)" "bounded (wait_start t d)" "bounded (wait_done v')"
  "bounded (wait_timeout v')" "bounded (wait_finish v')" "bounded (set_result_unless_cancelled f v)"
  unfolding event_new_def event_set_def settle_pending_def event_enter_def event_is_set_def lock_enter_def lock_locked_def lock_take_def
    lock_release_def put_wait_def get_wait_def put_abandon_def get_abandon_def sleep_start_def gather_start_def gather_watch_def gather_done_def
    gather_store_def wait_start_def wait_done_def wait_timeout_def wait_finish_def set_result_unless_cancelled_def
  by (intro bounds_intros bounded_pure allI; auto intro!: bounds_intros split: prod.splits)+

lemma bounded_perform: "bounded (perform a)"
proof (cases a)
  case (NewQueue n)
  then show ?thesis
    by (auto intro!: bounds_intros simp: queue_new_def bounded_def [of "modify _"] within_bounds_def)
qed (auto intro!: bounds_intros simp: event_is_set_def event_clear_def event_abandon_def lock_new_def lock_locked_def lock_abandon_def
    lock_take_def sem_locked_def)

lemma bounded_run_api [bounds_intros]: "bounded (run_api a)"
  unfolding run_api_def by (intro bounds_intros bounded_perform)

lemma bounded_create_task [bounds_intros]: "bounded (create_task c)"
  unfolding create_task_def by (intro bounds_intros)

lemma blocked_on_bounds [simp]: "within_bounds (blocked_on f w) = within_bounds w"
  by (simp add: blocked_on_def upd_fut_def within_bounds_def)

text \<open>A call, then its continuation.\<close>

lemma bounds_step: "bounded m \<Longrightarrow> within_bounds w \<Longrightarrow> m w = (r, w') \<Longrightarrow> within_bounds w'"
  by (auto dest: boundedD)

lemma run_coro_bounds: "within_bounds w \<Longrightarrow> within_bounds (snd (run_coro c w))"
proof (induction c arbitrary: w)
  case (Call a k)
  then show ?case using bounds_step [OF bounded_run_api Call(2), of a] by (auto split: prod.splits)
next
  case (Spawn c k)
  then show ?case using bounds_step [OF bounded_create_task Spawn(3), of c] by (auto split: prod.splits sum.splits)
next
  case (SemAcquire s k)
  then show ?case using bounds_step [OF bounded_semaphores(1) SemAcquire(2), of s] by (auto split: prod.splits sum.splits option.splits)
next
  case (QueuePut q x k)
  have "bounded (vnone (put_nowait q x))" by (intro bounds_intros)
  then show ?case
    using QueuePut bounds_step [OF bounded_library(6) QueuePut(2), of q] bounds_step [OF _ QueuePut(2), of "vnone (put_nowait q x)"]
    by (auto split: prod.splits sum.splits)
next
  case (QueueGet q k)
  then show ?case
    using bounds_step [OF bounded_library(7) QueueGet(2), of q] bounds_step [OF bounded_get_nowait QueueGet(2), of q]
    by (auto split: prod.splits sum.splits)
qed auto

lemma resume_bounds: "within_bounds w \<Longrightarrow> within_bounds (snd (resume p exc w))"
  by (cases "(p, exc, w)" rule: resume.cases)
    (auto simp: loop_again_def run_coro_bounds boundedD [OF bounded_semaphores(4)] boundedD [OF bounded_library(8)]
      boundedD [OF bounded_library(9)]
      simp del: run_coro.simps split: sum.split)

lemma bounded_task_step [bounds_intros]: "bounded (task_step t exc)"
proof -
  have "bounded (\<lambda>w. case resume p e w of (r, w') \<Rightarrow> step_end t r w')" for p e
  proof -
    have "bounded (step_end t r)" for r
      unfolding step_end_def by (cases r) (auto intro!: bounds_intros split: option.split)
    then show ?thesis using resume_bounds by (auto simp: bounded_def split: prod.splits) (metis snd_conv)
  qed
  moreover have "bounded (step_begin t exc)" unfolding step_begin_def by (intro bounds_intros)
  ultimately show ?thesis unfolding task_step_def by (intro bounds_intros) (auto split: prod.split)
qed

lemma bounded_run_callback [bounds_intros]: "bounded (run_callback c a)"
  unfolding run_callback_def task_wakeup_def
  by (cases c) (auto intro!: bounds_intros split: option.split sum.split)

lemma bounded_report [bounds_intros]: "bounded m \<Longrightarrow> bounded (report m)"
  unfolding report_def by (intro bounds_intros)

lemma bounded_run_ready [bounds_intros]: "bounded (run_ready n)"
proof (induction n)
  case (Suc n)
  show ?case unfolding run_ready.simps handle_run_def
    by (intro bounds_intros) (auto intro!: bounds_intros Suc split: list.split)
qed (simp add: bounds_intros)

lemma not_due_drop: "not_due now xs = drop (length (due now xs)) xs"
  by (induction now xs rule: due.induct) auto

lemma bounded_promote [bounds_intros]: "bounded (promote now)"
  by (simp add: promote_def bounded_def within_bounds_def not_due_drop drop_map [symmetric] sorted_wrt_drop)

lemma bounded_run_irq [bounds_intros]: "bounded (run_irq x)"
  by (cases x) (auto simp: run_irq_def intro!: bounds_intros bounded_run_api)

lemma bounded_run_once: "bounded (run_once irqs)"
  unfolding run_once_def by (intro bounds_intros)

lemma loop_reach_bounds: "loop_reach w \<Longrightarrow> within_bounds w"
  unfolding loop_reach_def
proof (elim exE, erule rtranclp_induct)
  show "within_bounds (new_loop clock)" for clock by (simp add: new_loop_def within_bounds_def)
  have f: "within_bounds (w\<lparr>w_running := b, w_stopping := c\<rparr>) = within_bounds w" for w :: world and b c
    by (simp add: within_bounds_def)
  show "within_bounds z" if s: "loop_step y z" and b: "within_bounds y" for y z
    using s by cases (use b f boundedD [OF bounded_create_task] boundedD [OF bounded_run_api] boundedD [OF bounded_run_once] in auto)
qed


text \<open>
  C36. Counters and buffers stay in bounds: in every reachable state no semaphore is negative, no
  queue with a positive \<open>maxsize\<close> holds more items than that, and the timers are sorted by deadline.
\<close>

theorem sync_objects_bounded:
  assumes "loop_reach w"
  shows "(\<forall>s < length (w_sems w). 0 \<le> s_value (w_sems w ! s))
    \<and> (\<forall>q < length (w_queues w). 0 < q_maxsize (w_queues w ! q) \<longrightarrow>
         int (length (q_items (w_queues w ! q))) \<le> q_maxsize (w_queues w ! q))
    \<and> sorted (map fst (w_sched w))"
  using loop_reach_bounds [OF assms] by (simp add: within_bounds_def)

lemma loop_reach_operate: "loop_reach w \<Longrightarrow> loop_reach (snd (run_api a w))"
  unfolding loop_reach_def by (blast intro: loop_step.Operate rtranclp.rtrancl_into_rtrancl)

lemma loop_reach_new: "loop_reach (new_loop clock)"
  unfolding loop_reach_def by blast

theorem sync_objects_bounded_witness:
  "\<exists>w. loop_reach w \<and> q_items (w_queues w ! 0) = [VInt 5] \<and> int (length (q_items (w_queues w ! 0))) \<le> q_maxsize (w_queues w ! 0)"
proof -
  let ?w0 = "snd (run_api (NewQueue 1) (new_loop (\<lambda>_. 0)))"
  let ?w1 = "snd (run_api (PutNowait 0 (VInt 5)) ?w0)"
  let ?w = "snd (run_api (PutNowait 0 (VInt 6)) ?w1)"
  have r: "loop_reach ?w" by (intro loop_reach_operate loop_reach_new)
  have "q_items (w_queues ?w ! 0) = [VInt 5]" "0 < length (w_queues ?w)" "q_maxsize (w_queues ?w ! 0) = 1"
    by (simp_all add: run_api_def new_loop_def queue_new_def bind_def put_nowait_def queue_full_def upd_queue_def wakeup_getter_def)
  then show ?thesis using sync_objects_bounded [OF r] r by (intro exI [of _ ?w]) simp
qed

lemma due_filter: "sorted (map fst xs) \<Longrightarrow> due now xs = map snd (filter (\<lambda>x. fst x \<le> now) xs) \<and> not_due now xs = filter (\<lambda>x. now < fst x) xs"
proof (induction now xs rule: due.induct)
  case (2 now t h xs)
  show ?case
  proof (cases "t \<le> now")
    case False
    then have "\<forall>x \<in> set xs. now < fst x" using 2(2) by fastforce
    then have "filter (\<lambda>x. fst x \<le> now) xs = []" "filter (\<lambda>x. now < fst x) xs = xs"
      by (auto simp: filter_empty_conv filter_id_conv)
    then show ?thesis using False by simp
  qed (use 2 in auto)
qed simp

text \<open>
  C35. Timers fire exactly when due: in a reachable state, promoting at time \<open>now\<close> moves to the
  ready queue, behind what is there and in deadline order, exactly the timers whose deadline is not
  after \<open>now\<close>, and keeps exactly the others.
\<close>

theorem timers_fire_when_due:
  assumes "loop_reach w"
  shows "promote now w = (Inr (), w\<lparr>w_ready := w_ready w @ map snd (filter (\<lambda>x. fst x \<le> now) (w_sched w)),
    w_sched := filter (\<lambda>x. now < fst x) (w_sched w)\<rparr>)"
  using due_filter [of "w_sched w" now] loop_reach_bounds [OF assms] by (simp add: promote_def within_bounds_def)

theorem timers_fire_when_due_witness:
  "\<exists>w. loop_reach w \<and> w_sched w = [(3, 1), (8, 0)] \<and> w_ready (snd (promote 5 w)) = [1] \<and> w_sched (snd (promote 5 w)) = [(8, 0)]"
proof -
  let ?w = "snd (run_api (CallAt 3 StopLoop) (snd (run_api (CallAt 8 StopLoop) (new_loop (\<lambda>_. 0)))))"
  have r: "loop_reach ?w" by (intro loop_reach_operate loop_reach_new)
  have "w_sched ?w = [(3, 1), (8, 0)]" "w_ready ?w = []"
    by (simp_all add: run_api_def new_loop_def bind_def call_at_def new_handle_def list_insert_def)
  then show ?thesis using timers_fire_when_due [OF r, of 5] r by (intro exI [of _ ?w]) simp
qed


subsection \<open>The queue as a bounded buffer\<close>

text \<open>The abstract specification: a list with a capacity (none when it is not positive).\<close>

definition spec_put :: "val \<Rightarrow> int \<times> val list \<Rightarrow> (int \<times> val list) res" where
  "spec_put x b = (if 0 < fst b \<and> fst b \<le> int (length (snd b)) then Inl QueueFull else Inr (fst b, snd b @ [x]))"

definition spec_get :: "int \<times> val list \<Rightarrow> (val \<times> int \<times> val list) res" where
  "spec_get b = (case snd b of [] \<Rightarrow> Inl QueueEmpty | x # xs \<Rightarrow> Inr (x, fst b, xs))"

definition buffer :: "world \<Rightarrow> nat \<Rightarrow> int \<times> val list" where
  "buffer w q = (q_maxsize (w_queues w ! q), q_items (w_queues w ! q))"

lemma set_result_keeps_queues: "w_queues (snd (future_set_result f v w)) = w_queues w"
  by (simp add: future_set_result_def upd_fut_def schedule_callbacks_def schedule_run)

lemma set_result_pending: "f_state (fut_at w f) = PENDING \<Longrightarrow> fst (future_set_result f v w) = Inr ()"
  by (simp add: future_set_result_def upd_fut_def schedule_callbacks_def schedule_run)

lemma pop_wake_buffers:
  assumes "\<And>gs w. \<exists>w'. put gs w = (Inr (), w') \<and> buffer w' = buffer w \<and> w_futs w' = w_futs w"
  shows "\<exists>w'. pop_wake fs put w = (Inr (), w') \<and> buffer w' = buffer w"
proof (induction fs arbitrary: w)
  case (Cons f fs)
  obtain w1 where w1: "put fs w = (Inr (), w1)" "buffer w1 = buffer w" using assms by blast
  show ?case
  proof (cases "f_state (fut_at w1 f) = PENDING")
    case True
    obtain r w2 where r: "future_set_result f VNone w1 = (r, w2)" by fastforce
    have "r = Inr ()" "w_queues w2 = w_queues w1"
      using set_result_pending [OF True, of VNone] set_result_keeps_queues [of f VNone w1] r by simp_all
    then show ?thesis using w1 True r by (simp add: bind_def future_done_def buffer_def fun_eq_iff)
  next
    case False
    then show ?thesis using w1 Cons.IH [of w1] by (simp add: bind_def future_done_def)
  qed
qed simp

lemma upd_waiters_buffers:
  assumes "\<And>v. q_maxsize (g v) = q_maxsize v \<and> q_items (g v) = q_items v"
  shows "\<exists>w'. upd_queue q g w = (Inr (), w') \<and> buffer w' = buffer w \<and> w_futs w' = w_futs w"
proof -
  have "buffer (w\<lparr>w_queues := (w_queues w)[q := g (w_queues w ! q)]\<rparr>) p = buffer w p" for p
    using assms by (cases "p = q"; cases "q < length (w_queues w)") (simp_all add: buffer_def list_update_beyond)
  then show ?thesis by (simp add: upd_queue_def fun_eq_iff)
qed

lemma wakeup_buffers:
  obtains w1 w2 where "wakeup_getter q w = (Inr (), w1)" "buffer w1 = buffer w" "wakeup_putter q w = (Inr (), w2)" "buffer w2 = buffer w"
proof -
  have "\<exists>w1. pop_wake gs (\<lambda>fs. upd_queue q (\<lambda>v. v\<lparr>q_getters := fs\<rparr>)) w = (Inr (), w1) \<and> buffer w1 = buffer w"
    "\<exists>w2. pop_wake gs (\<lambda>fs. upd_queue q (\<lambda>v. v\<lparr>q_putters := fs\<rparr>)) w = (Inr (), w2) \<and> buffer w2 = buffer w" for gs
    by (rule pop_wake_buffers, rule upd_waiters_buffers, simp)+
  then obtain w1 w2 where 1: "pop_wake (q_getters (w_queues w ! q)) (\<lambda>fs. upd_queue q (\<lambda>v. v\<lparr>q_getters := fs\<rparr>)) w = (Inr (), w1)" "buffer w1 = buffer w"
    and 2: "pop_wake (q_putters (w_queues w ! q)) (\<lambda>fs. upd_queue q (\<lambda>v. v\<lparr>q_putters := fs\<rparr>)) w = (Inr (), w2)" "buffer w2 = buffer w"
    by blast
  show ?thesis by (rule that [of w1 w2]) (use 1 2 in \<open>simp_all add: wakeup_getter_def wakeup_putter_def\<close>)
qed

lemma buffer_update:
  "q < length (w_queues w) \<Longrightarrow> buffer (w\<lparr>w_queues := (w_queues w)[q := v]\<rparr>) = (buffer w)(q := (q_maxsize v, q_items v))"
  by (auto simp: buffer_def fun_eq_iff)

lemma put_nowait_spec:
  assumes "q < length (w_queues w)"
  shows "case spec_put x (buffer w q) of Inl e \<Rightarrow> put_nowait q x w = (Inl e, w)
    | Inr b \<Rightarrow> \<exists>w'. put_nowait q x w = (Inr (), w') \<and> buffer w' = (buffer w)(q := b)"
proof (cases "queue_full (w_queues w ! q)")
  case False
  let ?w = "w\<lparr>w_queues := (w_queues w)[q := (w_queues w ! q)\<lparr>q_items := q_items (w_queues w ! q) @ [x]\<rparr>]\<rparr>"
  obtain w1 where "wakeup_getter q ?w = (Inr (), w1)" "buffer w1 = buffer ?w" by (rule wakeup_buffers [of q ?w]) (rule that)
  then show ?thesis
    using False buffer_update [OF assms] by (auto simp: put_nowait_def upd_queue_def spec_put_def buffer_def queue_full_def fun_eq_iff)
qed (auto simp: put_nowait_def spec_put_def buffer_def queue_full_def)

lemma get_nowait_spec:
  assumes "q < length (w_queues w)"
  shows "case spec_get (buffer w q) of Inl e \<Rightarrow> get_nowait q w = (Inl e, w)
    | Inr (y, b) \<Rightarrow> \<exists>w'. get_nowait q w = (Inr y, w') \<and> buffer w' = (buffer w)(q := b)"
proof (cases "q_items (w_queues w ! q)")
  case (Cons y ys)
  let ?w = "w\<lparr>w_queues := (w_queues w)[q := (w_queues w ! q)\<lparr>q_items := ys\<rparr>]\<rparr>"
  obtain w2 where "wakeup_putter q ?w = (Inr (), w2)" "buffer w2 = buffer ?w" by (rule wakeup_buffers [of q ?w]) (rule that)
  then show ?thesis
    using Cons buffer_update [OF assms] by (auto simp: get_nowait_def upd_queue_def spec_get_def buffer_def bind_def fun_eq_iff)
qed (simp add: get_nowait_def spec_get_def buffer_def)

text \<open>
  C32. \<open>Queue\<close> refines the bounded buffer: \<open>put_nowait\<close> and \<open>get_nowait\<close> raise exactly when the
  abstract operation fails, and then change nothing; otherwise they perform it and
  leave the contents of every other queue alone, whatever waiters they wake.
\<close>

theorem queue_refines_buffer:
  assumes "q < length (w_queues w)"
  shows "(case spec_put x (buffer w q) of
      Inl e \<Rightarrow> put_nowait q x w = (Inl e, w)
    | Inr b \<Rightarrow> \<exists>w'. put_nowait q x w = (Inr (), w') \<and> buffer w' = (buffer w)(q := b))
  \<and> (case spec_get (buffer w q) of
      Inl e \<Rightarrow> get_nowait q w = (Inl e, w)
    | Inr (y, b) \<Rightarrow> \<exists>w'. get_nowait q w = (Inr y, w') \<and> buffer w' = (buffer w)(q := b))"
  using put_nowait_spec [OF assms] get_nowait_spec [OF assms] by blast

theorem queue_refines_buffer_witness:
  "\<exists>w w'. 0 < length (w_queues w) \<and> buffer w 0 = (2, [VInt 1]) \<and> put_nowait 0 (VInt 2) w = (Inr (), w') \<and> buffer w' 0 = (2, [VInt 1, VInt 2])"
proof -
  let ?w = "(new_loop (\<lambda>_. 0))\<lparr>w_queues := [\<lparr>q_maxsize = 2, q_items = [VInt 1], q_getters = [], q_putters = []\<rparr>]\<rparr>"
  have l: "0 < length (w_queues ?w)" by simp
  have b: "buffer ?w 0 = (2, [VInt 1])" by (simp add: buffer_def)
  obtain w' where "put_nowait 0 (VInt 2) ?w = (Inr (), w')" "buffer w' = (buffer ?w)(0 := (2, [VInt 1, VInt 2]))"
    using queue_refines_buffer [OF l, of "VInt 2"] b by (auto simp: spec_put_def)
  then show ?thesis using b by (intro exI [of _ ?w] exI [of _ w']) simp
qed

text \<open>The contract a client of a bounded buffer relies on, and what follows from it.\<close>

locale bounded_buffer =
  fixes valid :: "'s \<Rightarrow> bool" and abs :: "'s \<Rightarrow> int \<times> val list" and put :: "val \<Rightarrow> ('s, unit) io" and get :: "('s, val) io"
  assumes put_ok: "valid s \<Longrightarrow> spec_put x (abs s) = Inr b \<Longrightarrow> \<exists>s'. put x s = (Inr (), s') \<and> valid s' \<and> abs s' = b"
    and get_ok: "valid s \<Longrightarrow> spec_get (abs s) = Inr (y, b) \<Longrightarrow> \<exists>s'. get s = (Inr y, s') \<and> valid s' \<and> abs s' = b"
begin

lemma fill:
  "valid s \<Longrightarrow> abs s = (n, ys) \<Longrightarrow> n \<le> 0 \<or> int (length ys + length xs) \<le> n \<Longrightarrow>
     \<exists>s'. for_each xs put s = (Inr (), s') \<and> valid s' \<and> abs s' = (n, ys @ xs)"
proof (induction xs arbitrary: s ys)
  case (Cons x xs)
  have "spec_put x (abs s) = Inr (n, ys @ [x])" using Cons.prems by (auto simp: spec_put_def)
  then obtain s' where "put x s = (Inr (), s')" "valid s'" "abs s' = (n, ys @ [x])" using put_ok Cons.prems(1) by blast
  then show ?case using Cons.IH [of s' "ys @ [x]"] Cons.prems(3) by (auto simp: bind_def)
qed simp

lemma drain:
  "valid s \<Longrightarrow> abs s = (n, ys) \<Longrightarrow> \<exists>s'. replicate_io (length ys) get s = (Inr ys, s') \<and> valid s' \<and> abs s' = (n, [])"
proof (induction ys arbitrary: s)
  case (Cons y ys)
  have "spec_get (abs s) = Inr (y, n, ys)" using Cons.prems by (simp add: spec_get_def)
  then obtain s' where "get s = (Inr y, s')" "valid s'" "abs s' = (n, ys)" using get_ok Cons.prems(1) by blast
  then show ?case using Cons.IH [of s'] by (auto simp: bind_def)
qed simp

end

lemma put_get_keep_count: "length (w_queues (snd (put_nowait q x w))) = length (w_queues w)"
    "length (w_queues (snd (get_nowait q w))) = length (w_queues w)"
proof -
  have p: "length (w_queues (snd (pop_wake fs (\<lambda>fs. upd_queue q (g fs)) w))) = length (w_queues w)" for fs g w
    by (induction fs arbitrary: w) (auto simp: bind_def future_done_def set_result_keeps_queues upd_queue_def)
  show "length (w_queues (snd (put_nowait q x w))) = length (w_queues w)"
    using p [of _ "\<lambda>fs v. v\<lparr>q_getters := fs\<rparr>"] by (auto simp: put_nowait_def wakeup_getter_def upd_queue_def)
  show "length (w_queues (snd (get_nowait q w))) = length (w_queues w)"
    using p [of _ "\<lambda>fs v. v\<lparr>q_putters := fs\<rparr>"] by (auto simp: get_nowait_def wakeup_putter_def upd_queue_def snd_bind_ret split: list.split)
qed

interpretation aq: bounded_buffer "\<lambda>w. q < length (w_queues w)" "\<lambda>w. buffer w q" "put_nowait q" "get_nowait q" for q
proof
  fix w x b
  assume "q < length (w_queues w)" "spec_put x (buffer w q) = Inr b"
  then show "\<exists>w'. put_nowait q x w = (Inr (), w') \<and> q < length (w_queues w') \<and> buffer w' q = b"
    using put_nowait_spec [of q w x] put_get_keep_count(1) [of q x w] by auto
next
  fix w y b
  assume "q < length (w_queues w)" "spec_get (buffer w q) = Inr (y, b)"
  then show "\<exists>w'. get_nowait q w = (Inr y, w') \<and> q < length (w_queues w') \<and> buffer w' q = b"
    using get_nowait_spec [of q w] put_get_keep_count(2) [of q w] by auto
qed

text \<open>
  C37. First in, first out: putting a list of items that fits into an empty queue succeeds, and
  as many gets return exactly those items in that order and leave the queue empty.
\<close>

theorem queue_fifo:
  assumes "q < length (w_queues w)" "buffer w q = (n, [])" "n \<le> 0 \<or> int (length xs) \<le> n"
  shows "\<exists>w1 w2. for_each xs (put_nowait q) w = (Inr (), w1)
    \<and> replicate_io (length xs) (get_nowait q) w1 = (Inr xs, w2) \<and> buffer w2 q = (n, [])"
  using aq.fill [OF assms(1,2), of xs] aq.drain assms(3) by fastforce

theorem queue_fifo_witness:
  "\<exists>w w1 w2. buffer w 0 = (2, []) \<and> for_each [VInt 1, VInt 2] (put_nowait 0) w = (Inr (), w1)
    \<and> replicate_io 2 (get_nowait 0) w1 = (Inr [VInt 1, VInt 2], w2)"
proof -
  let ?w = "(new_loop (\<lambda>_. 0))\<lparr>w_queues := [\<lparr>q_maxsize = 2, q_items = [], q_getters = [], q_putters = []\<rparr>]\<rparr>"
  have b: "0 < length (w_queues ?w)" "buffer ?w 0 = (2, [])" by (simp_all add: buffer_def)
  obtain w1 w2 where "for_each [VInt 1, VInt 2] (put_nowait 0) ?w = (Inr (), w1)"
    "replicate_io (length [VInt 1, VInt 2]) (get_nowait 0) w1 = (Inr [VInt 1, VInt 2], w2)"
    using queue_fifo [OF b, of "[VInt 1, VInt 2]"] by auto
  then show ?thesis using b(2) by (metis length_Cons list.size(3) numeral_2_eq_2)
qed

subsection \<open>Failures\<close>

text \<open>\<open>total m\<close>: the operation never raises; \<open>atomic m\<close>: when it raises, nothing has changed.\<close>

definition total :: "'a aio \<Rightarrow> bool" where
  "total m \<longleftrightarrow> (\<forall>w. \<exists>x w'. m w = (Inr x, w'))"

definition atomic :: "'a aio \<Rightarrow> bool" where
  "atomic m \<longleftrightarrow> (\<forall>w e w'. m w = (Inl e, w') \<longrightarrow> w' = w)"

named_theorems total_intros \<open>operations that never raise\<close>

lemma total_pure [total_intros]: "total (ret x)" "total (gets g)" "total (modify u)"
  by (simp_all add: total_def)

lemma total_bind [total_intros]: "total m \<Longrightarrow> (\<And>x. total (f x)) \<Longrightarrow> total (bind m f)"
  unfolding total_def bind_def by (metis (no_types, lifting) case_prod_conv old.sum.simps(6))

lemma total_if [total_intros]: "total m \<Longrightarrow> total m' \<Longrightarrow> total (if b then m else m')" by simp

lemma total_option [total_intros]: "total m \<Longrightarrow> (\<And>y. total (f y)) \<Longrightarrow> total (case x of None \<Rightarrow> m | Some y \<Rightarrow> f y)"
  by (cases x) auto

lemma total_for_each [total_intros]: "(\<And>x. total (g x)) \<Longrightarrow> total (for_each xs g)"
  by (induction xs) (auto intro: total_intros)

lemma total_core [total_intros]:
  "total (upd_fut f g0)" "total (upd_event e g1)" "total (upd_lock l g2)" "total (upd_sem s g3)" "total (upd_queue q g4)"
  "total (upd_wait v g5)" "total monotonic" "total (call_soon c a)" "total (call_at t c a)" "total (call_later d c a)"
  "total (handle_cancel h)" "total loop_stop" "total create_future" "total (schedule_callbacks f)" "total (add_done_callback f c)"
  "total (remove_done_callback f c)" "total (future_done f)" "total (future_cancelled f)"
  unfolding upd_fut_def upd_event_def upd_lock_def upd_sem_def upd_queue_def upd_wait_def monotonic_def call_soon_def call_at_def call_later_def
    new_handle_def handle_cancel_def loop_stop_def create_future_def schedule_callbacks_def add_done_callback_def
    remove_done_callback_def future_done_def future_cancelled_def monotonic_def
  by (intro total_intros)+

lemma total_settle_pending [total_intros]: "total (settle_pending f)"
proof -
  have "total (bind (upd_fut f (\<lambda>fu. fu\<lparr>f_result := VNone, f_state := FINISHED\<rparr>)) (\<lambda>_. schedule_callbacks f))"
    by (intro total_intros)
  then show ?thesis by (simp add: settle_pending_def future_done_def future_set_result_def total_def)
qed

lemma total_wake_first [total_intros]: "total (wake_first fs)"
proof (induction fs)
  case (Cons f fs)
  have "\<exists>x w'. wake_first (f # fs) w = (Inr x, w')" for w
  proof (cases "f_state (fut_at w f) = PENDING")
    case True
    then show ?thesis
      using set_result_pending [OF True, of VNone] by (cases "future_set_result f VNone w") (simp add: future_done_def bind_def)
  qed (use Cons in \<open>simp add: total_def future_done_def\<close>)
  then show ?case by (simp add: total_def)
qed (simp add: total_def)

lemma atomic_total: "total m \<Longrightarrow> atomic m"
  unfolding atomic_def total_def by (metis Inl_Inr_False Pair_inject)

lemma atomic_raise: "atomic (raise e)" by (simp add: atomic_def)

lemma atomic_bind_gets: "(\<And>x. atomic (f x)) \<Longrightarrow> atomic (bind (gets g) f)"
  by (simp add: atomic_def)

lemma atomic_bind_total: "atomic m \<Longrightarrow> (\<And>x. total (f x)) \<Longrightarrow> atomic (bind m f)"
  unfolding atomic_def total_def bind_def by (auto split: prod.splits sum.splits) (metis Inl_Inr_False Pair_inject)

lemma atomic_if: "atomic m \<Longrightarrow> atomic m' \<Longrightarrow> atomic (if b then m else m')" by simp

lemmas atomic_intros = atomic_raise atomic_bind_gets atomic_if atomic_bind_total

lemma atomic_futures:
  "atomic (future_set_result f v)" "atomic (future_set_exception f e)" "atomic (future_result f)" "atomic (future_exception f)"
  unfolding future_set_result_def future_set_exception_def future_result_def future_exception_def
  by (intro atomic_intros total_intros atomic_total [OF total_bind] atomic_total [OF total_pure(1)] | simp add: atomic_def)+

lemma atomic_lock_release: "atomic (lock_release l)"
  unfolding lock_release_def lock_locked_def
  by (intro atomic_bind_gets atomic_if atomic_raise atomic_total total_intros)

lemma atomic_queue: "atomic (put_nowait q x)" "atomic (get_nowait q)"
proof -
  show "atomic (put_nowait q x)" unfolding atomic_def
  proof (intro allI impI)
    fix w e w'
    assume p: "put_nowait q x w = (Inl e, w')"
    show "w' = w"
    proof (cases "queue_full (w_queues w ! q)")
      case False
      obtain w1 where "wakeup_getter q (w\<lparr>w_queues := (w_queues w)[q := (w_queues w ! q)\<lparr>q_items := q_items (w_queues w ! q) @ [x]\<rparr>]\<rparr>) = (Inr (), w1)"
        using wakeup_buffers by blast
      then show ?thesis using p False by (simp add: put_nowait_def upd_queue_def)
    qed (use p in \<open>simp add: put_nowait_def\<close>)
  qed
  show "atomic (get_nowait q)" unfolding atomic_def
  proof (intro allI impI)
    fix w e w'
    assume g: "get_nowait q w = (Inl e, w')"
    show "w' = w"
    proof (cases "q_items (w_queues w ! q)")
      case (Cons y ys)
      obtain w1 where "wakeup_putter q (w\<lparr>w_queues := (w_queues w)[q := (w_queues w ! q)\<lparr>q_items := ys\<rparr>]\<rparr>) = (Inr (), w1)"
        using wakeup_buffers by blast
      then show ?thesis using g Cons by (simp add: get_nowait_def upd_queue_def bind_def)
    qed (use g in \<open>simp add: get_nowait_def\<close>)
  qed
qed

text \<open>
  The operations that can raise half-way: a wait that timed out has cancelled its timer, a cyclic
  chain of waiting tasks is marked before the recursion gives up, and \<open>gather\<close> has
  registered its callbacks with the arguments before the one that is not a future.
\<close>

fun all_or_nothing :: "api \<Rightarrow> bool" where
  "all_or_nothing (Cancel f) = False"
| "all_or_nothing (WaitFinish v) = False"
| "all_or_nothing (GatherStart ts re) = False"
| "all_or_nothing a = True"

text \<open>
  C34. Failures are clean: when an operation on a future, callback, timer, event, lock, semaphore, queue
  or sleep raises (setting a future that is done, releasing a free lock, a full or empty queue, a negative
  semaphore, an object of the wrong type), the state is exactly what it was before the call. The
  exceptions are \<open>cancel\<close>, the end of \<open>wait_for\<close>, and \<open>gather\<close>.
\<close>

theorem failed_operation_changes_nothing:
  assumes "run_api a w = (Inl e, w')" "all_or_nothing a"
  shows "w' = w"
proof -
  have "atomic (perform a)"
    using assms(2)
    by (cases a)
      (auto intro!: atomic_bind_total atomic_futures atomic_lock_release atomic_queue atomic_if atomic_raise
          total_intros intro: atomic_total
        simp: event_new_def event_is_set_def event_set_def event_clear_def event_enter_def event_abandon_def lock_new_def lock_locked_def
          lock_enter_def lock_abandon_def lock_take_def sem_new_def sem_locked_def sem_release_def queue_new_def sleep_start_def wait_start_def)
  then show ?thesis using assms(1) by (auto simp: run_api_def atomic_def split: if_splits)
qed


theorem failed_operation_changes_nothing_witness:
  "\<exists>w. l_locked (w_locks w ! 0) = False \<and> fst (run_api (LockRelease 0) w) = Inl RuntimeError \<and> snd (run_api (LockRelease 0) w) = w"
proof -
  let ?w = "(new_loop (\<lambda>_. 0))\<lparr>w_locks := [\<lparr>l_locked = False, l_waiters = []\<rparr>]\<rparr>"
  obtain w' where r: "run_api (LockRelease 0) ?w = (Inl RuntimeError, w')"
    by (simp add: run_api_def lock_release_def lock_locked_def bind_def)
  show ?thesis
    using failed_operation_changes_nothing [OF r] r by (intro exI [of _ ?w]) simp
qed

subsection \<open>The hand-over of a lock\<close>

lemma settle_locks: "w_locks (snd (future_set_result f v w)) = w_locks w"
  by (simp add: future_set_result_def upd_fut_def schedule_callbacks_def schedule_run)

text \<open>
  C38. A lock is not handed over: when the holder releases a lock whose first waiter is pending, the
  waiter is granted the lock (its future is finished and it will take the lock
  without looking), but until it runs the lock is free, and a third task that asks for it
  now gets it at once. Both then hold the lock.
\<close>

theorem lock_release_admits_two:
  assumes "l < length (w_locks w)" "w_locks w ! l = \<lparr>l_locked = True, l_waiters = f # fs\<rparr>"
    "f < length (w_futs w)" "f_state (fut_at w f) = PENDING" "f_exception (fut_at w f) = None"
  shows "\<exists>w1 w2. lock_release l w = (Inr (), w1) \<and> lock_enter l w1 = (Inr (VBool True), w2)
    \<and> outcome (fut_at w2 f) = Inr VNone \<and> l_locked (w_locks w2 ! l)
    \<and> (\<forall>k. run_coro (Await f (on_cancel (LockAbandon l f) k (\<lambda>_. Call (LockTake l) (\<lambda>_. k (Inr (VBool True)))))) w2
          = run_coro (k (Inr (VBool True))) w2)"
proof -
  let ?u = "w\<lparr>w_locks := (w_locks w)[l := \<lparr>l_locked = False, l_waiters = f # fs\<rparr>]\<rparr>"
  let ?fu = "(fut_at w f)\<lparr>f_result := VNone, f_state := FINISHED, f_callbacks := []\<rparr>"
  let ?hs = "map (handle_of (Some f)) (f_callbacks (fut_at w f))"
  let ?w1 = "enqueue ?hs (w\<lparr>w_futs := (w_futs w)[f := ?fu], w_locks := (w_locks w)[l := \<lparr>l_locked = False, l_waiters = fs\<rparr>]\<rparr>)"
  let ?w2 = "enqueue ?hs (w\<lparr>w_futs := (w_futs w)[f := ?fu], w_locks := (w_locks w)[l := \<lparr>l_locked = True, l_waiters = fs\<rparr>]\<rparr>)"
  have "future_set_result f VNone ?u = (Inr (), enqueue ?hs (?u\<lparr>w_futs := (w_futs w)[f := ?fu]\<rparr>))"
    using assms(3,4) settle_run [of "\<lambda>fu. fu\<lparr>f_result := VNone, f_state := FINISHED\<rparr>" f ?u] by (simp add: future_set_result_def)
  then have r: "lock_release l w = (Inr (), ?w1)"
    using assms(1,2,4) by (simp add: lock_release_def lock_locked_def upd_lock_def future_done_def bind_def enqueue_def)
  have e: "lock_enter l ?w1 = (Inr (VBool True), ?w2)"
    using assms(1) by (simp add: lock_enter_def lock_locked_def lock_take_def upd_lock_def bind_def enqueue_def)
  have o: "outcome (fut_at ?w2 f) = Inr VNone" "f_state (fut_at ?w2 f) = FINISHED" "fut_ok ?w2 f"
    using assms(3,5) by (simp_all add: outcome_def fut_ok_def)
  have t: "run_api (LockTake l) ?w2 = (Inr VNone, ?w2)"
    using assms(1) by (simp add: run_api_def lock_take_def upd_lock_def enqueue_def)
  show ?thesis
    by (intro exI [of _ ?w1] exI [of _ ?w2] conjI allI r e o(1)) (use assms(1) o t in \<open>simp_all add: on_cancel_def\<close>)
qed

theorem lock_release_admits_two_witness:
  "\<exists>w w1 w2. l_locked (w_locks w ! 0) \<and> lock_release 0 w = (Inr (), w1) \<and> lock_enter 0 w1 = (Inr (VBool True), w2)
     \<and> outcome (fut_at w2 0) = Inr VNone"
proof -
  let ?w = "(new_loop (\<lambda>_. 0))\<lparr>w_futs := [new_future None], w_locks := [\<lparr>l_locked = True, l_waiters = [0]\<rparr>]\<rparr>"
  have h: "0 < length (w_locks ?w)" "w_locks ?w ! 0 = \<lparr>l_locked = True, l_waiters = 0 # []\<rparr>" "0 < length (w_futs ?w)"
    "f_state (fut_at ?w 0) = PENDING" "f_exception (fut_at ?w 0) = None"
    by (simp_all add: new_future_def)
  show ?thesis using lock_release_admits_two [OF h] h(2) by (metis lock.select_convs(1))
qed

subsection \<open>A sleeping coroutine returns\<close>

text \<open>A coroutine that returns what its last \<open>await\<close> gave.\<close>

definition finish :: "val res \<Rightarrow> coro" where
  "finish r = (case r of Inr v \<Rightarrow> Return v | Inl e \<Rightarrow> Raise e)"

text \<open>The loop with one task that sleeps until \<open>t\<close>, after \<open>n\<close> readings of the clock.\<close>

definition asleep :: "(nat \<Rightarrow> int) \<Rightarrow> int \<Rightarrow> val \<Rightarrow> nat \<Rightarrow> world" where
  "asleep clock t v n = (new_loop clock)\<lparr>
     w_futs := [(new_future (Some \<lparr>t_coro = Some (AtFuture 1 finish), t_waiter = Some 1, t_must_cancel = False\<rparr>)),
                (new_future None)\<lparr>f_callbacks := [Wakeup 0]\<rparr>],
     w_handles := [handle_of None (Step 0), handle_of None (SetUnlessCancelled 1 v)],
     w_sched := [(t, 1)], w_running := True, w_reads := n\<rparr>"

definition awake :: "(nat \<Rightarrow> int) \<Rightarrow> val \<Rightarrow> nat \<Rightarrow> world" where
  "awake clock v n = (new_loop clock)\<lparr>
     w_futs := [(new_future (Some \<lparr>t_coro = Some (AtFuture 1 finish), t_waiter = Some 1, t_must_cancel = False\<rparr>)),
                (new_future None)\<lparr>f_result := v, f_state := FINISHED\<rparr>],
     w_handles := [handle_of None (Step 0), handle_of None (SetUnlessCancelled 1 v), handle_of (Some 1) (Wakeup 0)],
     w_ready := [2], w_running := True, w_reads := n\<rparr>"

lemma run_once_eq:
  "run_once [] w = (let w1 = w\<lparr>w_reads := Suc (w_reads w)\<rparr>; now = w_clock w (w_reads w);
     w2 = w1\<lparr>w_ready := w_ready w1 @ due now (w_sched w1), w_sched := not_due now (w_sched w1)\<rparr> in run_ready (length (w_ready w2)) w2)"
  by (simp add: run_once_def monotonic_def bind_def report_def catch_def promote_def Let_def)

lemmas turn_simps = run_once_eq new_loop_def Let_def bind_def numeral_2_eq_2 handle_run_def report_def catch_def run_callback_def
  task_step_def step_begin_def step_end_def task_wakeup_def new_future_def set_task_def upd_fut_def handle_of_def

lemma start_asleep:
  "run_once [] ((snd (create_task (sleep d v finish) (new_loop clock)))\<lparr>w_running := True, w_stopping := False\<rparr>)
     = (Inr (), asleep clock (clock 1 + d) v 2)"
  by (simp add: create_task_def call_soon_def new_handle_def sleep_def run_api_def sleep_start_def create_future_def
      call_later_def monotonic_def call_at_def list_insert_def fut_ok_def blocked_on_def add_done_callback_def asleep_def turn_simps)

lemma asleep_turn: "clock n < t \<Longrightarrow> run_once [] (asleep clock t v n) = (Inr (), asleep clock t v (Suc n))"
  by (simp add: run_once_eq asleep_def new_loop_def Let_def)

lemma wake_turn: "t \<le> clock n \<Longrightarrow> run_once [] (asleep clock t v n) = (Inr (), awake clock v (Suc n))"
  by (simp add: asleep_def awake_def set_result_unless_cancelled_def future_cancelled_def future_set_result_def
      schedule_callbacks_def call_soon_def new_handle_def turn_simps)

lemma awake_turn:
  "\<exists>w. run_once [] (awake clock v n) = (Inr (), w) \<and> f_state (fut_at w 0) = FINISHED \<and> outcome (fut_at w 0) = Inr v \<and> w_reads w = Suc n"
  by (simp add: awake_def outcome_def await_end_def finish_def future_set_result_def schedule_callbacks_def turn_simps)

lemma run_while_done: "f_state (fut_at w f) \<noteq> PENDING \<Longrightarrow> run_while f irqs n w = Some (Inr (), w)"
  by (subst run_while.simps) simp

lemma run_while_turn:
  "f_state (fut_at w f) = PENDING \<Longrightarrow> \<not> w_stopping w \<Longrightarrow> run_once (irqs n) w = (Inr (), w') \<Longrightarrow>
     run_while f irqs n w = run_while f irqs (Suc n) w'"
  by (subst run_while.simps) simp

lemma task_pending [simp]:
  "f_state (fut_at (asleep clock t v n) 0) = PENDING" "\<not> w_stopping (asleep clock t v n)"
  "f_state (fut_at (awake clock v n) 0) = PENDING" "\<not> w_stopping (awake clock v n)"
  by (simp_all add: asleep_def awake_def new_loop_def new_future_def)

lemma run_while_due:
  assumes "t \<le> clock n"
  shows "\<exists>w. run_while 0 (\<lambda>_. []) m (asleep clock t v n) = Some (Inr (), w) \<and> f_state (fut_at w 0) = FINISHED \<and> outcome (fut_at w 0) = Inr v
    \<and> w_reads w = n + 2"
proof -
  obtain w where w: "run_once [] (awake clock v (Suc n)) = (Inr (), w)" "f_state (fut_at w 0) = FINISHED" "outcome (fut_at w 0) = Inr v"
    "w_reads w = n + 2"
    using awake_turn [of clock v "Suc n"] by auto
  then show ?thesis
    using assms run_while_turn [OF task_pending(1,2), of "\<lambda>_. []" m _ _ _ n "awake clock v (Suc n)"]
    by (simp add: wake_turn run_while_turn [OF task_pending(3,4), of "\<lambda>_. []"] run_while_done)
qed

lemma run_while_asleep:
  assumes "t \<le> clock (n + k)" "\<And>j. j < k \<Longrightarrow> clock (n + j) < t"
  shows "\<exists>w. run_while 0 (\<lambda>_. []) m (asleep clock t v n) = Some (Inr (), w) \<and> f_state (fut_at w 0) = FINISHED \<and> outcome (fut_at w 0) = Inr v
    \<and> w_reads w = n + k + 2"
  using assms
proof (induction k arbitrary: n m)
  case 0
  then show ?case using run_while_due [of t clock n] by simp
next
  case (Suc k)
  have "clock n < t" using Suc.prems(2) [of 0] by simp
  moreover have "clock (Suc n + j) < t" if "j < k" for j using Suc.prems(2) [of "Suc j"] that by simp
  ultimately show ?case
    using Suc.IH [of "Suc n" "Suc m"] Suc.prems(1) by (simp add: asleep_turn run_while_turn [OF task_pending(1,2), of "\<lambda>_. []"])
qed

text \<open>A loop that comes back from the sleeping state has seen the deadline.\<close>

lemma run_while_wakes:
  assumes "run_while 0 (\<lambda>_. []) m (asleep clock t v n) = Some r"
  shows "\<exists>k \<ge> n. t \<le> clock k"
proof -
  let ?P = "\<lambda>(f :: nat) (irqs :: nat \<Rightarrow> irq list) (m :: nat) w (r :: unit res \<times> world). \<forall>n. f = 0 \<longrightarrow> irqs = (\<lambda>_. []) \<longrightarrow> w = asleep clock t v n \<longrightarrow> (\<exists>k \<ge> n. t \<le> clock k)"
  have "?P 0 (\<lambda>_. []) m (asleep clock t v n) r"
  proof (rule run_while.raw_induct [where P = ?P, OF _ assms], intro allI impI)
    fix rw f irqs m w r n
    assume IH: "\<And>f irqs m w r. rw f irqs m w = Some r \<Longrightarrow> ?P f irqs m w r"
      and body: "(if f_state (fut_at w f) \<noteq> PENDING \<or> w_stopping w then Some (Inr (), w)
        else case run_once (irqs m) w of (Inr _, w') \<Rightarrow> rw f irqs (Suc m) w' | (Inl e, w') \<Rightarrow> Some (Inl e, w')) = Some r"
      and s: "f = 0" "irqs = (\<lambda>_. [])" "w = asleep clock t v n"
    show "\<exists>k \<ge> n. t \<le> clock k"
    proof (cases "t \<le> clock n")
      case False
      then have "rw 0 (\<lambda>_. []) (Suc m) (asleep clock t v (Suc n)) = Some r" using body s by (simp add: asleep_turn)
      from IH [OF this] show ?thesis using Suc_leD by blast
    qed blast
  qed
  then show ?thesis by blast
qed

lemma run_until_sleep:
  "run_until_complete (ACoro (sleep d v finish)) (\<lambda>_. []) (new_loop clock)
     = (case run_while 0 (\<lambda>_. []) 1 (asleep clock (clock 1 + d) v 2) of
          None \<Rightarrow> None
        | Some (Inl e, w2) \<Rightarrow> Some (Inl e, w2\<lparr>w_running := False\<rparr>)
        | Some (Inr _, w2) \<Rightarrow> if f_state (fut_at w2 0) = CANCELLED then Some (Inl CancelledError, w2\<lparr>w_running := False\<rparr>)
            else Some (future_result 0 (w2\<lparr>w_running := False\<rparr>)))"
proof -
  obtain w0 where c: "create_task (sleep d v finish) (new_loop clock) = (Inr 0, w0)" "f_state (fut_at w0 0) = PENDING"
    by (simp add: create_task_def bind_def call_soon_run new_loop_def new_future_def)
  let ?w = "w0\<lparr>w_running := True, w_stopping := False\<rparr>"
  have p: "f_state (fut_at ?w 0) = PENDING" "\<not> w_stopping ?w" using c(2) by simp_all
  have "run_while 0 (\<lambda>_. []) 0 ?w = run_while 0 (\<lambda>_. []) 1 (asleep clock (clock 1 + d) v 2)"
    unfolding One_nat_def by (rule run_while_turn [OF p]) (use start_asleep [of d v clock] c(1) in simp)
  then show ?thesis by (auto simp: run_until_complete_def c Let_def split: option.split sum.split)
qed

text \<open>
  C33. Sleeping, on a loop with no other task and without interrupts, for every clock, monotone or not: \<open>run_until_complete\<close> on
  a coroutine that awaits \<open>sleep(delay, v)\<close> returns exactly if a turn reads a clock value that
  has reached the deadline, the reading at the call plus the delay. It then returns \<open>v\<close>, and
  the first such turn was the last but one: not earlier, and not later. (Reading number 0 of the
  clock is that of the turn that starts the coroutine, number 1 that of the call.)
\<close>

theorem sleep_returns:
  "if \<exists>n. 2 \<le> n \<and> clock 1 + d \<le> clock n
   then \<exists>w. run_until_complete (ACoro (sleep d v finish)) (\<lambda>_. []) (new_loop clock) = Some (Inr v, w)
     \<and> w_reads w = (LEAST n. 2 \<le> n \<and> clock 1 + d \<le> clock n) + 2
   else run_until_complete (ACoro (sleep d v finish)) (\<lambda>_. []) (new_loop clock) = None"
proof (cases "\<exists>n. 2 \<le> n \<and> clock 1 + d \<le> clock n")
  case True
  let ?t = "clock 1 + d" and ?n = "LEAST n. 2 \<le> n \<and> clock 1 + d \<le> clock n"
  have n: "2 \<le> ?n" "?t \<le> clock ?n" using LeastI_ex [OF True] by auto
  have "clock (2 + j) < ?t" if "j < ?n - 2" for j
    using not_less_Least [of "2 + j" "\<lambda>n. 2 \<le> n \<and> clock 1 + d \<le> clock n"] that by (simp add: not_le)
  moreover have "?t \<le> clock (2 + (?n - 2))" using n by (simp only: le_add_diff_inverse)
  ultimately obtain w where "run_while 0 (\<lambda>_. []) 1 (asleep clock ?t v 2) = Some (Inr (), w)" "f_state (fut_at w 0) = FINISHED"
    "outcome (fut_at w 0) = Inr v" "w_reads w = 2 + (?n - 2) + 2"
    using run_while_asleep [of ?t clock 2 "?n - 2" 1 v] by blast
  then show ?thesis using True n(1) run_until_sleep [of d v clock] by (simp add: future_result_def)
next
  case False
  have "run_while 0 (\<lambda>_. []) 1 (asleep clock (clock 1 + d) v 2) = None"
  proof (rule ccontr)
    assume "run_while 0 (\<lambda>_. []) 1 (asleep clock (clock 1 + d) v 2) \<noteq> None"
    then obtain r where "run_while 0 (\<lambda>_. []) 1 (asleep clock (clock 1 + d) v 2) = Some r" by blast
    from run_while_wakes [OF this] show False using False by blast
  qed
  then show ?thesis using False run_until_sleep [of d v clock] by simp
qed

theorem sleep_returns_witness:
  "\<exists>w. run_until_complete (ACoro (sleep 5 (VInt 9) finish)) (\<lambda>_. []) (new_loop (\<lambda>n. int n * 2)) = Some (Inr (VInt 9), w) \<and> w_reads w = 6"
proof -
  have "(LEAST n. 2 \<le> n \<and> int 1 * 2 + 5 \<le> int n * 2) = 4" by (rule Least_equality) auto
  moreover have "\<exists>n. 2 \<le> n \<and> int 1 * 2 + 5 \<le> int n * 2" by (rule exI [of _ 4]) simp
  ultimately show ?thesis using sleep_returns [of "\<lambda>n. int n * 2" 5 "VInt 9"] by simp
qed

end
