(* ===== verification/Memory.thy ===== *)
theory Memory
  imports Prelude
begin

section \<open>Physical and virtual memory\<close>

text \<open>
  Models \<^verbatim>\<open>kernel/memory/pmm.py\<close> (page frames kept as a stack of address ranges) and
  \<^verbatim>\<open>kernel/memory/vmm.py\<close> (address spaces over one shared frame allocator). The allocator
  is specified by a multiset of free frames in the locale \<open>frame_allocator\<close>, which
  the address-space lemmas use and which the page-frame manager interprets.
\<close>

subsection \<open>The physical memory manager\<close>

definition PAGE_SIZE :: int where
  "PAGE_SIZE = 4096"

definition RESERVED_MB :: int where
  "RESERVED_MB = 1"

text \<open>A \<open>PageFrame\<close> is its physical address; the manager holds \<open>[start, end)\<close> ranges.\<close>

record PageFrame =
  phys :: int

record pmm =
  ranges :: "(int \<times> int) list"
  free_pages :: int

definition pmm_add_region :: "pmm \<Rightarrow> int \<times> int \<Rightarrow> pmm" where
  "pmm_add_region p r =
     (let (base, len) = r;
          start = (base + PAGE_SIZE - 1) AND NOT (PAGE_SIZE - 1);
          stop = (base + len) AND NOT (PAGE_SIZE - 1);
          start = (if start < RESERVED_MB * 1024 * 1024 then RESERVED_MB * 1024 * 1024 else start)
      in if start < stop
         then p\<lparr>ranges := ranges p @ [(start, stop)],
                free_pages := free_pages p + (stop - start) div PAGE_SIZE\<rparr>
         else p)"

definition pmm_init :: "(int \<times> int) list \<Rightarrow> pmm" where
  "pmm_init mmap = foldl pmm_add_region \<lparr>ranges = [], free_pages = 0\<rparr> mmap"

function pmm_alloc :: "(pmm, PageFrame) io" where
  "pmm_alloc p =
     (if ranges p = [] then (Inl MemoryError, p)
      else let (start, stop) = last (ranges p)
           in if start \<ge> stop then pmm_alloc (p\<lparr>ranges := butlast (ranges p)\<rparr>)
              else let stop = stop - PAGE_SIZE
                   in (Inr \<lparr>phys = stop\<rparr>,
                       p\<lparr>ranges := butlast (ranges p) @ [(start, stop)],
                         free_pages := free_pages p - 1\<rparr>))"
  by pat_completeness auto
termination
  by (relation "measure (\<lambda>p. length (ranges p))") auto

declare pmm_alloc.simps [simp del]

definition pmm_alloc_n :: "int \<Rightarrow> (pmm, PageFrame list) io" where
  "pmm_alloc_n n p =
     (if free_pages p < n then (Inl MemoryError, p)
      else replicate_io (nat n) pmm_alloc p)"

definition pmm_free :: "PageFrame \<Rightarrow> pmm \<Rightarrow> pmm" where
  "pmm_free frame p =
     p\<lparr>ranges := ranges p @ [(phys frame, phys frame + PAGE_SIZE)],
       free_pages := free_pages p + 1\<rparr>"

definition pmm_free_many :: "PageFrame list \<Rightarrow> pmm \<Rightarrow> pmm" where
  "pmm_free_many frames p = fold pmm_free frames p"

subsection \<open>Its free frames and its invariant\<close>

definition frames_between :: "int \<Rightarrow> int \<Rightarrow> PageFrame list" where
  "frames_between a b = map (\<lambda>i. \<lparr>phys = a + PAGE_SIZE * int i\<rparr>) [0..<nat ((b - a) div PAGE_SIZE)]"

definition free_frames :: "pmm \<Rightarrow> PageFrame multiset" where
  "free_frames p = mset (concat (map (\<lambda>(a, b). frames_between a b) (ranges p)))"

definition valid_frame :: "PageFrame \<Rightarrow> bool" where
  "valid_frame f \<longleftrightarrow> phys f mod PAGE_SIZE = 0 \<and> RESERVED_MB * 1024 * 1024 \<le> phys f"

definition pmm_inv :: "pmm \<Rightarrow> bool" where
  "pmm_inv p \<longleftrightarrow>
     (\<forall>(a, b) \<in> set (ranges p). a mod PAGE_SIZE = 0 \<and> b mod PAGE_SIZE = 0
        \<and> RESERVED_MB * 1024 * 1024 \<le> a)
     \<and> free_pages p = int (size (free_frames p))"

lemma frames_between_empty [simp]: "b \<le> a \<Longrightarrow> frames_between a b = []"
  using div_nonpos_pos_le0 [of "b - a" PAGE_SIZE] by (simp add: frames_between_def PAGE_SIZE_def)

lemma frames_between_snoc:
  assumes "a mod PAGE_SIZE = 0" "b mod PAGE_SIZE = 0" "a < b"
  shows "frames_between a b = frames_between a (b - PAGE_SIZE) @ [\<lparr>phys = b - PAGE_SIZE\<rparr>]"
proof -
  obtain i j where ij: "a = PAGE_SIZE * i" "b = PAGE_SIZE * j"
    using assms by (metis dvdE mod_0_imp_dvd)
  have lt: "i < j" using assms(3) ij by (simp add: PAGE_SIZE_def)
  have "b - a = (j - i) * PAGE_SIZE" "b - PAGE_SIZE - a = (j - i - 1) * PAGE_SIZE"
    using ij by (simp_all add: algebra_simps)
  then have d: "(b - a) div PAGE_SIZE = j - i"
    and e: "(b - PAGE_SIZE - a) div PAGE_SIZE = j - i - 1"
    by (simp_all add: PAGE_SIZE_def)
  have n: "nat (j - i) = Suc (nat (j - i - 1))" using lt by simp
  have "a + PAGE_SIZE * int (nat (j - i - 1)) = b - PAGE_SIZE"
    using ij lt by (simp add: PAGE_SIZE_def)
  then show ?thesis
    unfolding frames_between_def d e n by simp
qed

lemma frames_between_single [simp]: "frames_between a (a + PAGE_SIZE) = [\<lparr>phys = a\<rparr>]"
  by (simp add: frames_between_def PAGE_SIZE_def)

lemma size_frames_between: "a \<le> b \<Longrightarrow> int (length (frames_between a b)) = (b - a) div PAGE_SIZE"
  by (simp add: frames_between_def PAGE_SIZE_def pos_imp_zdiv_nonneg_iff)

lemma frames_between_valid:
  assumes "a mod PAGE_SIZE = 0" "RESERVED_MB * 1024 * 1024 \<le> a" "f \<in> set (frames_between a b)"
  shows "valid_frame f"
  using assms by (auto simp: frames_between_def valid_frame_def PAGE_SIZE_def RESERVED_MB_def)

lemma free_frames_append [simp]:
  "free_frames (p\<lparr>ranges := rs @ [(a, b)]\<rparr>) = free_frames (p\<lparr>ranges := rs\<rparr>) + mset (frames_between a b)"
  by (simp add: free_frames_def)

lemma free_frames_free_pages [simp]: "free_frames (p\<lparr>free_pages := n\<rparr>) = free_frames p"
  by (simp add: free_frames_def)

lemma free_frames_ranges_idem [simp]: "free_frames (p\<lparr>ranges := ranges p\<rparr>) = free_frames p"
  by (simp add: free_frames_def)

lemma free_frames_last:
  assumes "ranges p \<noteq> []" "last (ranges p) = (a, b)"
  shows "free_frames p = free_frames (p\<lparr>ranges := butlast (ranges p)\<rparr>) + mset (frames_between a b)"
  using free_frames_append [where p = p and rs = "butlast (ranges p)" and a = a and b = b] assms
  by (metis append_butlast_last_id free_frames_ranges_idem)

lemma pmm_inv_free_frames_valid:
  assumes "pmm_inv p" "f \<in># free_frames p"
  shows "valid_frame f"
proof -
  obtain a b where ab: "(a, b) \<in> set (ranges p)" "f \<in> set (frames_between a b)"
    using assms(2) by (auto simp: free_frames_def)
  then have "a mod PAGE_SIZE = 0" "RESERVED_MB * 1024 * 1024 \<le> a"
    using assms(1) by (auto simp: pmm_inv_def)
  then show ?thesis using ab(2) by (rule frames_between_valid)
qed

lemma page_mask: "NOT (PAGE_SIZE - 1) = - 4096"
  by (simp add: PAGE_SIZE_def)

lemma align_page: "x AND - 4096 = x - x mod 4096" for x :: int
  using and_not_mask [of x 12] by (simp add: mask_eq_exp_minus_1)

lemma align_page_mod [simp]: "(x AND - 4096) mod 4096 = 0" for x :: int
  by (simp add: align_page)

lemma pmm_add_region_inv:
  assumes "pmm_inv p"
  shows "pmm_inv (pmm_add_region p r)"
proof (cases r)
  case (Pair base len)
  have add: "pmm_inv (p\<lparr>ranges := ranges p @ [(a, b)], free_pages := free_pages p + (b - a) div 4096\<rparr>)"
    if "a mod 4096 = 0" "b mod 4096 = 0" "1048576 \<le> a" "a < b" for a b
    using assms that
    by (auto simp: pmm_inv_def size_frames_between [unfolded PAGE_SIZE_def] PAGE_SIZE_def RESERVED_MB_def)
  show ?thesis
    unfolding pmm_add_region_def Pair Let_def page_mask
    by (auto intro!: add assms simp: PAGE_SIZE_def RESERVED_MB_def)
qed

lemma pmm_init_inv: "pmm_inv (pmm_init mmap)"
proof -
  have "pmm_inv p \<Longrightarrow> pmm_inv (foldl pmm_add_region p mmap)" for p
    by (induction mmap arbitrary: p) (auto simp: pmm_add_region_inv)
  moreover have "pmm_inv \<lparr>ranges = [], free_pages = 0\<rparr>"
    by (simp add: pmm_inv_def free_frames_def)
  ultimately show ?thesis by (simp add: pmm_init_def)
qed

text \<open>Dropping an exhausted range at the top of the stack changes nothing but the stack.\<close>

lemma pmm_inv_butlast:
  assumes "pmm_inv p" "ranges p \<noteq> []" "last (ranges p) = (a, b)" "b \<le> a"
  shows "free_frames (p\<lparr>ranges := butlast (ranges p)\<rparr>) = free_frames p"
    and "pmm_inv (p\<lparr>ranges := butlast (ranges p)\<rparr>)"
proof -
  show eq: "free_frames (p\<lparr>ranges := butlast (ranges p)\<rparr>) = free_frames p"
    using free_frames_last [OF assms(2,3)] assms(4) by simp
  show "pmm_inv (p\<lparr>ranges := butlast (ranges p)\<rparr>)"
    using assms(1) in_set_butlastD [of _ "ranges p"] unfolding pmm_inv_def eq by auto
qed

lemma pmm_inv_last:
  assumes "pmm_inv p" "ranges p \<noteq> []" "last (ranges p) = (a, b)"
  shows "a mod PAGE_SIZE = 0" "b mod PAGE_SIZE = 0" "RESERVED_MB * 1024 * 1024 \<le> a"
proof -
  have "(a, b) \<in> set (ranges p)" using last_in_set [OF assms(2)] assms(3) by simp
  then show "a mod PAGE_SIZE = 0" "b mod PAGE_SIZE = 0" "RESERVED_MB * 1024 * 1024 \<le> a"
    using assms(1) by (auto simp: pmm_inv_def)
qed

text \<open>The two ways one step of the allocator goes: drop an exhausted range, or cut a page.\<close>

lemma pmm_alloc_drop:
  "ranges p \<noteq> [] \<Longrightarrow> last (ranges p) = (a, b) \<Longrightarrow> b \<le> a \<Longrightarrow>
   pmm_alloc p = pmm_alloc (p\<lparr>ranges := butlast (ranges p)\<rparr>)"
  by (subst pmm_alloc.simps) simp

lemma pmm_alloc_cut:
  "ranges p \<noteq> [] \<Longrightarrow> last (ranges p) = (a, b) \<Longrightarrow> a < b \<Longrightarrow>
   pmm_alloc p = (Inr \<lparr>phys = b - PAGE_SIZE\<rparr>,
     p\<lparr>ranges := butlast (ranges p) @ [(a, b - PAGE_SIZE)], free_pages := free_pages p - 1\<rparr>)"
  by (subst pmm_alloc.simps) (simp add: Let_def)

lemma pmm_alloc_empty:
  assumes "free_frames p = {#}" "pmm_inv p"
  shows "\<exists>p'. pmm_alloc p = (Inl MemoryError, p') \<and> pmm_inv p' \<and> free_frames p' = {#}"
  using assms
proof (induction "length (ranges p)" arbitrary: p)
  case 0
  then show ?case by (simp add: pmm_alloc.simps)
next
  case (Suc n)
  then have ne: "ranges p \<noteq> []" by auto
  obtain a b where ab: "last (ranges p) = (a, b)" by fastforce
  have "frames_between a b = []"
    using free_frames_last [OF ne ab] Suc.prems by simp
  then have le: "b \<le> a"
    using frames_between_snoc [OF pmm_inv_last(1,2) [OF Suc.prems(2) ne ab]] by fastforce
  note q = pmm_inv_butlast [OF Suc.prems(2) ne ab le]
  show ?case
    using Suc.hyps(1) [of "p\<lparr>ranges := butlast (ranges p)\<rparr>"] Suc.hyps(2) Suc.prems q
    by (simp add: pmm_alloc_drop [OF ne ab le])
qed

lemma pmm_alloc_nonempty:
  assumes "free_frames p \<noteq> {#}" "pmm_inv p"
  shows "\<exists>f p'. pmm_alloc p = (Inr f, p') \<and> pmm_inv p' \<and> f \<in># free_frames p
           \<and> free_frames p' = free_frames p - {#f#}"
  using assms
proof (induction "length (ranges p)" arbitrary: p)
  case 0
  then show ?case by (simp add: free_frames_def)
next
  case (Suc n)
  then have ne: "ranges p \<noteq> []" by auto
  obtain a b where ab: "last (ranges p) = (a, b)" by fastforce
  show ?case
  proof (cases "b \<le> a")
    case True
    note q = pmm_inv_butlast [OF Suc.prems(2) ne ab True]
    show ?thesis
      using Suc.hyps(1) [of "p\<lparr>ranges := butlast (ranges p)\<rparr>"] Suc.hyps(2) Suc.prems q
      by (simp add: pmm_alloc_drop [OF ne ab True])
  next
    case False
    let ?f = "\<lparr>phys = b - PAGE_SIZE\<rparr>"
    let ?p' = "p\<lparr>ranges := butlast (ranges p) @ [(a, b - PAGE_SIZE)], free_pages := free_pages p - 1\<rparr>"
    note al = pmm_inv_last [OF Suc.prems(2) ne ab]
    have cut: "free_frames p = add_mset ?f (free_frames ?p')"
      using free_frames_last [OF ne ab] frames_between_snoc [OF al(1,2)] False by simp
    have "pmm_inv ?p'"
      unfolding pmm_inv_def
    proof
      have "(b - PAGE_SIZE) mod PAGE_SIZE = 0" using al by (simp add: PAGE_SIZE_def)
      then show "\<forall>(a, b)\<in>set (ranges ?p'). a mod PAGE_SIZE = 0 \<and> b mod PAGE_SIZE = 0
          \<and> RESERVED_MB * 1024 * 1024 \<le> a"
        using Suc.prems(2) al in_set_butlastD [of _ "ranges p"] by (auto simp: pmm_inv_def)
      show "free_pages ?p' = int (size (free_frames ?p'))"
        using Suc.prems(2) cut by (simp add: pmm_inv_def del: free_frames_append)
    qed
    then show ?thesis
      using cut pmm_alloc_cut [OF ne ab] False by (simp del: free_frames_append)
  qed
qed

lemma free_frames_free: "free_frames (pmm_free f p) = add_mset f (free_frames p)"
  by (simp add: pmm_free_def)

lemma pmm_free_inv:
  assumes "pmm_inv p" "valid_frame f"
  shows "pmm_inv (pmm_free f p)"
  using assms free_frames_free [of f p] unfolding pmm_inv_def
  by (auto simp: valid_frame_def pmm_free_def PAGE_SIZE_def)

subsection \<open>The allocator interface\<close>

text \<open>
  What a client of the allocator may rely on: an abstract multiset of free frames that
  \<open>alloc\<close> takes one element from and \<open>free\<close> gives one back to.
\<close>

locale frame_allocator =
  fixes alloc :: "('p, 'f) io"
    and free :: "'f \<Rightarrow> 'p \<Rightarrow> 'p"
    and frames :: "'p \<Rightarrow> 'f multiset"
    and inv :: "'p \<Rightarrow> bool"
    and valid :: "'f \<Rightarrow> bool"
  assumes alloc_some: "inv p \<Longrightarrow> frames p \<noteq> {#} \<Longrightarrow>
      \<exists>f p'. alloc p = (Inr f, p') \<and> inv p' \<and> f \<in># frames p \<and> frames p' = frames p - {#f#}"
    and alloc_none: "inv p \<Longrightarrow> frames p = {#} \<Longrightarrow>
      \<exists>p'. alloc p = (Inl MemoryError, p') \<and> inv p' \<and> frames p' = {#}"
    and frames_free: "frames (free f p) = add_mset f (frames p)"
    and inv_free: "inv p \<Longrightarrow> valid f \<Longrightarrow> inv (free f p)"
    and valid_frames: "inv p \<Longrightarrow> f \<in># frames p \<Longrightarrow> valid f"
begin

lemma alloc_Inr:
  assumes "inv p" "alloc p = (Inr f, p')"
  shows "inv p'" "f \<in># frames p" "frames p = add_mset f (frames p')" "valid f"
proof -
  have "frames p \<noteq> {#}" using alloc_none [of p] assms by auto
  then show "inv p'" "f \<in># frames p" "frames p = add_mset f (frames p')"
    using alloc_some [of p] assms by auto
  then show "valid f" using valid_frames assms(1) by simp
qed

lemma alloc_Inl:
  assumes "inv p" "alloc p = (Inl e, p')"
  shows "e = MemoryError" "inv p'" "frames p = {#}" "frames p' = {#}"
proof -
  show fp: "frames p = {#}" using alloc_some [of p] assms by auto
  show "e = MemoryError" "inv p'" "frames p' = {#}"
    using alloc_none [of p] assms fp by auto
qed

lemma replicate_alloc:
  assumes "inv p" "n \<le> size (frames p)"
  shows "\<exists>fs p'. replicate_io n alloc p = (Inr fs, p') \<and> inv p' \<and> length fs = n
           \<and> frames p = mset fs + frames p' \<and> (\<forall>f \<in> set fs. valid f)"
  using assms
proof (induction n arbitrary: p)
  case 0
  then show ?case by simp
next
  case (Suc n)
  then have "frames p \<noteq> {#}" by auto
  then obtain f q where f: "alloc p = (Inr f, q)"
    using alloc_some [OF Suc.prems(1)] by blast
  note q = alloc_Inr [OF Suc.prems(1) f]
  have "n \<le> size (frames q)" using Suc.prems(2) q(3) by simp
  from Suc.IH [OF q(1) this] obtain fs p' where
    "replicate_io n alloc q = (Inr fs, p')" "inv p'" "length fs = n"
    "frames q = mset fs + frames p'" "\<forall>f \<in> set fs. valid f"
    by blast
  then show ?case using f q by (simp add: bind_def)
qed

lemma fold_free:
  assumes "inv p" "\<forall>f \<in> set fs. valid f"
  shows "inv (fold free fs p)" and "frames (fold free fs p) = mset fs + frames p"
  using assms by (induction fs arbitrary: p) (auto simp: inv_free frames_free)

end

interpretation pf: frame_allocator pmm_alloc pmm_free free_frames pmm_inv valid_frame
  by unfold_locales
    (auto simp: pmm_alloc_nonempty pmm_alloc_empty free_frames_free pmm_free_inv
      intro: pmm_inv_free_frames_valid)

lemma pmm_free_many_frames:
  assumes "pmm_inv p" "\<forall>f \<in> set fs. valid_frame f"
  shows "pmm_inv (pmm_free_many fs p)" and "free_frames (pmm_free_many fs p) = mset fs + free_frames p"
  using pf.fold_free [OF assms] by (simp_all add: pmm_free_many_def)

lemma pmm_alloc_n_ok:
  assumes "pmm_inv p" "n \<le> free_pages p"
  shows "\<exists>fs p'. pmm_alloc_n n p = (Inr fs, p') \<and> pmm_inv p' \<and> length fs = nat n
           \<and> free_frames p = mset fs + free_frames p' \<and> (\<forall>f \<in> set fs. valid_frame f)"
proof -
  have "nat n \<le> size (free_frames p)" using assms by (simp add: pmm_inv_def)
  from pf.replicate_alloc [OF assms(1) this] show ?thesis
    using assms(2) by (simp add: pmm_alloc_n_def)
qed

lemma pmm_alloc_n_Inr:
  assumes "pmm_inv p" "pmm_alloc_n n p = (Inr fs, p')"
  shows "pmm_inv p'" "length fs = nat n" "free_frames p = mset fs + free_frames p'"
    "\<forall>f \<in> set fs. valid_frame f" "n \<le> free_pages p"
proof -
  show n: "n \<le> free_pages p" using assms(2) by (auto simp: pmm_alloc_n_def split: if_splits)
  show "pmm_inv p'" "length fs = nat n" "free_frames p = mset fs + free_frames p'"
    "\<forall>f \<in> set fs. valid_frame f"
    using pmm_alloc_n_ok [OF assms(1) n] assms(2) by auto
qed

subsection \<open>Runs of the allocator\<close>

text \<open>
  A run of a booted allocator is recorded as a trace, latest event first: the frames its clients
  took and the frames they gave back. Nothing in the code stops a client from giving back a frame
  it does not hold, so a run may free any frame that was ever handed out, however often.
\<close>

datatype pmm_event = Took "PageFrame list" | Gave "PageFrame list"

primrec taken :: "pmm_event list \<Rightarrow> PageFrame multiset" where
  "taken [] = {#}"
| "taken (e # tr) = (case e of Took fs \<Rightarrow> mset fs | Gave fs \<Rightarrow> {#}) + taken tr"

primrec given :: "pmm_event list \<Rightarrow> PageFrame multiset" where
  "given [] = {#}"
| "given (e # tr) = (case e of Took fs \<Rightarrow> {#} | Gave fs \<Rightarrow> mset fs) + given tr"

definition held :: "pmm_event list \<Rightarrow> PageFrame multiset" where
  "held tr = taken tr - given tr"

text \<open>The discipline the allocator relies on: every frame given back was held at that moment.\<close>

primrec lawful :: "pmm_event list \<Rightarrow> bool" where
  "lawful [] = True"
| "lawful (e # tr) = (lawful tr \<and> (case e of Took fs \<Rightarrow> True | Gave fs \<Rightarrow> mset fs \<subseteq># held tr))"

inductive pmm_run :: "(int \<times> int) list \<Rightarrow> pmm \<Rightarrow> pmm_event list \<Rightarrow> bool"
  for mmap where
  boot: "pmm_run mmap (pmm_init mmap) []"
| take_one: "pmm_run mmap p tr \<Longrightarrow> pmm_alloc p = (Inr f, p') \<Longrightarrow> pmm_run mmap p' (Took [f] # tr)"
| take_failed: "pmm_run mmap p tr \<Longrightarrow> pmm_alloc p = (Inl e, p') \<Longrightarrow> pmm_run mmap p' tr"
| take_many: "pmm_run mmap p tr \<Longrightarrow> pmm_alloc_n n p = (Inr fs, p') \<Longrightarrow> pmm_run mmap p' (Took fs # tr)"
| take_many_failed: "pmm_run mmap p tr \<Longrightarrow> pmm_alloc_n n p = (Inl e, p') \<Longrightarrow> pmm_run mmap p' tr"
| give_one: "pmm_run mmap p tr \<Longrightarrow> f \<in># taken tr \<Longrightarrow> pmm_run mmap (pmm_free f p) (Gave [f] # tr)"
| give_many: "pmm_run mmap p tr \<Longrightarrow> set fs \<subseteq> set_mset (taken tr) \<Longrightarrow> pmm_run mmap (pmm_free_many fs p) (Gave fs # tr)"

lemma pmm_alloc_n_Inl:
  assumes "pmm_inv p" "pmm_alloc_n n p = (Inl e, p')"
  shows "p' = p"
  using assms pmm_alloc_n_ok [OF assms(1), of n] by (cases "n \<le> free_pages p") (auto simp: pmm_alloc_n_def)

lemma pmm_run_conserves:
  assumes "pmm_run mmap p tr"
  shows "pmm_inv p \<and> free_frames p + taken tr = free_frames (pmm_init mmap) + given tr
    \<and> (\<forall>f \<in> set_mset (free_frames p) \<union> set_mset (taken tr). valid_frame f \<and> f \<in># free_frames (pmm_init mmap))"
  using assms
proof (induction rule: pmm_run.induct)
  case boot
  then show ?case using pmm_init_inv pf.valid_frames by auto
next
  case (take_one p tr f p')
  then show ?case using pf.alloc_Inr [of p f p'] by auto
next
  case (take_failed p tr e p')
  then show ?case using pf.alloc_Inl [of p e p'] by auto
next
  case (take_many p tr n fs p')
  then show ?case using pmm_alloc_n_Inr [of p n fs p'] by (auto simp: ac_simps)
next
  case (take_many_failed p tr n e p')
  then show ?case using pmm_alloc_n_Inl [of p n e p'] by simp
next
  case (give_one p tr f)
  then show ?case by (auto simp: free_frames_free pmm_free_inv)
next
  case (give_many p tr fs)
  have v: "\<forall>f \<in> set fs. valid_frame f \<and> f \<in># free_frames (pmm_init mmap)" using give_many by auto
  then have "\<forall>f \<in> set fs. valid_frame f" by blast
  then show ?case using give_many v pmm_free_many_frames [of p fs] by (auto simp: ac_simps)
qed

lemma lawful_given: "lawful tr \<Longrightarrow> given tr \<subseteq># taken tr"
proof (induction tr)
  case (Cons e tr)
  then have g: "given tr \<subseteq># taken tr" by simp
  show ?case
  proof (cases e)
    case (Took fs)
    then show ?thesis using g by (simp add: subset_mset.add_increasing)
  next
    case (Gave fs)
    then show ?thesis using Cons.prems g by (simp add: held_def subset_mset.le_diff_conv2)
  qed
qed simp

text \<open>Regions of the boot memory map that do not overlap give frames that do not repeat.\<close>

definition disjoint_regions :: "(int \<times> int) list \<Rightarrow> bool" where
  "disjoint_regions mmap \<longleftrightarrow>
     sorted_wrt (\<lambda>(b1, l1) (b2, l2). b1 + l1 \<le> b2 \<or> b2 + l2 \<le> b1) mmap"

definition inside :: "PageFrame \<Rightarrow> int \<times> int \<Rightarrow> bool" where
  "inside f r \<longleftrightarrow> fst r \<le> phys f \<and> phys f + PAGE_SIZE \<le> fst r + snd r"

lemma frames_between_bounds:
  assumes "f \<in> set (frames_between a b)"
  shows "a \<le> phys f" "phys f + PAGE_SIZE \<le> b"
proof -
  obtain i where i: "i < nat ((b - a) div 4096)" "phys f = a + 4096 * int i"
    using assms by (auto simp: frames_between_def PAGE_SIZE_def)
  then have "int i + 1 \<le> (b - a) div 4096" by linarith
  moreover have "(b - a) div 4096 * 4096 \<le> b - a" by (simp flip: minus_mod_eq_div_mult)
  ultimately have "(int i + 1) * 4096 \<le> b - a"
    by (meson mult_right_mono order_trans zero_le_numeral)
  then show "a \<le> phys f" "phys f + PAGE_SIZE \<le> b"
    using i by (simp_all add: PAGE_SIZE_def)
qed

lemma distinct_frames_between: "distinct (frames_between a b)"
  by (auto simp: frames_between_def distinct_map inj_on_def PAGE_SIZE_def)

lemma pmm_add_region_frames:
  "\<exists>fs. free_frames (pmm_add_region p r) = free_frames p + mset fs \<and> distinct fs
      \<and> (\<forall>f \<in> set fs. inside f r)"
proof (cases r)
  case (Pair base len)
  let ?fs = "\<lambda>a. frames_between a (base + len AND - 4096)"
  have up: "base \<le> (base + PAGE_SIZE - 1) AND - 4096"
    by (simp add: align_page PAGE_SIZE_def)
  have down: "(base + len) AND - 4096 \<le> base + len"
    by (simp add: align_page)
  have "base \<le> a \<Longrightarrow> distinct (?fs a) \<and> (\<forall>f \<in> set (?fs a). inside f r)" for a
    using down frames_between_bounds [of _ a "base + len AND - 4096"]
    by (fastforce simp: distinct_frames_between inside_def Pair)
  moreover have "\<exists>a. base \<le> a \<and> (free_frames (pmm_add_region p r) = free_frames p + mset (?fs a)
      \<or> free_frames (pmm_add_region p r) = free_frames p)"
    unfolding pmm_add_region_def Pair Let_def page_mask using up
    by (auto intro: exI [of _ "max (RESERVED_MB * 1024 * 1024) ((base + PAGE_SIZE - 1) AND - 4096)"])
  ultimately show ?thesis
    by (metis add.right_neutral distinct.simps(1) empty_iff empty_set mset.simps(1))
qed

lemma pmm_init_frames:
  assumes "disjoint_regions mmap"
  shows "\<exists>fs. free_frames (pmm_init mmap) = mset fs \<and> distinct fs
           \<and> (\<forall>f \<in> set fs. \<exists>r \<in> set mmap. inside f r)"
  using assms
proof (induction mmap rule: rev_induct)
  case Nil
  then show ?case by (simp add: pmm_init_def free_frames_def)
next
  case (snoc r mmap)
  have dis: "disjoint_regions mmap"
    and apart: "\<And>r' f. r' \<in> set mmap \<Longrightarrow> inside f r' \<Longrightarrow> \<not> inside f r"
    using snoc.prems
    by (fastforce simp: disjoint_regions_def sorted_wrt_append inside_def PAGE_SIZE_def)+
  obtain fs where fs: "free_frames (pmm_init mmap) = mset fs" "distinct fs"
    "\<forall>f \<in> set fs. \<exists>r \<in> set mmap. inside f r"
    using snoc.IH [OF dis] by blast
  obtain gs where gs: "free_frames (pmm_add_region (pmm_init mmap) r) = free_frames (pmm_init mmap) + mset gs"
    "distinct gs" "\<forall>f \<in> set gs. inside f r"
    using pmm_add_region_frames by blast
  have "pmm_init (mmap @ [r]) = pmm_add_region (pmm_init mmap) r" by (simp add: pmm_init_def)
  moreover have "distinct (fs @ gs)" using fs gs apart by fastforce
  ultimately show ?case using fs gs by (intro exI [of _ "fs @ gs"]) auto
qed

text \<open>
  C5. For every run of a frame allocator booted from a memory map without overlapping regions,
  double frees included, free plus taken frames are the frames of the map plus those given back, and
  every frame handed out is page aligned, above the reserved first megabyte and wholly inside a
  region of the map. As long as its clients give back only frames they hold, no frame is out twice: the held
  frames are pairwise distinct, none of them is still free, and held plus free frames are those of the map.
\<close>

theorem pmm_no_double_allocation:
  assumes "disjoint_regions mmap" and "pmm_run mmap p tr"
  shows "free_frames p + taken tr = free_frames (pmm_init mmap) + given tr
    \<and> (\<forall>f \<in># taken tr. valid_frame f \<and> (\<exists>r \<in> set mmap. inside f r))
    \<and> (lawful tr \<longrightarrow> free_frames p + held tr = free_frames (pmm_init mmap)
         \<and> (\<forall>f. count (held tr) f + count (free_frames p) f \<le> 1))"
proof -
  obtain fs where fs: "free_frames (pmm_init mmap) = mset fs" "distinct fs"
    "\<forall>f \<in> set fs. \<exists>r \<in> set mmap. inside f r"
    using pmm_init_frames [OF assms(1)] by blast
  note run = pmm_run_conserves [OF assms(2)]
  have law: "free_frames p + held tr = mset fs" if "lawful tr"
    using run fs(1) lawful_given [OF that] unfolding held_def
    by (metis add_diff_cancel_right' subset_mset.add_diff_assoc)
  then have "count (held tr) f + count (free_frames p) f \<le> 1" if "lawful tr" for f
    using that fs(2) by (metis add.commute count_union distinct_count_atmost_1 le_refl nat_le_linear zero_le)
  moreover have "\<exists>r \<in> set mmap. inside f r" if "f \<in># taken tr" for f
    using that run fs(1,3) by auto
  ultimately show ?thesis using run law fs(1) by auto
qed

theorem pmm_no_double_allocation_witness:
  "free_frames (pmm_free \<lparr>phys = 0x102000\<rparr> (snd (pmm_alloc (pmm_init [(0x100000, 0x3000)]))))
     = free_frames (pmm_init [(0x100000, 0x3000)])"
proof -
  let ?f = "\<lparr>phys = 0x102000\<rparr>" and ?tr = "[Gave [\<lparr>phys = 0x102000\<rparr>], Took [\<lparr>phys = 0x102000\<rparr>]]"
  have a: "pmm_alloc (pmm_init [(0x100000, 0x3000)]) = (Inr ?f, \<lparr>ranges = [(0x100000, 0x102000)], free_pages = 2\<rparr>)"
    by code_simp
  have d: "disjoint_regions [(0x100000, 0x3000)]" by (simp add: disjoint_regions_def)
  have r: "pmm_run [(0x100000, 0x3000)] (pmm_free ?f (snd (pmm_alloc (pmm_init [(0x100000, 0x3000)])))) ?tr"
    using pmm_run.give_one [OF pmm_run.take_one [OF pmm_run.boot a]] a by simp
  have "lawful ?tr" "held ?tr = {#}" by (simp_all add: held_def)
  with pmm_no_double_allocation [OF d r] show ?thesis by simp
qed

text \<open>
  C6. \<open>alloc_n\<close> succeeds exactly when enough frames are free: it then returns \<open>n\<close>
  frames taken out of the free ones and keeps the invariant; otherwise it raises
  \<open>MemoryError\<close> and changes nothing. Giving the frames back restores the free set.
\<close>

theorem pmm_alloc_n_exact:
  assumes "pmm_inv p" and "0 \<le> n"
  shows "if n \<le> int (size (free_frames p))
    then \<exists>fs p'. pmm_alloc_n n p = (Inr fs, p') \<and> int (length fs) = n \<and> pmm_inv p'
           \<and> free_frames p = mset fs + free_frames p' \<and> free_pages p' = free_pages p - n
           \<and> free_frames (pmm_free_many fs p') = free_frames p \<and> pmm_inv (pmm_free_many fs p')
    else pmm_alloc_n n p = (Inl MemoryError, p)"
proof (cases "n \<le> free_pages p")
  case True
  obtain fs p' where fs: "pmm_alloc_n n p = (Inr fs, p')" "pmm_inv p'" "length fs = nat n"
    "free_frames p = mset fs + free_frames p'" "\<forall>f \<in> set fs. valid_frame f"
    using pmm_alloc_n_ok [OF assms(1) True] by blast
  then show ?thesis
    using True assms pmm_free_many_frames [OF fs(2,5)] by (auto simp: pmm_inv_def)
next
  case False
  then show ?thesis using assms by (auto simp: pmm_alloc_n_def pmm_inv_def)
qed

theorem pmm_alloc_n_exact_witness:
  "pmm_alloc_n 4 (pmm_init [(0x100000, 0x3000)]) = (Inl MemoryError, pmm_init [(0x100000, 0x3000)])"
proof -
  have "size (free_frames (pmm_init [(0x100000, 0x3000)])) = 3"
    by code_simp
  then show ?thesis
    using pmm_alloc_n_exact [OF pmm_init_inv, of 4 "[(0x100000, 0x3000)]"] by simp
qed

end
