(* ===== verification/Vmm.thy ===== *)
theory Vmm
  imports Memory
begin

section \<open>Virtual address spaces\<close>

text \<open>
  Models \<^verbatim>\<open>kernel/memory/vmm.py\<close>. An address space is its ordered dictionary of
  mappings and the next free virtual address; the frame allocator it shares with every other
  space is threaded beside it. The \<open>region\<close> context manager is split at its
  \<open>yield\<close> into the part that enters and the \<open>finally\<close> part that leaves. The TLB
  flush is an empty method in the source and has no counterpart here.
\<close>

subsection \<open>Mappings and spaces\<close>

type_synonym PageFlags = int

definition PRESENT :: PageFlags where "PRESENT = 1"
definition WRITE :: PageFlags where "WRITE = 2"
definition USER :: PageFlags where "USER = 4"
definition EXECUTABLE :: PageFlags where "EXECUTABLE = 8"
definition RW :: PageFlags where "RW = PRESENT OR WRITE"

record Mapping =
  m_vaddr :: int
  m_frame :: PageFrame
  m_flags :: PageFlags

record MemoryRegion =
  r_vaddr :: int
  r_size :: int
  r_flags :: PageFlags
  r_mappings :: "Mapping list"

record VirtualAddressSpace =
  mappings :: "(int \<times> Mapping) list"
  next_vaddr :: int

definition new_space :: VirtualAddressSpace where
  "new_space = \<lparr>mappings = [], next_vaddr = 0x100000000000\<rparr>"

definition space_map :: "int \<Rightarrow> PageFrame \<Rightarrow> PageFlags \<Rightarrow> VirtualAddressSpace \<Rightarrow> VirtualAddressSpace" where
  "space_map vaddr frame flags sp =
     (let m = \<lparr>m_vaddr = vaddr, m_frame = frame, m_flags = flags\<rparr>
      in sp\<lparr>mappings := AList.update vaddr m (mappings sp)\<rparr>)"

definition space_unmap :: "int \<Rightarrow> VirtualAddressSpace \<Rightarrow> PageFrame option \<times> VirtualAddressSpace" where
  "space_unmap vaddr sp =
     (case map_of (mappings sp) vaddr of
        Some m \<Rightarrow> (Some (m_frame m), sp\<lparr>mappings := AList.delete vaddr (mappings sp)\<rparr>)
      | None \<Rightarrow> (None, sp))"

definition space_getitem :: "int \<Rightarrow> VirtualAddressSpace \<Rightarrow> Mapping res" where
  "space_getitem vaddr sp =
     (case map_of (mappings sp) vaddr of None \<Rightarrow> Inl KeyError | Some m \<Rightarrow> Inr m)"

definition space_contains :: "int \<Rightarrow> VirtualAddressSpace \<Rightarrow> bool" where
  "space_contains vaddr sp \<longleftrightarrow> vaddr \<in> fst ` set (mappings sp)"

definition alloc_vrange :: "int \<Rightarrow> VirtualAddressSpace \<Rightarrow> int \<times> VirtualAddressSpace" where
  "alloc_vrange n sp = (next_vaddr sp, sp\<lparr>next_vaddr := next_vaddr sp + n * PAGE_SIZE\<rparr>)"

text \<open>
  The loop over \<open>enumerate(frames)\<close>: map each frame at the next page and append the
  stored mapping to the region.
\<close>

fun region_map :: "int \<Rightarrow> int \<Rightarrow> PageFlags \<Rightarrow> PageFrame list \<Rightarrow> Mapping list \<Rightarrow>
    (VirtualAddressSpace, Mapping list) io" where
  "region_map vaddr i flags [] acc sp = (Inr acc, sp)"
| "region_map vaddr i flags (frame # frames) acc sp =
     (let v = vaddr + i * PAGE_SIZE; sp' = space_map v frame flags sp
      in case space_getitem v sp' of
           Inl e \<Rightarrow> (Inl e, sp')
         | Inr m \<Rightarrow> region_map vaddr (i + 1) flags frames (acc @ [m]) sp')"

definition region_enter :: "int \<Rightarrow> PageFlags \<Rightarrow>
    (VirtualAddressSpace \<times> pmm, MemoryRegion \<times> PageFrame list) io" where
  "region_enter sz flags = (\<lambda>(sp, pm).
     (let n = (sz + PAGE_SIZE - 1) div PAGE_SIZE
      in case pmm_alloc_n n pm of
           (Inl e, pm') \<Rightarrow> (Inl e, (sp, pm'))
         | (Inr frames, pm') \<Rightarrow>
             (let (vaddr, sp1) = alloc_vrange n sp
              in case region_map vaddr 0 flags frames [] sp1 of
                   (Inl e, sp2) \<Rightarrow> (Inl e, (sp2, pm'))
                 | (Inr ms, sp2) \<Rightarrow>
                     (Inr (\<lparr>r_vaddr = vaddr, r_size = sz, r_flags = flags, r_mappings = ms\<rparr>, frames),
                      (sp2, pm')))))"

definition region_exit :: "MemoryRegion \<Rightarrow> PageFrame list \<Rightarrow> VirtualAddressSpace \<times> pmm \<Rightarrow>
    VirtualAddressSpace \<times> pmm" where
  "region_exit region frames = (\<lambda>(sp, pm).
     (fold (\<lambda>m sp. snd (space_unmap (m_vaddr m) sp)) (r_mappings region) sp,
      pmm_free_many frames pm))"

subsection \<open>The kernel-wide manager\<close>

record VirtualMemoryManager =
  vm_pmm :: pmm
  vm_spaces :: "(int \<times> VirtualAddressSpace) list"

definition create_space :: "int \<Rightarrow> VirtualMemoryManager \<Rightarrow> VirtualAddressSpace \<times> VirtualMemoryManager" where
  "create_space pid v = (new_space, v\<lparr>vm_spaces := AList.update pid new_space (vm_spaces v)\<rparr>)"

definition destroy_space :: "int \<Rightarrow> VirtualMemoryManager \<Rightarrow> VirtualMemoryManager" where
  "destroy_space pid v =
     (case map_of (vm_spaces v) pid of
        None \<Rightarrow> v
      | Some space \<Rightarrow>
          (let v' = v\<lparr>vm_spaces := AList.delete pid (vm_spaces v)\<rparr>;
               (space', pm) = fold (\<lambda>m (sp, pm). (snd (space_unmap (m_vaddr m) sp), pmm_free (m_frame m) pm))
                 (map snd (mappings space)) (space, vm_pmm v')
           in v'\<lparr>vm_pmm := pm\<rparr>))"

definition handle_fault :: "int \<Rightarrow> bool \<Rightarrow> bool \<Rightarrow> bool \<Rightarrow> VirtualMemoryManager \<Rightarrow> bool" where
  "handle_fault vaddr write user present v = False"

subsection \<open>Lemmas on one space\<close>

abbreviation page_of :: "VirtualAddressSpace \<Rightarrow> int \<Rightarrow> Mapping option" where
  "page_of sp \<equiv> map_of (mappings sp)"

definition space_inv :: "VirtualAddressSpace \<Rightarrow> bool" where
  "space_inv sp \<longleftrightarrow> distinct (map fst (mappings sp)) \<and> (\<forall>(v, m) \<in> set (mappings sp). m_vaddr m = v)"

lemma page_of_space_map [simp]:
  "page_of (space_map v f fl sp) = (page_of sp)(v \<mapsto> \<lparr>m_vaddr = v, m_frame = f, m_flags = fl\<rparr>)"
  by (auto simp: space_map_def update_conv fun_eq_iff)

lemma page_of_space_unmap [simp]: "page_of (snd (space_unmap v sp)) = (page_of sp)(v := None)"
  by (auto simp: space_unmap_def delete_conv fun_eq_iff split: option.splits)

lemma space_unmap_fst: "fst (space_unmap v sp) = map_option m_frame (page_of sp v)"
  by (simp add: space_unmap_def split: option.splits)

lemma next_vaddr_unmap [simp]: "next_vaddr (snd (space_unmap v sp)) = next_vaddr sp"
  by (simp add: space_unmap_def split: option.splits)

lemma next_vaddr_map [simp]: "next_vaddr (space_map v f fl sp) = next_vaddr sp"
  by (simp add: space_map_def)

lemma page_of_unmap_all:
  "page_of (fold (\<lambda>m sp. snd (space_unmap (m_vaddr m) sp)) ms sp)
     = (\<lambda>v. if v \<in> m_vaddr ` set ms then None else page_of sp v)"
  by (induction ms arbitrary: sp) (auto simp: fun_eq_iff)

lemma space_inv_new: "space_inv new_space"
  by (simp add: space_inv_def new_space_def)

lemma space_inv_map: "space_inv sp \<Longrightarrow> space_inv (space_map v f fl sp)"
proof -
  assume sp: "space_inv sp"
  have "set (AList.update v m al) \<subseteq> insert (v, m) (set al)" for m :: Mapping and al
    by (induction al) auto
  then show "space_inv (space_map v f fl sp)"
    using sp unfolding space_inv_def space_map_def Let_def
    by (fastforce intro: distinct_update)
qed

lemma space_inv_unmap: "space_inv sp \<Longrightarrow> space_inv (snd (space_unmap v sp))"
  unfolding space_inv_def space_unmap_def
  by (auto simp: distinct_map_filter AList.delete_eq split: option.splits)

definition region_mappings :: "int \<Rightarrow> int \<Rightarrow> PageFlags \<Rightarrow> PageFrame list \<Rightarrow> Mapping list" where
  "region_mappings vaddr i flags frames =
     map (\<lambda>(k, f). \<lparr>m_vaddr = vaddr + (i + int k) * PAGE_SIZE, m_frame = f, m_flags = flags\<rparr>)
       (enumerate 0 frames)"

lemma region_mappings_Nil [simp]: "region_mappings vaddr i flags [] = []"
  by (simp add: region_mappings_def)

lemma region_mappings_Cons [simp]:
  "region_mappings vaddr i flags (f # fs) =
     \<lparr>m_vaddr = vaddr + i * PAGE_SIZE, m_frame = f, m_flags = flags\<rparr>
       # region_mappings vaddr (i + 1) flags fs"
  by (auto simp: region_mappings_def enumerate_eq_zip zip_map1 map_Suc_upt [symmetric]
      upt_rec [of 0 "Suc (length fs)"] simp del: upt_Suc)

lemma region_mappings_vaddrs:
  "m_vaddr ` set (region_mappings vaddr i flags fs) = {vaddr + (i + int k) * PAGE_SIZE | k. k < length fs}"
  by (force simp: region_mappings_def in_set_enumerate_eq image_iff)

lemma region_mappings_frames [simp]: "map m_frame (region_mappings vaddr i flags fs) = fs"
  by (induction fs arbitrary: i) auto

lemma length_region_mappings [simp]: "length (region_mappings vaddr i flags fs) = length fs"
  by (simp add: region_mappings_def)

lemma region_map_result:
  "\<exists>sp'. region_map vaddr i flags fs acc sp = (Inr (acc @ region_mappings vaddr i flags fs), sp')
     \<and> page_of sp' = page_of sp ++ map_of (map (\<lambda>m. (m_vaddr m, m)) (region_mappings vaddr i flags fs))
     \<and> next_vaddr sp' = next_vaddr sp \<and> (space_inv sp \<longrightarrow> space_inv sp')"
proof (induction fs arbitrary: i acc sp)
  case Nil
  then show ?case by simp
next
  case (Cons f fs)
  let ?v = "vaddr + i * PAGE_SIZE"
  let ?m = "\<lparr>m_vaddr = ?v, m_frame = f, m_flags = flags\<rparr>"
  let ?sp1 = "space_map ?v f flags sp"
  let ?rest = "region_mappings vaddr (i + 1) flags fs"
  have get: "space_getitem ?v ?sp1 = Inr ?m" by (simp add: space_getitem_def)
  have "?v \<notin> dom (map_of (map (\<lambda>m. (m_vaddr m, m)) ?rest))"
    unfolding dom_map_of_conv_image_fst set_map image_image fst_conv region_mappings_vaddrs
    by (auto simp: PAGE_SIZE_def)
  then have eq: "page_of ?sp1 ++ map_of (map (\<lambda>m. (m_vaddr m, m)) ?rest)
      = page_of sp ++ map_of (map (\<lambda>m. (m_vaddr m, m)) (?m # ?rest))"
    by (simp add: map_add_upd_left)
  obtain sp' where r: "region_map vaddr (i + 1) flags fs (acc @ [?m]) ?sp1
      = (Inr ((acc @ [?m]) @ ?rest), sp')"
    and pg: "page_of sp' = page_of ?sp1 ++ map_of (map (\<lambda>m. (m_vaddr m, m)) ?rest)"
    and nv: "next_vaddr sp' = next_vaddr ?sp1" and si: "space_inv ?sp1 \<longrightarrow> space_inv sp'"
    using Cons.IH by blast
  have "region_map vaddr i flags (f # fs) acc sp = (Inr (acc @ region_mappings vaddr i flags (f # fs)), sp')"
    using r get by (simp add: Let_def)
  moreover have "page_of sp' = page_of sp
      ++ map_of (map (\<lambda>m. (m_vaddr m, m)) (region_mappings vaddr i flags (f # fs)))"
    using pg eq by (simp only: region_mappings_Cons)
  ultimately show ?case
    using nv si space_inv_map [of sp ?v f flags] by (simp del: region_mappings_Cons)
qed

lemma distinct_region_mappings: "distinct (map m_vaddr (region_mappings vaddr i flags fs))"
proof (induction fs arbitrary: i)
  case (Cons f fs)
  have "vaddr + i * PAGE_SIZE \<notin> m_vaddr ` set (region_mappings vaddr (i + 1) flags fs)"
    by (auto simp: region_mappings_vaddrs PAGE_SIZE_def)
  with Cons show ?case by simp
qed simp

lemma nth_region_mappings:
  "k < length fs \<Longrightarrow> region_mappings vaddr i flags fs ! k
     = \<lparr>m_vaddr = vaddr + (i + int k) * PAGE_SIZE, m_frame = fs ! k, m_flags = flags\<rparr>"
  by (simp add: region_mappings_def nth_enumerate_eq)

lemma region_lookup:
  assumes "k < length fs"
  shows "map_of (map (\<lambda>m. (m_vaddr m, m)) (region_mappings vaddr 0 flags fs)) (vaddr + int k * PAGE_SIZE)
    = Some \<lparr>m_vaddr = vaddr + int k * PAGE_SIZE, m_frame = fs ! k, m_flags = flags\<rparr>"
proof (rule map_of_is_SomeI)
  show "distinct (map fst (map (\<lambda>m. (m_vaddr m, m)) (region_mappings vaddr 0 flags fs)))"
    using distinct_region_mappings by (simp add: comp_def)
  show "(vaddr + int k * PAGE_SIZE, \<lparr>m_vaddr = vaddr + int k * PAGE_SIZE, m_frame = fs ! k, m_flags = flags\<rparr>)
      \<in> set (map (\<lambda>m. (m_vaddr m, m)) (region_mappings vaddr 0 flags fs))"
    using assms nth_region_mappings [OF assms, of vaddr 0 flags]
      nth_mem [of k "region_mappings vaddr 0 flags fs"]
    by (simp add: image_iff rev_bexI)
qed

lemma region_enter_run:
  assumes "pmm_inv pm" "n = (sz + PAGE_SIZE - 1) div PAGE_SIZE" "n \<le> free_pages pm"
  shows "\<exists>fs sp' pm'. region_enter sz fl (sp, pm)
      = (Inr (\<lparr>r_vaddr = next_vaddr sp, r_size = sz, r_flags = fl,
               r_mappings = region_mappings (next_vaddr sp) 0 fl fs\<rparr>, fs), (sp', pm'))
    \<and> page_of sp' = page_of sp ++ map_of (map (\<lambda>m. (m_vaddr m, m)) (region_mappings (next_vaddr sp) 0 fl fs))
    \<and> next_vaddr sp' = next_vaddr sp + n * PAGE_SIZE \<and> (space_inv sp \<longrightarrow> space_inv sp')
    \<and> pmm_inv pm' \<and> length fs = nat n \<and> free_frames pm = mset fs + free_frames pm'
    \<and> (\<forall>f \<in> set fs. valid_frame f)"
proof -
  obtain fs pm' where fs: "pmm_alloc_n n pm = (Inr fs, pm')" "pmm_inv pm'" "length fs = nat n"
    "free_frames pm = mset fs + free_frames pm'" "\<forall>f \<in> set fs. valid_frame f"
    using pmm_alloc_n_ok [OF assms(1,3)] by blast
  let ?sp1 = "sp\<lparr>next_vaddr := next_vaddr sp + n * PAGE_SIZE\<rparr>"
  have inv1: "space_inv ?sp1 = space_inv sp" by (simp add: space_inv_def)
  obtain sp' where "region_map (next_vaddr sp) 0 fl fs [] ?sp1
      = (Inr (region_mappings (next_vaddr sp) 0 fl fs), sp')"
    "page_of sp' = page_of sp ++ map_of (map (\<lambda>m. (m_vaddr m, m)) (region_mappings (next_vaddr sp) 0 fl fs))"
    "next_vaddr sp' = next_vaddr sp + n * PAGE_SIZE" "space_inv sp \<longrightarrow> space_inv sp'"
    using region_map_result [of "next_vaddr sp" 0 fl fs "[]" ?sp1] inv1 by auto
  then show ?thesis
    using fs assms(2) by (auto simp: region_enter_def alloc_vrange_def Let_def)
qed

text \<open>
  C10. Entering a \<open>region\<close> of a fresh virtual range maps exactly the pages that cover the
  requested size, page by page onto the frames it took from the allocator, and nothing else;
  leaving it restores the page table and gives every frame back.
\<close>

theorem region_enter_exit:
  assumes "pmm_inv pm" and "0 \<le> sz" and "n = (sz + PAGE_SIZE - 1) div PAGE_SIZE"
    and "n \<le> free_pages pm"
    and "\<forall>k. 0 \<le> k \<and> k < n \<longrightarrow> page_of sp (next_vaddr sp + k * PAGE_SIZE) = None"
  shows "\<exists>r fs sp' pm'. region_enter sz fl (sp, pm) = (Inr (r, fs), (sp', pm'))
    \<and> sz \<le> int (length fs) * PAGE_SIZE \<and> int (length fs) * PAGE_SIZE < sz + PAGE_SIZE
    \<and> (\<forall>k < length fs. page_of sp' (next_vaddr sp + int k * PAGE_SIZE)
         = Some \<lparr>m_vaddr = next_vaddr sp + int k * PAGE_SIZE, m_frame = fs ! k, m_flags = fl\<rparr>)
    \<and> (\<forall>v. v \<notin> {next_vaddr sp + int k * PAGE_SIZE | k. k < length fs} \<longrightarrow> page_of sp' v = page_of sp v)
    \<and> free_frames pm = mset fs + free_frames pm'
    \<and> (let (sp2, pm2) = region_exit r fs (sp', pm')
       in page_of sp2 = page_of sp \<and> free_frames pm2 = free_frames pm \<and> pmm_inv pm2)"
proof -
  let ?base = "next_vaddr sp"
  obtain fs sp' pm' where run: "region_enter sz fl (sp, pm)
      = (Inr (\<lparr>r_vaddr = ?base, r_size = sz, r_flags = fl, r_mappings = region_mappings ?base 0 fl fs\<rparr>, fs),
         (sp', pm'))"
    and pg: "page_of sp' = page_of sp ++ map_of (map (\<lambda>m. (m_vaddr m, m)) (region_mappings ?base 0 fl fs))"
    and fs: "pmm_inv pm'" "length fs = nat n" "free_frames pm = mset fs + free_frames pm'"
      "\<forall>f \<in> set fs. valid_frame f"
    using region_enter_run [OF assms(1,3,4)] by blast
  have n: "0 \<le> n" "sz \<le> n * PAGE_SIZE" "n * PAGE_SIZE < sz + PAGE_SIZE"
    using assms(2,3) by (auto simp: PAGE_SIZE_def)
  let ?D = "{?base + int k * PAGE_SIZE | k. k < length fs}"
  have dom: "fst ` set (map (\<lambda>m. (m_vaddr m, m)) (region_mappings ?base 0 fl fs)) = ?D"
    using region_mappings_vaddrs [of ?base 0 fl fs] by (simp add: image_image)
  have same: "page_of sp' v = page_of sp v" if "v \<notin> ?D" for v
    using that dom unfolding pg dom_map_of_conv_image_fst [symmetric]
    by (simp add: map_add_dom_app_simps(3))
  have hit: "page_of sp' (?base + int k * PAGE_SIZE)
      = Some \<lparr>m_vaddr = ?base + int k * PAGE_SIZE, m_frame = fs ! k, m_flags = fl\<rparr>" if "k < length fs" for k
    using region_lookup [OF that] by (simp add: pg map_add_def)
  have clear: "page_of sp v = None" if "v \<in> ?D" for v
    using that assms(5) fs(2) n(1) by auto
  have "page_of (fst (region_exit \<lparr>r_vaddr = ?base, r_size = sz, r_flags = fl,
      r_mappings = region_mappings ?base 0 fl fs\<rparr> fs (sp', pm'))) = page_of sp"
    using same clear region_mappings_vaddrs [of ?base 0 fl fs]
    by (auto simp: region_exit_def page_of_unmap_all fun_eq_iff)
  then show ?thesis
    using run n fs same hit pmm_free_many_frames [OF fs(1,4)]
    by (auto simp: region_exit_def)
qed

theorem region_enter_exit_witness:
  "\<exists>r fs sp' pm'. region_enter 5000 RW (new_space, pmm_init [(0x100000, 0x3000)]) = (Inr (r, fs), (sp', pm'))
     \<and> length fs = 2 \<and> page_of sp' 0x100000001000
         = Some \<lparr>m_vaddr = 0x100000001000, m_frame = fs ! 1, m_flags = RW\<rparr>"
proof -
  have n: "(2::int) = (5000 + PAGE_SIZE - 1) div PAGE_SIZE" by (simp add: PAGE_SIZE_def)
  have f: "2 \<le> free_pages (pmm_init [(0x100000, 0x3000)])" by code_simp
  have e: "\<forall>k. 0 \<le> k \<and> k < 2 \<longrightarrow> page_of new_space (next_vaddr new_space + k * PAGE_SIZE) = None"
    by (simp add: new_space_def)
  from region_enter_exit [OF pmm_init_inv _ n f e, of RW] obtain r fs sp' pm' where
    *: "region_enter 5000 RW (new_space, pmm_init [(0x100000, 0x3000)]) = (Inr (r, fs), (sp', pm'))"
       "5000 \<le> int (length fs) * PAGE_SIZE" "int (length fs) * PAGE_SIZE < 5000 + PAGE_SIZE"
       "\<forall>k < length fs. page_of sp' (next_vaddr new_space + int k * PAGE_SIZE)
          = Some \<lparr>m_vaddr = next_vaddr new_space + int k * PAGE_SIZE, m_frame = fs ! k, m_flags = RW\<rparr>"
    by auto
  then have "length fs = 2" by (simp add: PAGE_SIZE_def)
  with * show ?thesis by (auto simp: new_space_def PAGE_SIZE_def dest: spec [of _ 1])
qed

lemma destroy_fold:
  "fold (\<lambda>m (sp, pm). (snd (space_unmap (m_vaddr m) sp), pmm_free (m_frame m) pm)) ms (sp, pm)
     = (fold (\<lambda>m sp. snd (space_unmap (m_vaddr m) sp)) ms sp, pmm_free_many (map m_frame ms) pm)"
  by (induction ms arbitrary: sp pm) (auto simp: pmm_free_many_def)

text \<open>
  C11. Destroying the space of a process gives back every frame still mapped in it, once per
  mapping, removes only that space and keeps the allocator's invariant; for a process without a
  space it does nothing.
\<close>

theorem destroy_space_frees:
  assumes "pmm_inv (vm_pmm v)"
    and "\<forall>space m. map_of (vm_spaces v) pid = Some space \<and> m \<in> snd ` set (mappings space) \<longrightarrow> valid_frame (m_frame m)"
  shows "pmm_inv (vm_pmm (destroy_space pid v))
    \<and> map_of (vm_spaces (destroy_space pid v)) = (map_of (vm_spaces v))(pid := None)
    \<and> free_frames (vm_pmm (destroy_space pid v)) = free_frames (vm_pmm v)
        + (case map_of (vm_spaces v) pid of None \<Rightarrow> {#}
           | Some space \<Rightarrow> image_mset (m_frame \<circ> snd) (mset (mappings space)))"
proof (cases "map_of (vm_spaces v) pid")
  case None
  then show ?thesis using assms by (auto simp: destroy_space_def fun_eq_iff)
next
  case (Some space)
  let ?fs = "map m_frame (map snd (mappings space))"
  have d: "destroy_space pid v = v\<lparr>vm_spaces := AList.delete pid (vm_spaces v),
      vm_pmm := pmm_free_many ?fs (vm_pmm v)\<rparr>"
    using Some by (simp add: destroy_space_def destroy_fold Let_def)
  have "\<forall>f \<in> set ?fs. valid_frame f" using assms(2) Some by auto
  note free = pmm_free_many_frames [OF assms(1) this]
  show ?thesis using free Some by (simp add: d delete_conv' comp_def ac_simps)
qed

theorem destroy_space_frees_witness:
  "free_frames (vm_pmm (destroy_space 7 \<lparr>vm_pmm = \<lparr>ranges = [], free_pages = 0\<rparr>,
       vm_spaces = [(7, space_map 0 \<lparr>phys = 0x100000\<rparr> RW new_space)]\<rparr>)) = {#\<lparr>phys = 0x100000\<rparr>#}"
proof -
  let ?v = "\<lparr>vm_pmm = \<lparr>ranges = [], free_pages = 0\<rparr>,
       vm_spaces = [(7::int, space_map 0 \<lparr>phys = 0x100000\<rparr> RW new_space)]\<rparr>"
  have i: "pmm_inv (vm_pmm ?v)" and e: "free_frames (vm_pmm ?v) = {#}"
    by (simp_all add: pmm_inv_def free_frames_def)
  have f: "\<forall>space m. map_of (vm_spaces ?v) 7 = Some space \<and> m \<in> snd ` set (mappings space)
      \<longrightarrow> valid_frame (m_frame m)"
    by (simp add: space_map_def new_space_def valid_frame_def PAGE_SIZE_def RESERVED_MB_def)
  from destroy_space_frees [OF i f] e show ?thesis by (simp add: space_map_def new_space_def)
qed

lemma free_frames_free_many: "free_frames (pmm_free_many fs p) = mset fs + free_frames p"
  by (induction fs arbitrary: p) (simp_all add: pmm_free_many_def free_frames_free)

text \<open>
  C12. A double free: when the space of a process is destroyed while one of its regions is still open, leaving the
  region gives its frames back a second time. Every frame of the region is then at least twice among the free
  frames, so the allocator hands it out twice.
\<close>

theorem destroy_in_region_frees_twice:
  assumes "pmm_inv (vm_pmm v)" and "n = (sz + PAGE_SIZE - 1) div PAGE_SIZE" and "n \<le> free_pages (vm_pmm v)"
  shows "\<exists>r fs sp' pm'. region_enter sz fl (sp, vm_pmm v) = (Inr (r, fs), (sp', pm')) \<and> length fs = nat n
    \<and> (\<forall>f \<in> set fs. 2 \<le> count (free_frames (snd (region_exit r fs (sp'',
         vm_pmm (destroy_space pid (v\<lparr>vm_pmm := pm', vm_spaces := AList.update pid sp' (vm_spaces v)\<rparr>)))))) f)"
proof -
  obtain fs sp' pm' where run: "region_enter sz fl (sp, vm_pmm v)
      = (Inr (\<lparr>r_vaddr = next_vaddr sp, r_size = sz, r_flags = fl, r_mappings = region_mappings (next_vaddr sp) 0 fl fs\<rparr>, fs), (sp', pm'))"
    and pg: "page_of sp' = page_of sp ++ map_of (map (\<lambda>m. (m_vaddr m, m)) (region_mappings (next_vaddr sp) 0 fl fs))"
    and n: "length fs = nat n"
    using region_enter_run [OF assms] by blast
  have "f \<in> set (map m_frame (map snd (mappings sp')))" if "f \<in> set fs" for f
  proof -
    from that obtain k where k: "k < length fs" "f = fs ! k" by (auto simp: in_set_conv_nth)
    then have "page_of sp' (next_vaddr sp + int k * PAGE_SIZE)
        = Some \<lparr>m_vaddr = next_vaddr sp + int k * PAGE_SIZE, m_frame = f, m_flags = fl\<rparr>"
      using region_lookup [OF k(1)] by (simp add: pg map_add_def)
    then show ?thesis by (force dest: map_of_SomeD)
  qed
  then have one: "0 < count (mset fs) f \<and> 0 < count (mset (map m_frame (map snd (mappings sp')))) f" if "f \<in> set fs" for f
    using that by (simp only: count_greater_zero_iff set_mset_mset)
  have two: "2 \<le> count (mset fs + (mset (map m_frame (map snd (mappings sp'))) + free_frames pm')) f" if "f \<in> set fs" for f
    using one [OF that] unfolding count_union by linarith
  let ?v = "v\<lparr>vm_pmm := pm', vm_spaces := AList.update pid sp' (vm_spaces v)\<rparr>"
  have "vm_pmm (destroy_space pid ?v) = pmm_free_many (map m_frame (map snd (mappings sp'))) pm'"
    by (simp add: destroy_space_def destroy_fold Let_def update_conv')
  then have "free_frames (snd (region_exit r fs (sp'', vm_pmm (destroy_space pid ?v))))
      = mset fs + (mset (map m_frame (map snd (mappings sp'))) + free_frames pm')" for r
    by (simp add: region_exit_def free_frames_free_many)
  then show ?thesis using run n two by (intro exI conjI ballI) (assumption | simp only:)+
qed

theorem destroy_in_region_frees_twice_witness:
  "\<exists>r fs sp' pm'. region_enter 1 RW (new_space, pmm_init [(0x100000, 0x1000)]) = (Inr (r, fs), (sp', pm')) \<and> fs \<noteq> []
    \<and> 2 \<le> count (free_frames (snd (region_exit r fs (new_space,
         vm_pmm (destroy_space 7 \<lparr>vm_pmm = pm', vm_spaces = [(7, sp')]\<rparr>))))) (hd fs)"
proof -
  let ?v = "\<lparr>vm_pmm = pmm_init [(0x100000, 0x1000)], vm_spaces = []\<rparr>"
  have n: "(1::int) = (1 + PAGE_SIZE - 1) div PAGE_SIZE" by (simp add: PAGE_SIZE_def)
  have f: "1 \<le> free_pages (vm_pmm ?v)" by code_simp
  have i: "pmm_inv (vm_pmm ?v)" using pmm_init_inv by simp
  from destroy_in_region_frees_twice [OF i n f, of RW new_space new_space 7] obtain r fs sp' pm' where
    e: "region_enter 1 RW (new_space, pmm_init [(0x100000, 0x1000)]) = (Inr (r, fs), (sp', pm'))" "length fs = 1"
    and t: "\<forall>f \<in> set fs. 2 \<le> count (free_frames (snd (region_exit r fs (new_space,
         vm_pmm (destroy_space 7 (\<lparr>vm_pmm = pm', vm_spaces = [(7, sp')]\<rparr>)))))) f" by auto
  from e(2) have "fs \<noteq> []" by auto
  moreover from this have "hd fs \<in> set fs" by simp
  ultimately show ?thesis using e(1) t by blast
qed

end
