(* ===== verification/Kernel.thy ===== *)
theory Kernel
  imports AsyncLoop PyString Vmm
begin

section \<open>Processes, interrupts and the session clock\<close>

text \<open>
  Models \<^verbatim>\<open>kernel/scheduler.py\<close>, \<^verbatim>\<open>kernel/interrupts/router.py\<close>,
  \<^verbatim>\<open>kernel/interrupts/handlers.py\<close> and \<^verbatim>\<open>kernel/timekeeper.py\<close> on top of the event loop. A
  process is a task of the loop, named by its position; the \<open>_finish\<close> callbacks that the
  scheduler registers are kept in \<open>k_callbacks\<close> until the loop calls them. Reachable
  states are those of \<open>kernel_step\<close>.
\<close>

unbundle bit_operations_syntax

subsection \<open>State\<close>

datatype ProcessState = RUNNING | SLEEPING | ZOMBIE

record Process =
  pid :: int
  pname :: string
  ptask :: nat
  pstate :: ProcessState
  pticks :: int

record InterruptContext =
  c_vector :: int
  c_error_code :: int
  c_rip :: int
  c_cs :: int
  c_rflags :: int
  c_rsp :: int

text \<open>The handlers of \<open>handlers.py\<close>, and those that drivers register.\<close>

datatype irq_handler = PageFault | GPF | DoubleFault | InvalidOpcode | DivideError | Timer | Driver nat

record kernel =
  k_world :: world
  k_processes :: "(int \<times> Process) list"
  k_next_pid :: int
  k_ticks :: int
  k_callbacks :: "(nat \<times> int \<times> bool) list"
  k_log :: "(int \<times> py_error) list"
  k_table :: "(int \<times> irq_handler) list"
  k_loop_set :: bool
  k_base_clock :: "int option"
  k_base_uptime :: int

definition kernel_boot :: "(nat \<Rightarrow> int) \<Rightarrow> kernel" where
  "kernel_boot clock = \<lparr>k_world = new_loop clock, k_processes = [], k_next_pid = 1, k_ticks = 0, k_callbacks = [], k_log = [],
     k_table = [], k_loop_set = False, k_base_clock = None, k_base_uptime = 0\<rparr>"

definition on_loop :: "'a aio \<Rightarrow> (kernel, 'a) io" where
  "on_loop m = (\<lambda>k. let (r, w) = m (k_world k) in (r, k\<lparr>k_world := w\<rparr>))"

subsection \<open>The scheduler\<close>

definition new_process :: "int \<Rightarrow> string \<Rightarrow> nat \<Rightarrow> Process" where
  "new_process i name t = \<lparr>pid = i, pname = name, ptask = t, pstate = RUNNING, pticks = 0\<rparr>"

definition spawn :: "coro \<Rightarrow> string option \<Rightarrow> bool \<Rightarrow> (kernel, int) io" where
  "spawn c name auto_reap = bind (gets k_next_pid) (\<lambda>i.
     bind (modify (\<lambda>k. k\<lparr>k_next_pid := k_next_pid k + 1\<rparr>)) (\<lambda>_.
     let name = (if name = None \<or> name = Some [] then ''proc-'' @ dec_str (nat i) else the name) in
     bind (on_loop (create_task c)) (\<lambda>t.
     bind (modify (\<lambda>k. k\<lparr>k_callbacks := k_callbacks k @ [(t, i, auto_reap)]\<rparr>)) (\<lambda>_.
     bind (modify (\<lambda>k. k\<lparr>k_processes := AList.update i (new_process i name t) (k_processes k)\<rparr>)) (\<lambda>_.
     ret i)))))"

definition kill :: "int \<Rightarrow> (kernel, unit) io" where
  "kill i = bind (gets (\<lambda>k. map_of (k_processes k) i)) (\<lambda>p. case p of
       None \<Rightarrow> ret ()
     | Some p \<Rightarrow> bind (on_loop (future_done (ptask p))) (\<lambda>d.
         if \<not> d then bind (on_loop (cancel (ptask p))) (\<lambda>_. ret ()) else ret ()))"

definition ps :: "(kernel, Process list) io" where
  "ps = gets (\<lambda>k. map snd (k_processes k))"

definition reap :: "int \<Rightarrow> (kernel, Process option) io" where
  "reap i = bind (gets (\<lambda>k. map_of (k_processes k) i)) (\<lambda>p. case p of
       None \<Rightarrow> ret None
     | Some p \<Rightarrow> bind (on_loop (future_done (ptask p))) (\<lambda>d.
         if \<not> d then ret None
         else bind (modify (\<lambda>k. k\<lparr>k_processes := AList.delete i (k_processes k)\<rparr>)) (\<lambda>_. ret (Some p))))"

fun credit :: "world \<Rightarrow> (int \<times> Process) list \<Rightarrow> (int \<times> Process) list" where
  "credit w [] = []"
| "credit w ((i, p) # xs) =
     (if pstate p = RUNNING \<and> f_state (fut_at w (ptask p)) = PENDING then (i, p\<lparr>pticks := pticks p + 1\<rparr>) # xs
      else (i, p) # credit w xs)"

definition tick :: "(kernel, unit) io" where
  "tick = modify (\<lambda>k. k\<lparr>k_ticks := k_ticks k + 1, k_processes := credit (k_world k) (k_processes k)\<rparr>)"

definition TICK_HZ :: int where "TICK_HZ = 100"

definition uptime_ms :: "kernel \<Rightarrow> int" where
  "uptime_ms k = (k_ticks k * 1000) div TICK_HZ"

definition set_zombie :: "int \<Rightarrow> Process \<Rightarrow> (kernel, unit) io" where
  "set_zombie i p = modify (\<lambda>k. k\<lparr>k_processes := AList.update i (p\<lparr>pstate := ZOMBIE\<rparr>) (k_processes k)\<rparr>)"

definition finish :: "int \<Rightarrow> nat \<Rightarrow> bool \<Rightarrow> (kernel, unit) io" where
  "finish i t auto_reap = bind (gets (\<lambda>k. map_of (k_processes k) i)) (\<lambda>p. case p of
       None \<Rightarrow> ret ()
     | Some p \<Rightarrow> bind (set_zombie i p) (\<lambda>_.
         bind (on_loop (future_cancelled t)) (\<lambda>c.
         bind (if c then ret None else on_loop (future_exception t)) (\<lambda>error.
         bind (case error of Some x \<Rightarrow> modify (\<lambda>k. k\<lparr>k_log := k_log k @ [(i, x)]\<rparr>) | None \<Rightarrow> ret ()) (\<lambda>_.
         if auto_reap then modify (\<lambda>k. k\<lparr>k_processes := AList.delete i (k_processes k)\<rparr>) else ret ())))))"

subsection \<open>Interrupts\<close>

definition set_event_loop :: "(kernel, unit) io" where
  "set_event_loop = modify (\<lambda>k. k\<lparr>k_loop_set := True\<rparr>)"

definition register :: "int \<Rightarrow> irq_handler \<Rightarrow> (kernel, unit) io" where
  "register vector fn = modify (\<lambda>k. k\<lparr>k_table := AList.update vector fn (k_table k)\<rparr>)"

definition unhandled :: "InterruptContext \<Rightarrow> (kernel, coro option) io" where
  "unhandled ctx = (if c_vector ctx < 0x20 then raise RuntimeError else ret None)"

text \<open>
  The page-fault coroutine: it never suspends, and ends by what \<open>vmm.handle_fault\<close>
  answers for the address in \<open>CR2\<close>.
\<close>

definition page_fault :: "int \<Rightarrow> VirtualMemoryManager \<Rightarrow> InterruptContext \<Rightarrow> coro" where
  "page_fault cr2 vm ctx = (let present = c_error_code ctx AND 1 \<noteq> 0;
       write = c_error_code ctx AND 2 \<noteq> 0;
       user_mode = c_error_code ctx AND 4 \<noteq> 0;
       handled = handle_fault cr2 write user_mode present vm
     in if \<not> handled then Raise RuntimeError else Return VNone)"

text \<open>
  What a handler does: it gives a coroutine to run, or nothing. \<open>drivers\<close> are the handlers of
  the drivers. A double fault ends in the endless loop of \<open>log.panic\<close>: the machine has
  halted, which \<open>OtherError 8\<close> stands for.
\<close>

definition run_handler ::
  "int \<Rightarrow> VirtualMemoryManager \<Rightarrow> (nat \<Rightarrow> InterruptContext \<Rightarrow> (kernel, coro option) io) \<Rightarrow> irq_handler \<Rightarrow> InterruptContext \<Rightarrow>
     (kernel, coro option) io" where
  "run_handler cr2 vm drivers h ctx = (case h of
       PageFault \<Rightarrow> ret (Some (page_fault cr2 vm ctx))
     | GPF \<Rightarrow> raise RuntimeError
     | DoubleFault \<Rightarrow> raise (OtherError 8)
     | InvalidOpcode \<Rightarrow> raise RuntimeError
     | DivideError \<Rightarrow> raise ZeroDivisionError
     | Timer \<Rightarrow> bind tick (\<lambda>_. ret None)
     | Driver n \<Rightarrow> drivers n ctx)"

text \<open>The vectors that \<open>handlers.py\<close> registers when it is imported.\<close>

definition import_handlers :: "(kernel, unit) io" where
  "import_handlers = for_each
     [(0x0E, PageFault), (0x0D, GPF), (0x08, DoubleFault), (0x06, InvalidOpcode), (0x00, DivideError), (0x20, Timer)]
     (\<lambda>(vector, fn). register vector fn)"

definition dispatch ::
  "int \<Rightarrow> VirtualMemoryManager \<Rightarrow> (nat \<Rightarrow> InterruptContext \<Rightarrow> (kernel, coro option) io) \<Rightarrow> InterruptContext \<Rightarrow> (kernel, unit) io" where
  "dispatch cr2 vm drivers ctx = bind (gets (\<lambda>k. map_of (k_table k) (c_vector ctx))) (\<lambda>h.
     bind (case h of Some h \<Rightarrow> run_handler cr2 vm drivers h ctx | None \<Rightarrow> unhandled ctx) (\<lambda>result. case result of
       None \<Rightarrow> ret ()
     | Some c \<Rightarrow> bind (gets (\<lambda>k. k_loop_set k \<and> w_running (k_world k))) (\<lambda>r.
         if r then bind (on_loop (create_task c)) (\<lambda>_. ret ()) else ret ())))"

subsection \<open>The session clock\<close>

definition uptime_seconds :: "kernel \<Rightarrow> int" where
  "uptime_seconds k = max 0 (uptime_ms k div 1000)"

definition clock_is_set :: "kernel \<Rightarrow> bool" where
  "clock_is_set k \<longleftrightarrow> k_base_clock k \<noteq> None"

definition set_hms :: "int \<Rightarrow> int \<Rightarrow> int \<Rightarrow> (kernel, unit) io" where
  "set_hms hour minute second =
     (if \<not> (0 \<le> hour \<and> hour \<le> 23) then raise ValueError
      else if \<not> (0 \<le> minute \<and> minute \<le> 59) then raise ValueError
      else if \<not> (0 \<le> second \<and> second \<le> 59) then raise ValueError
      else modify (\<lambda>k. k\<lparr>k_base_clock := Some (hour * 3600 + minute * 60 + second), k_base_uptime := uptime_seconds k\<rparr>))"

definition clock_clear :: "(kernel, unit) io" where
  "clock_clear = modify (\<lambda>k. k\<lparr>k_base_clock := None, k_base_uptime := 0\<rparr>)"

definition seconds :: "kernel \<Rightarrow> int" where
  "seconds k = (case k_base_clock k of
       None \<Rightarrow> uptime_seconds k
     | Some b \<Rightarrow> (b + uptime_seconds k - k_base_uptime k) mod 86400)"

definition pad2 :: "int \<Rightarrow> string" where
  "pad2 n = (if n < 10 then ''0'' else []) @ dec_str (nat n)"

definition format_hms :: "kernel \<Rightarrow> string" where
  "format_hms k = (let v = seconds k; hour = v div 3600; minute = (v div 60) mod 60; second = v mod 60
     in pad2 hour @ '':'' @ pad2 minute @ '':'' @ pad2 second)"


subsection \<open>Reachable states\<close>

text \<open>
  The event loop takes its own steps; it calls a registered \<open>_finish\<close> once its task is
  done. A driver's handler may give a coroutine but does not touch the scheduler.
\<close>

inductive kernel_step :: "kernel \<Rightarrow> kernel \<Rightarrow> bool" where
  Spawn: "kernel_step k (snd (spawn c name auto_reap k))"
| Kill: "kernel_step k (snd (kill i k))"
| Reap: "kernel_step k (snd (reap i k))"
| Register: "kernel_step k (snd (register v h k))"
| Attach: "kernel_step k (snd (set_event_loop k))"
| Clock: "kernel_step k (snd (set_hms h m s k))"
| Clear: "kernel_step k (snd (clock_clear k))"
| Interrupt: "kernel_step k (snd (dispatch cr2 vm (\<lambda>n ctx. ret (drv n ctx)) ctx k))"
| Loop: "loop_step (k_world k) w \<Longrightarrow> kernel_step k (k\<lparr>k_world := w\<rparr>)"
| Finish: "k_callbacks k = xs @ (t, i, auto_reap) # ys \<Longrightarrow> f_state (fut_at (k_world k) t) \<noteq> PENDING \<Longrightarrow>
    kernel_step k (snd (finish i t auto_reap (k\<lparr>k_callbacks := xs @ ys\<rparr>)))"

definition kernel_reach :: "kernel \<Rightarrow> bool" where
  "kernel_reach k \<longleftrightarrow> (\<exists>clock. kernel_step\<^sup>*\<^sup>* (kernel_boot clock) k)"

abbreviation process :: "kernel \<Rightarrow> int \<Rightarrow> Process option" where
  "process k \<equiv> map_of (k_processes k)"

abbreviation task_done :: "kernel \<Rightarrow> nat \<Rightarrow> bool" where
  "task_done k t \<equiv> f_state (fut_at (k_world k) t) \<noteq> PENDING"

definition process_ok :: "kernel \<Rightarrow> int \<Rightarrow> Process \<Rightarrow> bool" where
  "process_ok k i p \<longleftrightarrow> pid p = i \<and> 1 \<le> i \<and> i < k_next_pid k \<and> ptask p < length (w_futs (k_world k)) \<and>
     (pstate p = RUNNING \<and> (\<exists>ar. (ptask p, i, ar) \<in> set (k_callbacks k)) \<or> pstate p = ZOMBIE \<and> task_done k (ptask p))"

definition callback_ok :: "kernel \<Rightarrow> nat \<times> int \<times> bool \<Rightarrow> bool" where
  "callback_ok k = (\<lambda>(t, i, ar). i < k_next_pid k \<and> t < length (w_futs (k_world k)) \<and> (\<forall>p. process k i = Some p \<longrightarrow> ptask p = t))"

definition kernel_ok :: "kernel \<Rightarrow> bool" where
  "kernel_ok k \<longleftrightarrow> balanced (k_world k) \<and> 1 \<le> k_next_pid k \<and> distinct (map fst (k_processes k)) \<and>
     (\<forall>i p. process k i = Some p \<longrightarrow> process_ok k i p) \<and> list_all (callback_ok k) (k_callbacks k)"

text \<open>What a step may do to the processes: one whose task still runs stays, under its pid and with its task.\<close>

definition keeps :: "kernel \<Rightarrow> kernel \<Rightarrow> bool" where
  "keeps k k' \<longleftrightarrow> (\<forall>i p. process k i = Some p \<longrightarrow> \<not> task_done k (ptask p) \<longrightarrow>
     (\<exists>p'. process k' i = Some p' \<and> pid p' = pid p \<and> pname p' = pname p \<and> ptask p' = ptask p \<and> pstate p' = pstate p)) \<and>
     k_next_pid k \<le> k_next_pid k' \<and> (\<forall>i. process k i = None \<longrightarrow> process k' i \<noteq> None \<longrightarrow> k_next_pid k \<le> i)"

lemma keeps_same: "k_processes k' = k_processes k \<Longrightarrow> k_next_pid k' = k_next_pid k \<Longrightarrow> keeps k k'"
  by (simp add: keeps_def)

lemma kernel_ok_world:
  assumes "kernel_ok k" "moved (\<lambda>_. 0) (k_world k) w"
  shows "kernel_ok (k\<lparr>k_world := w\<rparr>)"
proof -
  have e: "length (w_futs (k_world k)) \<le> length (w_futs w)" and s: "settled_kept (k_world k) w"
    using assms(2) by (auto simp: moved_def ext_def)
  have "process_ok (k\<lparr>k_world := w\<rparr>) i p" if "process_ok k i p" for i p
    using that e s by (auto simp: process_ok_def settled_kept_def)
  moreover have "callback_ok (k\<lparr>k_world := w\<rparr>) c" if "callback_ok k c" for c
    using that e by (auto simp: callback_ok_def split: prod.splits)
  ultimately show ?thesis using assms moved_balanced [OF assms(2)] by (auto simp: kernel_ok_def list_all_iff)
qed

lemma kernel_ok_other:
  assumes "kernel_ok k" "k_world k' = k_world k" "k_processes k' = k_processes k" "k_next_pid k' = k_next_pid k" "k_callbacks k' = k_callbacks k"
  shows "kernel_ok k'"
proof -
  have "process_ok k' = process_ok k" "callback_ok k' = callback_ok k"
    using assms(2-5) by (simp_all add: process_ok_def callback_ok_def fun_eq_iff)
  then show ?thesis using assms by (simp add: kernel_ok_def)
qed

lemma fst_create_task [simp]: "fst (create_task c w) = Inr (length (w_futs w))"
  by (simp add: create_task_def bind_def call_soon_def new_handle_def)

lemma length_create_task [simp]: "length (w_futs (snd (create_task c w))) = Suc (length (w_futs w))"
  by (simp add: create_task_def bind_def call_soon_def new_handle_def)

lemma create_task_moved: "kernel_ok k \<Longrightarrow> moved (\<lambda>_. 0) (k_world k) (snd (create_task c (k_world k)))"
  by (simp add: kernel_ok_def balanced_def rel_moved rel_create_task)

lemma on_loop_run: "on_loop m k = (fst (m (k_world k)), k\<lparr>k_world := snd (m (k_world k))\<rparr>)"
  by (simp add: on_loop_def split_beta)

lemma create_task_run: "create_task c w = (Inr (length (w_futs w)), snd (create_task c w))"
  by (simp add: prod_eq_iff)

lemma spawn_run:
  "\<exists>n. spawn c name ar k = (Inr (k_next_pid k), k\<lparr>k_next_pid := k_next_pid k + 1, k_world := snd (create_task c (k_world k)),
       k_callbacks := k_callbacks k @ [(length (w_futs (k_world k)), k_next_pid k, ar)],
       k_processes := AList.update (k_next_pid k) (new_process (k_next_pid k) n (length (w_futs (k_world k)))) (k_processes k)\<rparr>)"
  by (rule exI [of _ "if name = None \<or> name = Some [] then ''proc-'' @ dec_str (nat (k_next_pid k)) else the name"])
    (simp add: spawn_def bind_def on_loop_run Let_def)

lemma kernel_ok_next: "kernel_ok k \<Longrightarrow> process k (k_next_pid k) = None"
  unfolding kernel_ok_def process_ok_def by (metis less_irrefl option.exhaust)

lemma spawn_ok:
  assumes "kernel_ok k"
  shows "kernel_ok (snd (spawn c name ar k))" "keeps k (snd (spawn c name ar k))"
proof -
  let ?t = "length (w_futs (k_world k))" and ?i = "k_next_pid k"
  let ?w = "k\<lparr>k_world := snd (create_task c (k_world k))\<rparr>"
  obtain n where n: "snd (spawn c name ar k) = k\<lparr>k_next_pid := ?i + 1, k_world := snd (create_task c (k_world k)),
       k_callbacks := k_callbacks k @ [(?t, ?i, ar)], k_processes := AList.update ?i (new_process ?i n ?t) (k_processes k)\<rparr>" (is "_ = ?k")
    using spawn_run [of c name ar k] by auto
  have w: "kernel_ok ?w" by (rule kernel_ok_world [OF assms create_task_moved [OF assms]])
  have i: "1 \<le> ?i" using assms by (simp add: kernel_ok_def)
  have p: "process_ok ?k j p" if "process ?k j = Some p" for j p
  proof (cases "j = ?i")
    case True
    then show ?thesis using that i by (auto simp: process_ok_def update_conv' new_process_def)
  next
    case False
    then have "process_ok ?w j p" using that w by (simp add: update_conv' kernel_ok_def)
    then show ?thesis by (auto simp: process_ok_def)
  qed
  have "callback_ok ?k x" if "x \<in> set (k_callbacks k)" for x
    using that w by (auto simp: kernel_ok_def list_all_iff callback_ok_def update_conv' dest!: bspec)
  then have "list_all (callback_ok ?k) (k_callbacks ?k)"
    by (auto simp: list_all_iff callback_ok_def update_conv' new_process_def)
  then show "kernel_ok (snd (spawn c name ar k))"
    using w i p unfolding n by (auto simp: kernel_ok_def distinct_update)
  show "keeps k (snd (spawn c name ar k))"
    using kernel_ok_next [OF assms] unfolding n by (auto simp: keeps_def update_conv')
qed

lemma kill_ok:
  assumes "kernel_ok k"
  shows "kernel_ok (snd (kill i k))" "keeps k (snd (kill i k))"
proof -
  have "kernel_ok (k\<lparr>k_world := snd (cancel (ptask p) (k_world k))\<rparr>)" if "process k i = Some p" for p
    using assms that by (intro kernel_ok_world [OF assms] quiet_moved quiet_cancel)
      (auto simp: kernel_ok_def process_ok_def fut_ok_def balanced_def)
  then show "kernel_ok (snd (kill i k))"
    using assms by (auto simp: kill_def bind_def on_loop_run future_done_def split: option.split sum.split)
  show "keeps k (snd (kill i k))"
    by (rule keeps_same) (auto simp: kill_def bind_def on_loop_run future_done_def split: option.split sum.split)
qed

lemma kernel_ok_delete:
  assumes "kernel_ok k"
  shows "kernel_ok (k\<lparr>k_processes := AList.delete i (k_processes k)\<rparr>)"
  using assms by (auto simp: kernel_ok_def process_ok_def callback_ok_def list_all_iff delete_conv' distinct_delete split: if_splits dest!: bspec)

lemma reap_ok:
  assumes "kernel_ok k"
  shows "kernel_ok (snd (reap i k))" "keeps k (snd (reap i k))"
  using assms kernel_ok_delete [OF assms, of i]
  by (auto simp: reap_def bind_def on_loop_run future_done_def keeps_def delete_conv' split: option.split)

lemma credit_Some:
  "map_of xs i = Some p \<Longrightarrow> \<exists>n. map_of (credit w xs) i = Some (p\<lparr>pticks := n\<rparr>)"
proof (induction w xs rule: credit.induct)
  case (2 w j q xs)
  have "\<exists>n. p = p\<lparr>pticks := n\<rparr>" by (rule exI [of _ "pticks p"]) simp
  with 2 show ?case by (auto split: if_splits)
qed simp

lemma credit_None: "map_of (credit w xs) i = None \<longleftrightarrow> map_of xs i = None"
  by (induction w xs rule: credit.induct) auto

lemma map_fst_credit [simp]: "map fst (credit w xs) = map fst xs"
  by (induction w xs rule: credit.induct) auto

lemma tick_process: "process (snd (tick k)) i = map_of (credit (k_world k) (k_processes k)) i"
  by (simp add: tick_def)

lemma tick_ok:
  assumes "kernel_ok k"
  shows "kernel_ok (snd (tick k))" "keeps k (snd (tick k))"
proof -
  let ?k = "snd (tick k)"
  have s: "\<exists>n. process ?k j = Some (p\<lparr>pticks := n\<rparr>)" if "process k j = Some p" for j p
    unfolding tick_process by (rule credit_Some [OF that])
  have c: "\<exists>p0 n. process k j = Some p0 \<and> p = p0\<lparr>pticks := n\<rparr>" if "process ?k j = Some p" for j p
    using that s [of j] by (cases "process k j") (auto simp: tick_process credit_None [THEN iffD2])
  have "process_ok ?k j p" if "process ?k j = Some p" for j p
  proof -
    from c [OF that] obtain p0 n where p: "process k j = Some p0" "p = p0\<lparr>pticks := n\<rparr>" by blast
    then have "process_ok k j p0" using assms unfolding kernel_ok_def by blast
    then show ?thesis using p(2) by (simp add: process_ok_def tick_def)
  qed
  moreover have "callback_ok ?k x" if "callback_ok k x" for x
    using that c by (fastforce simp: callback_ok_def tick_def)
  ultimately show "kernel_ok ?k" using assms by (auto simp: kernel_ok_def list_all_iff tick_def)
  have "process ?k j = None" if "process k j = None" for j
    using that by (simp add: tick_process credit_None)
  then show "keeps k ?k" using s unfolding keeps_def by (fastforce simp: tick_def)
qed

text \<open>The callback of a finished task: the process becomes a zombie, and an auto-reaped one goes.\<close>

lemma finish_run:
  assumes "task_done k t"
  shows "\<exists>l. snd (finish i t ar k) = (case process k i of None \<Rightarrow> k
      | Some p \<Rightarrow> let k1 = k\<lparr>k_processes := AList.update i (p\<lparr>pstate := ZOMBIE\<rparr>) (k_processes k), k_log := l\<rparr>
          in if ar then k1\<lparr>k_processes := AList.delete i (k_processes k1)\<rparr> else k1)"
proof (cases "process k i")
  case (Some p)
  let ?e = "if f_state (fut_at (k_world k) t) = CANCELLED then None else f_exception (fut_at (k_world k) t)"
  have "f_state (fut_at (k_world k) t) = CANCELLED \<or> f_state (fut_at (k_world k) t) = FINISHED"
    using assms by (cases "f_state (fut_at (k_world k) t)") auto
  then show ?thesis
    by (intro exI [of _ "k_log k @ (case ?e of Some x \<Rightarrow> [(i, x)] | None \<Rightarrow> [])"])
      (auto simp: Some finish_def set_zombie_def bind_def on_loop_run future_cancelled_def future_exception_def Let_def split: option.split)
qed (simp add: finish_def bind_def)

lemma finish_ok:
  assumes "kernel_ok k" "k_callbacks k = xs @ (t, i, ar) # ys" "task_done k t"
  shows "kernel_ok (snd (finish i t ar (k\<lparr>k_callbacks := xs @ ys\<rparr>)))" "keeps k (snd (finish i t ar (k\<lparr>k_callbacks := xs @ ys\<rparr>)))"
proof -
  let ?k0 = "k\<lparr>k_callbacks := xs @ ys\<rparr>"
  have "task_done ?k0 t" using assms(3) by simp
  from finish_run [OF this] obtain l where l: "snd (finish i t ar ?k0) = (case process ?k0 i of None \<Rightarrow> ?k0
      | Some p \<Rightarrow> let k1 = ?k0\<lparr>k_processes := AList.update i (p\<lparr>pstate := ZOMBIE\<rparr>) (k_processes ?k0), k_log := l\<rparr>
          in if ar then k1\<lparr>k_processes := AList.delete i (k_processes k1)\<rparr> else k1)" by blast
  have t: "ptask p = t" if "process k i = Some p" for p
    using assms(1,2) that unfolding kernel_ok_def callback_ok_def by auto
  have o: "process_ok k j p" if "process k j = Some p" for j p using assms(1) that unfolding kernel_ok_def by blast
  have other: "process_ok ?k0 j p" if "process k j = Some p" "j \<noteq> i" for j p
    using o [OF that(1)] that(2) assms(2) by (auto simp: process_ok_def)
  have cb: "list_all (callback_ok k) (xs @ ys)" using assms(1,2) by (simp add: kernel_ok_def)
  show "kernel_ok (snd (finish i t ar ?k0))"
  proof (cases "process k i")
    case None
    then have "process_ok ?k0 j p" if "process k j = Some p" for j p using other [OF that] that by (cases "j = i") auto
    moreover have "callback_ok ?k0 = callback_ok k" by (simp add: callback_ok_def)
    ultimately show ?thesis using None assms(1) cb unfolding l by (simp add: kernel_ok_def)
  next
    case (Some q)
    let ?k1 = "?k0\<lparr>k_processes := AList.update i (q\<lparr>pstate := ZOMBIE\<rparr>) (k_processes k), k_log := l\<rparr>"
    have "process_ok ?k1 j p" if "process ?k1 j = Some p" for j p
    proof (cases "j = i")
      case True
      then show ?thesis using that o [OF Some] t [OF Some] assms(3) by (auto simp: update_conv' process_ok_def)
    next
      case False
      then have "process_ok ?k0 j p" using that other by (simp add: update_conv')
      then show ?thesis by (simp add: process_ok_def)
    qed
    moreover have "callback_ok ?k1 x" if "callback_ok k x" for x
      using that Some by (auto simp: callback_ok_def update_conv' split: prod.splits)
    ultimately have "kernel_ok ?k1" using assms(1) cb by (auto simp: kernel_ok_def list_all_iff distinct_update)
    from this kernel_ok_delete [OF this, of i] show ?thesis by (simp add: l Some Let_def)
  qed
  show "keeps k (snd (finish i t ar ?k0))"
    using t assms(3) unfolding l by (auto simp: keeps_def update_conv' delete_conv' Let_def split: option.split)
qed

lemma dispatch_ok:
  assumes "kernel_ok k"
  shows "kernel_ok (snd (dispatch cr2 vm (\<lambda>n ctx. ret (drv n ctx)) ctx k)) \<and> keeps k (snd (dispatch cr2 vm (\<lambda>n ctx. ret (drv n ctx)) ctx k))"
proof -
  let ?h = "case map_of (k_table k) (c_vector ctx) of Some h \<Rightarrow> run_handler cr2 vm (\<lambda>n ctx. ret (drv n ctx)) h ctx | None \<Rightarrow> unhandled ctx"
  obtain r k1 where r: "?h k = (r, k1)" by fastforce
  have "k1 = k \<or> k1 = snd (tick k)"
    using r by (auto simp: run_handler_def unhandled_def bind_def tick_def split: option.splits irq_handler.splits if_splits)
  then have k1: "kernel_ok k1" "keeps k k1" using assms tick_ok [OF assms] keeps_same by auto
  have "snd (dispatch cr2 vm (\<lambda>n ctx. ret (drv n ctx)) ctx k) = k1 \<or>
      (\<exists>c. snd (dispatch cr2 vm (\<lambda>n ctx. ret (drv n ctx)) ctx k) = k1\<lparr>k_world := snd (create_task c (k_world k1))\<rparr>)"
    using r by (cases r) (auto simp: dispatch_def bind_def on_loop_run split: option.splits)
  moreover have "kernel_ok (k1\<lparr>k_world := snd (create_task c (k_world k1))\<rparr>)" for c
    by (rule kernel_ok_world [OF k1(1) create_task_moved [OF k1(1)]])
  moreover have "keeps k (k1\<lparr>k_world := w\<rparr>)" for w using k1(2) by (simp add: keeps_def)
  ultimately show ?thesis using k1 by auto
qed

lemma kernel_step_ok:
  assumes "kernel_step k k'" "kernel_ok k"
  shows "kernel_ok k' \<and> keeps k k'"
  using assms
proof cases
  case (Interrupt cr2 vm drv ctx)
  then show ?thesis using dispatch_ok [OF assms(2)] by simp
next
  case (Loop w)
  then show ?thesis
    using kernel_ok_world [OF assms(2)] loop_step_moved assms(2) by (auto simp: kernel_ok_def keeps_same)
next
  case (Finish xs t i auto_reap ys)
  then show ?thesis using finish_ok [OF assms(2)] by blast
qed (use assms(2) in \<open>auto simp: spawn_ok kill_ok reap_ok register_def set_event_loop_def set_hms_def clock_clear_def
    intro!: kernel_ok_other [OF assms(2)] keeps_same\<close>)

lemma kernel_reach_ok:
  assumes "kernel_reach k"
  shows "kernel_ok k"
proof -
  from assms obtain clock where "kernel_step\<^sup>*\<^sup>* (kernel_boot clock) k" by (auto simp: kernel_reach_def)
  then show ?thesis
  proof (induction rule: rtranclp_induct)
    case base
    show ?case by (simp add: kernel_ok_def kernel_boot_def balanced_new_loop)
  next
    case (step y z)
    then show ?case using kernel_step_ok by blast
  qed
qed

text \<open>
  C30. Process bookkeeping: in every reachable state of the kernel, pids are distinct, positive and below the
  next one, each process names a task that exists, a zombie's task is done, and a process that is not a
  zombie is running with its \<open>_finish\<close> callback still registered, so no exit is missed.
\<close>

theorem process_table_invariant:
  assumes "kernel_reach k"
  shows "distinct (map fst (k_processes k)) \<and> (\<forall>i p. process k i = Some p \<longrightarrow>
      pid p = i \<and> 1 \<le> i \<and> i < k_next_pid k \<and> ptask p < length (w_futs (k_world k)) \<and>
      (if pstate p = ZOMBIE then task_done k (ptask p) else pstate p = RUNNING \<and> (\<exists>ar. (ptask p, i, ar) \<in> set (k_callbacks k))))"
  using kernel_reach_ok [OF assms] unfolding kernel_ok_def process_ok_def by fastforce

definition one_process :: kernel where
  "one_process = snd (spawn (Return VNone) None False (kernel_boot (\<lambda>_. 0)))"

lemma one_process_reach: "kernel_reach one_process"
  unfolding kernel_reach_def one_process_def by (blast intro: kernel_step.Spawn)

lemmas one_process_simps = one_process_def spawn_def bind_def on_loop_run kernel_boot_def create_task_def new_process_def
  call_soon_def new_handle_def new_loop_def new_future_def

theorem process_table_invariant_witness:
  "kernel_reach one_process \<and> (\<exists>p. process one_process 1 = Some p \<and> pid p = 1 \<and> pstate p = RUNNING \<and>
     (\<exists>ar. (ptask p, 1, ar) \<in> set (k_callbacks one_process)))"
proof -
  have "\<exists>p. process one_process 1 = Some p \<and> pstate p = RUNNING" by (simp add: one_process_simps Let_def)
  then show ?thesis using process_table_invariant [OF one_process_reach] one_process_reach by fastforce
qed

text \<open>
  C31. No step of the kernel (spawning, killing, reaping, an interrupt, a turn of the event loop, an exit
  callback, setting the clock) removes or renames a process whose task is still running, and a process that
  appears has a pid never used before.
\<close>

theorem running_process_stays:
  assumes "kernel_reach k" "kernel_step k k'"
  shows "(\<forall>i p. process k i = Some p \<longrightarrow> \<not> task_done k (ptask p) \<longrightarrow>
      (\<exists>p'. process k' i = Some p' \<and> pid p' = i \<and> pname p' = pname p \<and> ptask p' = ptask p \<and> pstate p' = RUNNING)) \<and>
    (\<forall>j. process k j = None \<longrightarrow> process k' j \<noteq> None \<longrightarrow> k_next_pid k \<le> j)"
proof -
  have ok: "kernel_ok k" by (rule kernel_reach_ok [OF assms(1)])
  have keeps: "keeps k k'" using kernel_step_ok [OF assms(2) ok] ..
  show ?thesis
  proof (intro conjI allI impI)
    fix i p assume p: "process k i = Some p" "\<not> task_done k (ptask p)"
    then have "pid p = i" "pstate p = RUNNING" using ok unfolding kernel_ok_def process_ok_def by blast+
    then show "\<exists>p'. process k' i = Some p' \<and> pid p' = i \<and> pname p' = pname p \<and> ptask p' = ptask p \<and> pstate p' = RUNNING"
      using keeps p unfolding keeps_def by metis
  qed (use keeps in \<open>simp add: keeps_def\<close>)
qed

theorem running_process_stays_witness:
  "\<exists>p'. process (snd (reap 1 one_process)) 1 = Some p' \<and> pstate p' = RUNNING"
proof -
  have "\<exists>p. process one_process 1 = Some p \<and> \<not> task_done one_process (ptask p)"
    by (simp add: one_process_simps Let_def)
  then show ?thesis using running_process_stays [OF one_process_reach kernel_step.Reap [of _ 1]] by blast
qed

definition ticks :: "nat \<Rightarrow> kernel \<Rightarrow> kernel" where
  "ticks n = (\<lambda>k. snd (tick k)) ^^ n"

lemma ticks_run: "\<exists>ps. ticks n k = k\<lparr>k_ticks := k_ticks k + int n, k_processes := ps\<rparr>"
proof (induction n)
  case 0
  show ?case by (rule exI [of _ "k_processes k"]) (simp add: ticks_def)
next
  case (Suc n)
  then obtain ps where "ticks n k = k\<lparr>k_ticks := k_ticks k + int n, k_processes := ps\<rparr>" ..
  then have "ticks (Suc n) k = k\<lparr>k_ticks := k_ticks k + int (Suc n), k_processes := credit (k_world k) ps\<rparr>"
    by (simp add: ticks_def tick_def add.assoc add.commute)
  then show ?case ..
qed

lemma hms_parts:
  fixes h m s :: int
  assumes "0 \<le> m" "m \<le> 59" "0 \<le> s" "s \<le> 59"
  shows "(h * 3600 + m * 60 + s) div 3600 = h" "((h * 3600 + m * 60 + s) div 60) mod 60 = m" "(h * 3600 + m * 60 + s) mod 60 = s"
proof -
  have e: "h * 3600 + m * 60 + s = s + (m + h * 60) * 60" by simp
  have d: "(h * 3600 + m * 60 + s) div 60 = m + h * 60" using assms(3,4) unfolding e by (subst div_mult_self1) simp_all
  show "((h * 3600 + m * 60 + s) div 60) mod 60 = m" using assms(1,2) unfolding d by simp
  show "(h * 3600 + m * 60 + s) mod 60 = s" using assms(3,4) unfolding e by (subst mod_mult_self1) simp
  have "(h * 3600 + m * 60 + s) div 3600 = (h * 3600 + m * 60 + s) div 60 div 60"
    using zdiv_zmult2_eq [of 60 "h * 3600 + m * 60 + s" 60] by simp
  then show "(h * 3600 + m * 60 + s) div 3600 = h" using assms(1,2) unfolding d by simp
qed

text \<open>
  C39. The session clock: after \<open>set_hms\<close> with a valid time and \<open>d\<close> seconds of timer ticks,
  \<open>format_hms\<close> shows the time set plus \<open>d\<close> seconds, modulo a day, as \<open>HH:MM:SS\<close>.
\<close>

theorem session_clock_advances:
  assumes "0 \<le> h" "h \<le> 23" "0 \<le> m" "m \<le> 59" "0 \<le> s" "s \<le> 59" "0 \<le> k_ticks k"
    "0 \<le> h'" "0 \<le> m'" "m' \<le> 59" "0 \<le> s'" "s' \<le> 59"
    "h' * 3600 + m' * 60 + s' = (h * 3600 + m * 60 + s + int d) mod 86400"
  shows "fst (set_hms h m s k) = Inr () \<and>
    format_hms (ticks (100 * d) (snd (set_hms h m s k))) = pad2 h' @ '':'' @ pad2 m' @ '':'' @ pad2 s'"
proof -
  let ?k1 = "snd (set_hms h m s k)"
  have k1: "?k1 = k\<lparr>k_base_clock := Some (h * 3600 + m * 60 + s), k_base_uptime := uptime_seconds k\<rparr>"
    using assms(1-6) by (simp add: set_hms_def)
  let ?k2 = "ticks (100 * d) ?k1"
  obtain ps where k2: "?k2 = ?k1\<lparr>k_ticks := k_ticks ?k1 + int (100 * d), k_processes := ps\<rparr>"
    using ticks_run [of "100 * d" ?k1] by blast
  have "k_ticks ?k2 = k_ticks k + 100 * int d" unfolding k2 unfolding k1 by simp
  then have "uptime_seconds ?k2 = uptime_seconds k + int d"
    using assms(7) by (simp add: uptime_seconds_def uptime_ms_def TICK_HZ_def)
  moreover have "k_base_clock ?k2 = Some (h * 3600 + m * 60 + s)" "k_base_uptime ?k2 = uptime_seconds k"
    unfolding k2 unfolding k1 by simp_all
  ultimately have "seconds ?k2 = h' * 3600 + m' * 60 + s'"
    using assms(13) by (simp add: seconds_def algebra_simps)
  then show ?thesis
    using hms_parts [OF assms(9-12), of h'] assms(1-6) unfolding format_hms_def Let_def by (simp add: set_hms_def)
qed

theorem session_clock_advances_witness:
  "format_hms (ticks (100 * 2) (snd (set_hms 23 59 59 (kernel_boot (\<lambda>_. 0))))) = ''00:00:01''"
proof -
  have "pad2 0 = ''00''" "pad2 1 = ''01''" by code_simp+
  moreover have "k_ticks (kernel_boot (\<lambda>_. 0)) = 0" by (simp add: kernel_boot_def)
  ultimately show ?thesis using session_clock_advances [of 23 59 59 "kernel_boot (\<lambda>_. 0)" 0 0 1 2] by simp
qed

end
