(* ===== verification/Ed.thy ===== *)
theory Ed
  imports Vfs
begin

section \<open>The line editor\<close>

text \<open>
  Models \<^verbatim>\<open>kernel/ed.py\<close> over the virtual filesystem. The editor object is a record; its two
  callbacks are the text still to be read (\<open>EOFError\<close> at its end, one character at a time) and
  the text written so far. A position in a command line is the rest of the line from there.
  Reading a file is a loop over \<open>vfs.read\<close> that ends at an empty chunk; it has
  a bound on the number of chunks (\<open>OtherError\<close> stands for running out of it). The command loop is a
  partial function, \<open>None\<close> when it never ends. Strings hold code points below 256.
\<close>

unbundle bit_operations_syntax

abbreviation newline :: char where "newline \<equiv> CHR 0x0A"
abbreviation backspace :: char where "backspace \<equiv> CHR 0x08"
abbreviation space :: char where "space \<equiv> CHR 0x20"

subsection \<open>Paths, files, text\<close>

fun fold_segs :: "string list \<Rightarrow> string list \<Rightarrow> string list" where
  "fold_segs parts [] = parts"
| "fold_segs parts (seg # segs) =
     (if seg = ''..'' then fold_segs (if parts \<noteq> [] then butlast parts else parts) segs
      else if seg \<noteq> [] \<and> seg \<noteq> ''.'' then fold_segs (parts @ [seg]) segs
      else fold_segs parts segs)"

definition abspath :: "string \<Rightarrow> string \<Rightarrow> string" where
  "abspath path cwd =
     (let target = if starts_with path ''/'' then path else rstrip slash cwd @ ''/'' @ path
      in ''/'' @ join_with ''/'' (fold_segs [] (split_on slash target)))"

definition finally_close :: "int \<Rightarrow> (('f, 's, 'd) VFS, 'a) io \<Rightarrow> (('f, 's, 'd) VFS, 'a) io" where
  "finally_close fd m = (\<lambda>v. let (r, v') = m v in (r, snd (vfs_close fd v')))"

fun read_chunks :: "nat \<Rightarrow> ('f, 's, 'd) fs_ops \<Rightarrow> int \<Rightarrow> (('f, 's, 'd) VFS, byte list list) io" where
  "read_chunks 0 ops fd = raise (OtherError 0)"
| "read_chunks (Suc n) ops fd = bind (vfs_read ops fd 4096) (\<lambda>chunk.
     if chunk = [] then ret [] else bind (read_chunks n ops fd) (\<lambda>chunks. ret (chunk # chunks)))"

definition read_all :: "nat \<Rightarrow> ('f, 's, 'd) fs_ops \<Rightarrow> string \<Rightarrow> (('f, 's, 'd) VFS, byte list) io" where
  "read_all n ops path = bind (vfs_open ops path RDONLY) (\<lambda>fd.
     bind (finally_close fd (read_chunks n ops fd)) (\<lambda>chunks. ret (concat chunks)))"

definition write_all :: "('f, 's, 'd) fs_ops \<Rightarrow> string \<Rightarrow> byte list \<Rightarrow> bool \<Rightarrow> (('f, 's, 'd) VFS, unit) io" where
  "write_all ops path data appending =
     (let flags = WRONLY OR CREAT; flags = (if appending then flags OR APPEND else flags OR TRUNC) in
      bind (vfs_open ops path flags) (\<lambda>fd.
      bind (finally_close fd (vfs_write ops fd data)) (\<lambda>_. ret ())))"

definition lines_from_text :: "string \<Rightarrow> string list" where
  "lines_from_text text = (if text = [] then [] else
     let ls = split_on newline text in if ls \<noteq> [] \<and> last ls = [] then butlast ls else ls)"

definition text_from_lines :: "string list \<Rightarrow> byte list" where
  "text_from_lines ls = (if ls = [] then [] else utf8_encode (join_with [newline] ls @ [newline]))"

subsection \<open>The editor object\<close>

record ('f, 's, 'd) Editor =
  ed_argv :: "string list"
  ed_cwd :: string
  ed_output :: string
  ed_input :: string
  prompting :: bool
  prompt :: string
  silent :: bool
  verbose :: bool
  ed_file :: string
  ed_lines :: "string list"
  saved_lines :: "string list"
  undo_lines :: "string list"
  dot :: int
  marks :: "char \<rightharpoonup> int"
  cut :: "string list"
  running :: bool
  last_error :: string
  ed_vfs :: "('f, 's, 'd) VFS"

definition VERSION :: string where
  "VERSION = ''PythonOS ed 0.1''"

definition new_editor :: "string list \<Rightarrow> string \<Rightarrow> string \<Rightarrow> ('f, 's, 'd) VFS \<Rightarrow> ('f, 's, 'd) Editor" where
  "new_editor argv cwd inp v = \<lparr>ed_argv = argv, ed_cwd = cwd, ed_output = [], ed_input = inp, prompting = False, prompt = ''*'',
     silent = False, verbose = False, ed_file = [], ed_lines = [], saved_lines = [], undo_lines = [], dot = 0, marks = Map.empty,
     cut = [], running = True, last_error = [], ed_vfs = v\<rparr>"

type_synonym ('f, 's, 'd, 'a) ed = "(('f, 's, 'd) Editor, 'a) io"

definition on_vfs :: "(('f, 's, 'd) VFS, 'a) io \<Rightarrow> ('f, 's, 'd, 'a) ed" where
  "on_vfs m = (\<lambda>e. let (r, v) = m (ed_vfs e) in (r, e\<lparr>ed_vfs := v\<rparr>))"

definition put :: "string \<Rightarrow> ('f, 's, 'd, unit) ed" where
  "put text = modify (\<lambda>e. e\<lparr>ed_output := ed_output e @ text\<rparr>)"

definition out :: "string \<Rightarrow> ('f, 's, 'd, unit) ed" where
  "out text = put (text @ [newline])"

definition ed_error :: "string \<Rightarrow> ('f, 's, 'd, unit) ed" where
  "ed_error message = bind (modify (\<lambda>e. e\<lparr>last_error := message\<rparr>)) (\<lambda>_.
     bind (gets (\<lambda>e. (verbose e, silent e))) (\<lambda>(v, s). if v then out message else if \<not> s then out ''?'' else ret ()))"

definition changed :: "('f, 's, 'd) Editor \<Rightarrow> bool" where
  "changed e \<longleftrightarrow> ed_lines e \<noteq> saved_lines e"

definition n_lines :: "('f, 's, 'd) Editor \<Rightarrow> int" where
  "n_lines e = int (length (ed_lines e))"

definition snapshot :: "('f, 's, 'd, unit) ed" where
  "snapshot = modify (\<lambda>e. e\<lparr>undo_lines := ed_lines e\<rparr>)"

definition set_dot :: "int \<Rightarrow> ('f, 's, 'd, unit) ed" where
  "set_dot value = modify (\<lambda>e. e\<lparr>dot := (if ed_lines e = [] then 0 else max 1 (min (n_lines e) value))\<rparr>)"

subsection \<open>Input\<close>

text \<open>The loop of \<open>read_line\<close>: the line (none at the end of the input), the rest of the input, the echo.\<close>

fun line_loop :: "string \<Rightarrow> string \<Rightarrow> string option \<times> string \<times> string" where
  "line_loop [] buf = (None, [], [])"
| "line_loop (ch # inp) buf =
     (if ch = newline then (Some buf, inp, [newline])
      else if ch = backspace \<or> ch = CHR 0x7F then
        (if buf \<noteq> [] then (case line_loop inp (butlast buf) of (r, rest, echo) \<Rightarrow> (r, rest, [backspace, space, backspace] @ echo))
         else line_loop inp buf)
      else (case line_loop inp (buf @ [ch]) of (r, rest, echo) \<Rightarrow> (r, rest, ch # echo)))"

definition read_line :: "string \<Rightarrow> ('f, 's, 'd, string) ed" where
  "read_line pr = bind (if pr \<noteq> [] then put pr else ret ()) (\<lambda>_ e. case line_loop (ed_input e) [] of
       (Some buf, rest, echo) \<Rightarrow> (Inr buf, e\<lparr>ed_input := rest, ed_output := ed_output e @ echo\<rparr>)
     | (None, rest, echo) \<Rightarrow> (Inl EOFError, e\<lparr>ed_input := rest, ed_output := ed_output e @ echo\<rparr>))"

lemma line_loop_shorter: "line_loop inp buf = (Some l, rest, echo) \<Longrightarrow> length rest < length inp"
proof (induction inp buf arbitrary: l rest echo rule: line_loop.induct)
  case (2 ch inp buf)
  then show ?case by (fastforce split: if_splits prod.splits)
qed simp

function text_loop :: "string \<Rightarrow> string list option \<times> string \<times> string" where
  "text_loop inp = (case line_loop inp [] of
       (None, rest, echo) \<Rightarrow> (None, rest, echo)
     | (Some line, rest, echo) \<Rightarrow>
         if line = ''.'' then (Some [], rest, echo)
         else (case text_loop rest of (r, rest', echo') \<Rightarrow> (map_option (\<lambda>ls. line # ls) r, rest', echo @ echo')))"
  by pat_completeness auto
termination by (relation "measure length") (auto dest: line_loop_shorter sym)

declare text_loop.simps [simp del]

definition read_text :: "('f, 's, 'd, string list) ed" where
  "read_text = (\<lambda>e. case text_loop (ed_input e) of
       (Some ls, rest, echo) \<Rightarrow> (Inr ls, e\<lparr>ed_input := rest, ed_output := ed_output e @ echo\<rparr>)
     | (None, rest, echo) \<Rightarrow> (Inl EOFError, e\<lparr>ed_input := rest, ed_output := ed_output e @ echo\<rparr>))"

subsection \<open>Files\<close>

definition int_str :: "int \<Rightarrow> string" where
  "int_str i = (if i < 0 then ''-'' @ dec_str (nat (- i)) else dec_str (nat i))"

definition report_size :: "byte list \<Rightarrow> ('f, 's, 'd, unit) ed" where
  "report_size data = bind (gets silent) (\<lambda>s. if \<not> s then out (int_str (int (length data))) else ret ())"

definition load_file :: "nat \<Rightarrow> ('f, 's, 'd) fs_ops \<Rightarrow> string \<Rightarrow> bool \<Rightarrow> ('f, 's, 'd, unit) ed" where
  "load_file n ops path force = bind (gets ed_cwd) (\<lambda>cwd. let path = abspath path cwd in
     bind (gets changed) (\<lambda>c. if c \<and> \<not> force then raise (EdError ''unsaved changes'') else
     bind (catch (bind (on_vfs (read_all n ops path)) (\<lambda>data. ret (Some data)))
                 (\<lambda>x. if x = FileNotFoundError then ret None else raise x)) (\<lambda>r. case r of
       None \<Rightarrow> modify (\<lambda>e. e\<lparr>ed_file := path, ed_lines := [], saved_lines := [], undo_lines := [], dot := 0\<rparr>)
     | Some data \<Rightarrow> (let ls = lines_from_text (utf8_decode data) in
         bind (modify (\<lambda>e. e\<lparr>ed_file := path, ed_lines := ls, saved_lines := ls, undo_lines := ls, dot := int (length ls)\<rparr>)) (\<lambda>_.
         report_size data)))))"

definition write_file :: "('f, 's, 'd) fs_ops \<Rightarrow> string \<Rightarrow> int \<Rightarrow> int \<Rightarrow> bool \<Rightarrow> ('f, 's, 'd, unit) ed" where
  "write_file ops path a b appending = bind (gets ed_file) (\<lambda>f. let path = (if path = [] then f else path) in
     if path = [] then raise (EdError ''no current filename'') else
     bind (gets (\<lambda>e. (abspath path (ed_cwd e), text_from_lines (if a > 0 then slice (ed_lines e) (a - 1) b else [])))) (\<lambda>(path, data).
     bind (on_vfs (write_all ops path data appending)) (\<lambda>_.
     bind (gets n_lines) (\<lambda>n.
     bind (if \<not> appending \<and> a = 1 \<and> b = n then modify (\<lambda>e. e\<lparr>ed_file := path, saved_lines := ed_lines e\<rparr>) else ret ()) (\<lambda>_.
     report_size data)))))"


subsection \<open>Addresses\<close>

definition py_isdigit :: "char \<Rightarrow> bool" where
  "py_isdigit c \<longleftrightarrow> is_digit c \<or> c = CHR 0xB2 \<or> c = CHR 0xB3 \<or> c = CHR 0xB9"

definition py_isalpha :: "char \<Rightarrow> bool" where
  "py_isalpha c \<longleftrightarrow> (let n = of_char c :: nat in
     (65 \<le> n \<and> n \<le> 90) \<or> (97 \<le> n \<and> n \<le> 122) \<or> n = 0xAA \<or> n = 0xB5 \<or> n = 0xBA
     \<or> (0xC0 \<le> n \<and> n \<le> 0xFF \<and> n \<noteq> 0xD7 \<and> n \<noteq> 0xF7))"

definition skip_spaces :: "string \<Rightarrow> string" where
  "skip_spaces s = dropWhile (\<lambda>c. c = space) s"

definition parse_number :: "string \<Rightarrow> (int \<times> string) res" where
  "parse_number s = (case py_int (takeWhile py_isdigit s) of
       Inl e \<Rightarrow> Inl e
     | Inr n \<Rightarrow> Inr (n, dropWhile py_isdigit s))"

lemma parse_number_shorter: "parse_number s = Inr (n, r) \<Longrightarrow> length r \<le> length s"
  by (auto simp: parse_number_def length_dropWhile_le split: sum.splits)

lemma skip_spaces_shorter: "length (skip_spaces s) \<le> length s"
  by (simp add: skip_spaces_def length_dropWhile_le)

text \<open>The loop over \<open>+n\<close> and \<open>-n\<close> that ends an address.\<close>

function parse_offsets :: "int \<Rightarrow> string \<Rightarrow> (int \<times> string) res" where
  "parse_offsets value s = (case skip_spaces s of
       [] \<Rightarrow> Inr (value, [])
     | c # r \<Rightarrow>
         if c \<noteq> CHR ''+'' \<and> c \<noteq> CHR ''-'' then Inr (value, c # r)
         else let sign = (if c = CHR ''+'' then 1 else -1); r = skip_spaces r in
           if r \<noteq> [] \<and> py_isdigit (hd r) then
             (case parse_number r of
                Inl e \<Rightarrow> Inl e
              | Inr (offset, r') \<Rightarrow> parse_offsets (value + sign * offset) r')
           else parse_offsets (value + sign * 1) r)"
  by pat_completeness auto
termination
proof (relation "measure (\<lambda>(v, s). length s)")
  fix v s c r sign x y offset r'
  assume "skip_spaces s = c # r" "y = skip_spaces r" "parse_number y = Inr x" "(offset, r') = x"
  then show "((v + sign * offset, r'), v, s) \<in> measure (\<lambda>(v, s). length s)"
    using skip_spaces_shorter [of s] skip_spaces_shorter [of r] parse_number_shorter [of y offset r'] by auto
next
  fix v s c r sign y
  assume "skip_spaces s = c # r" "y = skip_spaces r"
  then show "((v + sign * 1, y), v, s) \<in> measure (\<lambda>(v, s). length s)"
    using skip_spaces_shorter [of s] skip_spaces_shorter [of r] by auto
qed simp

declare parse_offsets.simps [simp del]

definition with_offsets :: "int \<Rightarrow> string \<Rightarrow> (int option \<times> string) res" where
  "with_offsets value s = map_sum id (\<lambda>(v, r). (Some v, r)) (parse_offsets value s)"

definition parse_address :: "string \<Rightarrow> ('f, 's, 'd) Editor \<Rightarrow> (int option \<times> string) res" where
  "parse_address command e = (case skip_spaces command of
       [] \<Rightarrow> Inr (None, [])
     | ch # r \<Rightarrow>
         if ch = CHR ''.'' then with_offsets (dot e) r
         else if ch = CHR ''$'' then with_offsets (n_lines e) r
         else if ch = CHR 0x27 then
           (case r of
              [] \<Rightarrow> Inl (EdError ''missing mark key'')
            | key # r' \<Rightarrow> (case marks e key of None \<Rightarrow> Inl (EdError ''mark not set'') | Some value \<Rightarrow> with_offsets value r'))
         else if py_isdigit ch then
           (case parse_number (ch # r) of Inl x \<Rightarrow> Inl x | Inr (value, r') \<Rightarrow> with_offsets value r')
         else if ch = CHR ''+'' \<or> ch = CHR ''-'' then with_offsets (dot e) (ch # r)
         else Inr (None, ch # r))"

definition whole_range :: "('f, 's, 'd) Editor \<Rightarrow> int \<times> int" where
  "whole_range e = (if ed_lines e = [] then (0, 0) else (1, n_lines e))"

definition check_range :: "int \<Rightarrow> int \<Rightarrow> string \<Rightarrow> ('f, 's, 'd, (int \<times> int) option \<times> string) ed" where
  "check_range a b rest = bind (gets n_lines) (\<lambda>n.
     if a < 0 \<or> b < 0 \<or> a > n \<or> b > n \<or> a > b then raise (EdError ''invalid address'') else ret (Some (a, b), rest))"

text \<open>The range (none when the command has no address) and the rest of the line.\<close>

definition parse_range :: "string \<Rightarrow> ('f, 's, 'd, (int \<times> int) option \<times> string) ed" where
  "parse_range command = (let s = skip_spaces command in
     if s \<noteq> [] \<and> hd s = CHR '','' then gets (\<lambda>e. (Some (whole_range e), tl s))
     else if s \<noteq> [] \<and> hd s = CHR '';'' then gets (\<lambda>e. (Some (dot e, n_lines e), tl s))
     else bind (\<lambda>e. (parse_address s e, e)) (\<lambda>(first, s2). case first of
         None \<Rightarrow> ret (None, s)
       | Some first \<Rightarrow> (let s3 = skip_spaces s2 in
           if s3 \<noteq> [] \<and> (hd s3 = CHR '','' \<or> hd s3 = CHR '';'') then
             bind (if hd s3 = CHR '';'' then modify (\<lambda>e. e\<lparr>dot := first\<rparr>) else ret ()) (\<lambda>_.
             bind (\<lambda>e. (parse_address (tl s3) e, e)) (\<lambda>(second, s4).
             bind (gets n_lines) (\<lambda>n. check_range first (case second of None \<Rightarrow> n | Some x \<Rightarrow> x) s4)))
           else check_range first first s3)))"

definition default_range :: "char \<Rightarrow> (int \<times> int) option \<Rightarrow> ('f, 's, 'd) Editor \<Rightarrow> int \<times> int" where
  "default_range command rng e = (case rng of
       Some r \<Rightarrow> r
     | None \<Rightarrow>
         if command = CHR ''w'' \<or> command = CHR ''W'' then whole_range e
         else if command = CHR ''r'' then (n_lines e, n_lines e)
         else if command = CHR ''j'' then (if dot e < n_lines e then (dot e, dot e + 1) else (dot e, dot e))
         else if dot e = 0 then (0, 0) else (dot e, dot e))"

subsection \<open>Commands\<close>

fun escape_dollar :: "string \<Rightarrow> string" where
  "escape_dollar [] = []"
| "escape_dollar (c # s) = (if c = CHR ''$'' then [CHR 0x5C, CHR ''$''] else [c]) @ escape_dollar s"

definition print_line :: "bool \<Rightarrow> bool \<Rightarrow> int \<Rightarrow> ('f, 's, 'd, unit) ed" where
  "print_line numbered literal idx = bind (\<lambda>e. (py_nth (ed_lines e) (idx - 1), e)) (\<lambda>line.
     if numbered then out (int_str idx @ [CHR 0x09] @ line)
     else if literal then out (escape_dollar line @ ''$'')
     else out line)"

definition print_range :: "int \<Rightarrow> int \<Rightarrow> bool \<Rightarrow> bool \<Rightarrow> ('f, 's, 'd, unit) ed" where
  "print_range a b numbered literal = (if a = 0 \<and> b = 0 then ret () else
     bind (for_each [a..b] (print_line numbered literal)) (\<lambda>_. set_dot b))"

definition insert_after :: "int \<Rightarrow> string list \<Rightarrow> ('f, 's, 'd, unit) ed" where
  "insert_after address new_lines = (if new_lines = [] then ret () else
     bind snapshot (\<lambda>_. modify (\<lambda>e. let index = max 0 (min (n_lines e) address) in
       e\<lparr>ed_lines := slice_assign (ed_lines e) index index new_lines, dot := index + int (length new_lines)\<rparr>)))"

definition delete_range :: "int \<Rightarrow> int \<Rightarrow> ('f, 's, 'd, unit) ed" where
  "delete_range a b = (if a = 0 \<and> b = 0 then ret () else
     bind snapshot (\<lambda>_. modify (\<lambda>e. let ls = slice_assign (ed_lines e) (a - 1) b [] in
       e\<lparr>cut := slice (ed_lines e) (a - 1) b, ed_lines := ls, dot := (if ls \<noteq> [] then min a (int (length ls)) else 0)\<rparr>)))"

definition command_append :: "int \<Rightarrow> ('f, 's, 'd, unit) ed" where
  "command_append address = bind read_text (insert_after address)"

definition command_insert :: "int \<Rightarrow> ('f, 's, 'd, unit) ed" where
  "command_insert address = (if address \<le> 0 then command_append 0 else command_append (address - 1))"

definition command_change :: "int \<Rightarrow> int \<Rightarrow> ('f, 's, 'd, unit) ed" where
  "command_change a b = bind read_text (\<lambda>text. bind snapshot (\<lambda>_. modify (\<lambda>e.
     if a = 0 \<and> b = 0 then e\<lparr>ed_lines := text @ ed_lines e, dot := int (length text)\<rparr>
     else let ls = slice_assign (slice_assign (ed_lines e) (a - 1) b []) (a - 1) (a - 1) text in
       e\<lparr>ed_lines := ls, dot := (if text \<noteq> [] then a + int (length text) - 1 else min a (int (length ls)))\<rparr>)))"

definition command_join :: "int \<Rightarrow> int \<Rightarrow> ('f, 's, 'd, unit) ed" where
  "command_join a b = (if a = 0 \<or> a = b then ret () else
     bind snapshot (\<lambda>_. modify (\<lambda>e. e\<lparr>ed_lines := slice_assign (ed_lines e) (a - 1) b [concat (slice (ed_lines e) (a - 1) b)], dot := a\<rparr>)))"

definition command_move :: "int \<Rightarrow> int \<Rightarrow> int \<Rightarrow> ('f, 's, 'd, unit) ed" where
  "command_move a b target = (if a \<le> target \<and> target \<le> b then raise (EdError ''invalid address'') else
     bind snapshot (\<lambda>_. modify (\<lambda>e.
       let block = slice (ed_lines e) (a - 1) b; ls = slice_assign (ed_lines e) (a - 1) b [];
           target = (if target > b then target - (b - a + 1) else target);
           index = max 0 (min (int (length ls)) target)
       in e\<lparr>ed_lines := slice_assign ls index index block, dot := index + int (length block)\<rparr>)))"

definition command_copy :: "int \<Rightarrow> int \<Rightarrow> int \<Rightarrow> ('f, 's, 'd, unit) ed" where
  "command_copy a b target = bind snapshot (\<lambda>_. modify (\<lambda>e.
     let block = slice (ed_lines e) (a - 1) b; index = max 0 (min (n_lines e) target)
     in e\<lparr>ed_lines := slice_assign (ed_lines e) index index block, dot := index + int (length block)\<rparr>))"

definition command_read :: "nat \<Rightarrow> ('f, 's, 'd) fs_ops \<Rightarrow> int \<Rightarrow> string \<Rightarrow> ('f, 's, 'd, unit) ed" where
  "command_read n ops address path = bind (gets ed_file) (\<lambda>f. let path = (if path = [] then f else path) in
     if path = [] then raise (EdError ''missing filename'') else
     bind (gets ed_cwd) (\<lambda>cwd.
     bind (on_vfs (read_all n ops (abspath path cwd))) (\<lambda>data.
     bind (insert_after address (lines_from_text (utf8_decode data))) (\<lambda>_.
     report_size data))))"


text \<open>The commands that take no range; none for the others.\<close>

definition simple_command :: "nat \<Rightarrow> ('f, 's, 'd) fs_ops \<Rightarrow> char \<Rightarrow> string \<Rightarrow> ('f, 's, 'd, unit) ed option" where
  "simple_command n ops command arg =
     (if command = CHR ''#'' then Some (ret ())
      else if command = CHR ''!'' then Some (raise (EdError ''shell escapes are not available''))
      else if command = CHR ''P'' then Some (modify (\<lambda>e. e\<lparr>prompting := \<not> prompting e\<rparr>))
      else if command = CHR ''h'' then Some (bind (gets last_error) (\<lambda>m. if m \<noteq> [] then out m else ret ()))
      else if command = CHR ''H'' then Some (modify (\<lambda>e. e\<lparr>verbose := \<not> verbose e\<rparr>))
      else if command = CHR ''u'' then Some (bind (modify (\<lambda>e. e\<lparr>ed_lines := undo_lines e, undo_lines := ed_lines e\<rparr>)) (\<lambda>_.
        bind (gets (\<lambda>e. min (dot e) (n_lines e))) set_dot))
      else if command = CHR ''f'' then Some (bind (if arg \<noteq> [] then modify (\<lambda>e. e\<lparr>ed_file := abspath arg (ed_cwd e)\<rparr>) else ret ()) (\<lambda>_.
        bind (gets ed_file) out))
      else if command = CHR ''q'' then Some (bind (gets changed) (\<lambda>c.
        if c then raise (EdError ''unsaved changes'') else modify (\<lambda>e. e\<lparr>running := False\<rparr>)))
      else if command = CHR ''Q'' then Some (modify (\<lambda>e. e\<lparr>running := False\<rparr>))
      else if command = CHR ''e'' then Some (if arg = [] then raise (EdError ''missing filename'') else load_file n ops arg False)
      else if command = CHR ''E'' then Some (if arg = [] then raise (EdError ''missing filename'') else load_file n ops arg True)
      else None)"

text \<open>The target of \<open>m\<close> and \<open>t\<close> is an address and nothing else.\<close>

definition target_address :: "string \<Rightarrow> ('f, 's, 'd, int) ed" where
  "target_address arg = bind (\<lambda>e. (parse_address arg e, e)) (\<lambda>(target, rest). case target of
       None \<Rightarrow> raise (EdError ''invalid address'')
     | Some target \<Rightarrow> if rest \<noteq> [] then raise (EdError ''invalid address'') else ret target)"

definition ranged_command ::
  "nat \<Rightarrow> ('f, 's, 'd) fs_ops \<Rightarrow> char \<Rightarrow> string \<Rightarrow> bool \<Rightarrow> int \<Rightarrow> int \<Rightarrow> ('f, 's, 'd, unit) ed" where
  "ranged_command n ops command arg addressed a b =
     (if command = CHR ''a'' then command_append b
      else if command = CHR ''i'' then command_insert b
      else if command = CHR ''c'' then command_change a b
      else if command = CHR ''d'' then delete_range a b
      else if command = CHR ''j'' then command_join a b
      else if command = CHR ''p'' then print_range a b False False
      else if command = CHR ''n'' then print_range a b True False
      else if command = CHR ''l'' then print_range a b False True
      else if command = CHR ''='' then bind (gets n_lines) (\<lambda>k. out (int_str (if addressed then b else k)))
      else if command = CHR ''k'' then
        (if length arg \<noteq> 1 \<or> \<not> py_isalpha (hd arg) then raise (EdError ''invalid mark'')
         else modify (\<lambda>e. e\<lparr>marks := (marks e)(hd arg \<mapsto> b)\<rparr>))
      else if command = CHR ''m'' then bind (target_address arg) (command_move a b)
      else if command = CHR ''t'' then bind (target_address arg) (command_copy a b)
      else if command = CHR ''r'' then command_read n ops b arg
      else if command = CHR ''w'' then
        (if starts_with arg ''q''
         then bind (write_file ops (trim (tl arg)) a b False) (\<lambda>_. modify (\<lambda>e. e\<lparr>running := False\<rparr>))
         else write_file ops arg a b False)
      else if command = CHR ''W'' then write_file ops arg a b True
      else if command = CHR ''y'' then modify (\<lambda>e. e\<lparr>cut := (if a \<noteq> 0 then slice (ed_lines e) (a - 1) b else [])\<rparr>)
      else if command = CHR ''x'' then bind (gets cut) (insert_after b)
      else raise (EdError ''unknown command''))"

definition print_next :: "('f, 's, 'd, unit) ed" where
  "print_next = bind (gets (\<lambda>e. (dot e + 1, n_lines e))) (\<lambda>(target, k).
     if target > k then raise (EdError ''invalid address'') else print_range target target False False)"

definition execute :: "nat \<Rightarrow> ('f, 's, 'd) fs_ops \<Rightarrow> string \<Rightarrow> ('f, 's, 'd, unit) ed" where
  "execute n ops raw = bind (parse_range raw) (\<lambda>(rng, suffix). let rest = trim suffix in
     if rest = [] then (case rng of Some (a, b) \<Rightarrow> print_range a b False False | None \<Rightarrow> print_next)
     else let command = hd rest; arg = trim (tl rest) in
       (case simple_command n ops command arg of
          Some m \<Rightarrow> m
        | None \<Rightarrow> bind (gets (default_range command rng)) (\<lambda>(a, b). ranged_command n ops command arg (rng \<noteq> None) a b)))"

subsection \<open>Running the editor\<close>

fun parse_opts :: "string list \<Rightarrow> ('f, 's, 'd, string option) ed" where
  "parse_opts [] = ret None"
| "parse_opts (arg # rest) =
     (if arg \<in> {''-s'', ''--quiet'', ''--silent''} then bind (modify (\<lambda>e. e\<lparr>silent := True\<rparr>)) (\<lambda>_. parse_opts rest)
      else if arg \<in> {''-v'', ''--verbose''} then bind (modify (\<lambda>e. e\<lparr>verbose := True\<rparr>)) (\<lambda>_. parse_opts rest)
      else if arg = ''-p'' then
        (case rest of
           [] \<Rightarrow> raise (EdError ''missing prompt'')
         | p # rest' \<Rightarrow> bind (modify (\<lambda>e. e\<lparr>prompt := p, prompting := True\<rparr>)) (\<lambda>_. parse_opts rest'))
      else if starts_with arg ''--prompt='' then
        bind (modify (\<lambda>e. e\<lparr>prompt := drop (length ''--prompt='') arg, prompting := True\<rparr>)) (\<lambda>_. parse_opts rest)
      else if arg \<in> {''-V'', ''--version''} then
        bind (out VERSION) (\<lambda>_. bind (modify (\<lambda>e. e\<lparr>running := False\<rparr>)) (\<lambda>_. parse_opts rest))
      else if arg \<in> {''-h'', ''--help''} then
        bind (out ''usage: ed [-s] [-v] [-p prompt] [file]'') (\<lambda>_. bind (modify (\<lambda>e. e\<lparr>running := False\<rparr>)) (\<lambda>_. parse_opts rest))
      else if starts_with arg ''-'' then raise (EdError ''unknown option'')
      else ret (Some (join_with '' '' (arg # rest))))"

definition parse_args :: "nat \<Rightarrow> ('f, 's, 'd) fs_ops \<Rightarrow> ('f, 's, 'd, unit) ed" where
  "parse_args n ops = bind (gets ed_argv) (\<lambda>argv. bind (parse_opts argv) (\<lambda>filename. case filename of
       None \<Rightarrow> ret ()
     | Some f \<Rightarrow> load_file n ops f True))"

definition handle_error :: "py_error \<Rightarrow> ('f, 's, 'd, unit) ed" where
  "handle_error x = (case x of
       EdError m \<Rightarrow> ed_error m
     | EOFError \<Rightarrow> modify (\<lambda>e. e\<lparr>running := False\<rparr>)
     | _ \<Rightarrow> raise x)"

definition run_command :: "nat \<Rightarrow> ('f, 's, 'd) fs_ops \<Rightarrow> ('f, 's, 'd, unit) ed" where
  "run_command n ops = bind (gets (\<lambda>e. if prompting e then prompt e else [])) (\<lambda>pr.
     catch (bind (read_line pr) (execute n ops)) handle_error)"

partial_function (option) run_loop :: "nat \<Rightarrow> ('f, 's, 'd) fs_ops \<Rightarrow> ('f, 's, 'd) Editor \<Rightarrow> (unit res \<times> ('f, 's, 'd) Editor) option" where
  "run_loop n ops e = (if \<not> running e then Some (Inr (), e) else
     (case run_command n ops e of
        (Inl x, e') \<Rightarrow> Some (Inl x, e')
      | (Inr _, e') \<Rightarrow> run_loop n ops e'))"

definition ed_run :: "nat \<Rightarrow> ('f, 's, 'd) fs_ops \<Rightarrow> ('f, 's, 'd) Editor \<Rightarrow> (unit res \<times> ('f, 's, 'd) Editor) option" where
  "ed_run n ops e = (case parse_args n ops e of
       (Inl x, e') \<Rightarrow> Some (Inl x, e')
     | (Inr _, e') \<Rightarrow> run_loop n ops e')"

end
