(* ===== verification/EdSpec.thy ===== *)
theory EdSpec
  imports Ed
begin

section \<open>What the line editor guarantees\<close>

text \<open>
  One contract per command, as a weakest precondition: a command that raises keeps the four
  text buffers (\<open>texts\<close>) and the current line, one that returns keeps the text or leaves the old
  text in the undo buffer, and the current line stays inside the buffer. The properties of
  \<open>execute\<close> follow by cases on the command; the last parts are the round trip of
  the lines through the bytes of a file, and the end of the command loop.
\<close>

definition texts :: "('f, 's, 'd) Editor \<Rightarrow> string list \<times> string list \<times> string list \<times> string list" where
  "texts e = (ed_lines e, saved_lines e, undo_lines e, cut e)"

definition dot_ok :: "('f, 's, 'd) Editor \<Rightarrow> bool" where
  "dot_ok e \<longleftrightarrow> 0 \<le> dot e \<and> dot e \<le> n_lines e"

definition range_ok :: "int \<Rightarrow> int \<Rightarrow> ('f, 's, 'd) Editor \<Rightarrow> bool" where
  "range_ok a b e \<longleftrightarrow> 0 \<le> a \<and> a \<le> b \<and> b \<le> n_lines e"

text \<open>\<open>same e e'\<close>: at most files, input, output and settings differ.\<close>

definition same :: "('f, 's, 'd) Editor \<Rightarrow> ('f, 's, 'd) Editor \<Rightarrow> bool" where
  "same e e' \<longleftrightarrow> texts e' = texts e \<and> dot e' = dot e"

definition undoable :: "bool \<Rightarrow> ('f, 's, 'd) Editor \<Rightarrow> ('f, 's, 'd) Editor \<Rightarrow> bool" where
  "undoable r e e' \<longleftrightarrow> (ed_lines e' = ed_lines e \<or> undo_lines e' = ed_lines e) \<and> (r \<and> dot_ok e \<longrightarrow> dot_ok e')"

abbreviation edits :: "bool \<Rightarrow> ('f, 's, 'd, unit) ed \<Rightarrow> ('f, 's, 'd) Editor \<Rightarrow> bool" where
  "edits r m e \<equiv> wp m (\<lambda>_. undoable r e) (\<lambda>_. same e) e"

lemma same_refl [simp]: "same e e" by (simp add: same_def)

lemma same_trans: "same a b \<Longrightarrow> same b c \<Longrightarrow> same a c" by (simp add: same_def)

lemma same_lines: "same e e' \<Longrightarrow> ed_lines e' = ed_lines e \<and> dot e' = dot e \<and> n_lines e' = n_lines e"
  by (simp add: same_def texts_def n_lines_def)

lemma same_undoable: "same e e' \<Longrightarrow> undoable r e e'"
  by (simp add: same_def undoable_def texts_def dot_ok_def n_lines_def)

lemma undoable_same: "same a b \<Longrightarrow> undoable r b c \<Longrightarrow> undoable r a c"
  by (auto simp: same_def undoable_def texts_def dot_ok_def n_lines_def)

lemma undoable_then_same: "undoable r a b \<Longrightarrow> same b c \<Longrightarrow> undoable r a c"
  by (auto simp: same_def undoable_def texts_def dot_ok_def n_lines_def)

lemma edits_quiet: "wp m (\<lambda>_. same e) (\<lambda>_. same e) e \<Longrightarrow> edits r m e"
  by (erule wp_mono) (auto intro: same_undoable)

lemma edits_bind:
  assumes "wp m (\<lambda>_. same e) (\<lambda>_. same e) e" "\<And>x e'. same e e' \<Longrightarrow> edits r (f x) e'"
  shows "edits r (bind m f) e"
  unfolding wp_bind
  by (rule wp_mono [OF assms(1)]) (auto intro!: wp_mono [OF assms(2)] intro: undoable_same same_trans)

subsection \<open>Quiet operations\<close>

lemma put_same [simp]: "wp (put t) (\<lambda>_. same e) E e'' \<longleftrightarrow> same e e''" "wp (out t) (\<lambda>_. same e) E e'' \<longleftrightarrow> same e e''"
  by (simp_all add: out_def put_def wp_modify same_def texts_def)

lemma on_vfs_same: "same e e' \<Longrightarrow> wp (on_vfs m) (\<lambda>_. same e) (\<lambda>_. same e) e'"
  by (auto simp: wp_def on_vfs_def Let_def same_def texts_def split: prod.splits sum.splits)

lemma report_size_same: "same e e' \<Longrightarrow> wp (report_size d) (\<lambda>_. same e) E e'"
  by (simp add: report_size_def wp_simps)

lemma read_text_same: "wp read_text (\<lambda>_. same e) (\<lambda>_. same e) e"
  by (auto simp: wp_def read_text_def same_def texts_def split: prod.splits option.splits)

lemma read_line_same: "wp (read_line pr) (\<lambda>_. same e) (\<lambda>_. same e) e"
  by (auto simp: read_line_def wp_simps put_def) (auto simp: wp_def same_def texts_def split: prod.splits option.splits)

lemma print_line_same: "same e e' \<Longrightarrow> wp (print_line nb lt i) (\<lambda>_. same e) (\<lambda>_. same e) e'"
  by (auto simp: print_line_def wp_simps) (auto simp: wp_def out_def put_def same_def texts_def split: sum.splits)

lemma for_each_same:
  assumes "\<And>x e'. same e e' \<Longrightarrow> wp (g x) (\<lambda>_. same e) (\<lambda>_. same e) e'"
  shows "same e e' \<Longrightarrow> wp (for_each xs g) (\<lambda>_. same e) (\<lambda>_. same e) e'"
  by (induction xs arbitrary: e') (auto simp: wp_ret wp_bind intro!: wp_mono [OF assms])

subsection \<open>Editing operations\<close>

lemma set_dot_edits: "edits r (set_dot v) e"
  by (auto simp: set_dot_def wp_modify undoable_def dot_ok_def n_lines_def Suc_le_eq)

lemma print_range_edits: "edits r (print_range a b nb lt) e"
proof (cases "a = 0 \<and> b = 0")
  case False
  then show ?thesis
    unfolding print_range_def if_not_P [OF False]
    by (intro edits_bind [OF for_each_same] print_line_same set_dot_edits) simp_all
qed (simp add: print_range_def wp_ret same_undoable)

lemma clamp_bounds: "clamp_index n i \<le> n"
  unfolding clamp_index_def by (cases "i < 0") auto

lemma length_slice_assign:
  "int (length (slice_assign xs i j ys)) = int (length xs) + int (length ys)
     - (int (max (clamp_index (length xs) i) (clamp_index (length xs) j)) - int (clamp_index (length xs) i))"
  using clamp_bounds [of "length xs" i] clamp_bounds [of "length xs" j] by (simp add: slice_assign_def Let_def)

lemma length_insert: "length (slice_assign xs i i ys) = length xs + length ys"
  using length_slice_assign [of xs i i ys] by simp

lemma insert_after_edits: "edits r (insert_after a ls) e"
  by (simp add: insert_after_def snapshot_def wp_simps Let_def undoable_def dot_ok_def n_lines_def length_insert)

lemma delete_range_edits: "(r \<Longrightarrow> 0 \<le> a) \<Longrightarrow> edits r (delete_range a b) e"
  by (auto simp: delete_range_def snapshot_def wp_simps Let_def undoable_def dot_ok_def n_lines_def)

lemma command_append_edits: "edits r (command_append a) e"
  unfolding command_append_def by (intro edits_bind read_text_same insert_after_edits)

lemma command_change_edits:
  assumes "r \<Longrightarrow> range_ok a b e"
  shows "edits r (command_change a b) e"
  unfolding command_change_def
proof (rule edits_bind [OF read_text_same])
  fix new e'
  assume "same e e'"
  from same_lines [OF this] have ok: "range_ok a b e'" if r using assms that by (simp add: range_ok_def)
  have "a - 1 \<le> int (length (slice_assign (ed_lines e') (a - 1) b []))" if r
    using ok [OF that] length_slice_assign [of "ed_lines e'" "a - 1" b "[]"]
    by (cases "a = 0") (auto simp: range_ok_def n_lines_def clamp_index_def)
  moreover have "0 \<le> a" if r using ok [OF that] by (simp add: range_ok_def)
  ultimately show "edits r (bind snapshot (\<lambda>_. modify (\<lambda>e.
     if a = 0 \<and> b = 0 then e\<lparr>ed_lines := new @ ed_lines e, dot := int (length new)\<rparr>
     else let ls = slice_assign (slice_assign (ed_lines e) (a - 1) b []) (a - 1) (a - 1) new in
       e\<lparr>ed_lines := ls, dot := (if new \<noteq> [] then a + int (length new) - 1 else min a (int (length ls)))\<rparr>))) e'"
    by (auto simp: snapshot_def wp_simps Let_def undoable_def dot_ok_def n_lines_def length_insert Suc_le_eq intro!: add_nonneg_pos)
qed

lemma command_join_edits:
  assumes "r \<Longrightarrow> range_ok a b e"
  shows "edits r (command_join a b) e"
proof -
  have "a \<le> int (length (slice_assign (ed_lines e) (a - 1) b [x]))" if "a \<noteq> 0" r for x
    using assms [OF that(2)] that(1) length_slice_assign [of "ed_lines e" "a - 1" b "[x]"]
    by (auto simp: range_ok_def n_lines_def clamp_index_def max_def min_def split: if_splits)
  then show ?thesis
    using assms by (auto simp: command_join_def snapshot_def wp_simps undoable_def dot_ok_def n_lines_def range_ok_def)
qed

lemma command_move_edits: "edits r (command_move a b t) e"
  by (simp add: command_move_def snapshot_def wp_simps Let_def undoable_def dot_ok_def n_lines_def length_insert)

lemma command_copy_edits: "edits r (command_copy a b t) e"
  by (simp add: command_copy_def snapshot_def wp_simps Let_def undoable_def dot_ok_def n_lines_def length_insert)


lemma load_file_keeps: "wp (load_file n ops p force) (\<lambda>_ e'. dot_ok e') (\<lambda>_. same e) e"
proof -
  have r: "wp (on_vfs (read_all n ops p)) (\<lambda>_. same e) (\<lambda>_. same e) e" for p by (rule on_vfs_same) simp
  have s: "dot_ok e' \<Longrightarrow> wp (report_size d) (\<lambda>_. dot_ok) E e'" for d e' E
    by (simp add: report_size_def wp_simps out_def put_def dot_ok_def n_lines_def)
  show ?thesis
    unfolding load_file_def Let_def wp_bind wp_gets wp_catch
    by (auto simp: wp_simps dot_ok_def n_lines_def intro!: wp_mono [OF r] s)
qed

lemma write_file_edits: "edits r (write_file ops p a b app) e"
proof -
  have s: "same e e' \<Longrightarrow> undoable r e (e'\<lparr>ed_file := f, saved_lines := ed_lines e'\<rparr>)" for f e'
    by (simp add: same_def undoable_def texts_def dot_ok_def n_lines_def)
  have u: "undoable r e e' \<Longrightarrow> wp (report_size d) (\<lambda>_. undoable r e) (\<lambda>_. same e) e'" for d e'
    by (auto simp: report_size_def wp_simps out_def put_def undoable_def dot_ok_def n_lines_def)
  show ?thesis
    unfolding write_file_def Let_def
    by (auto simp: wp_bind wp_gets wp_if wp_raise wp_ret wp_modify split: prod.splits intro!: wp_mono [OF on_vfs_same [OF same_refl]] u s
        intro: same_undoable)
qed

lemma command_read_edits: "edits r (command_read n ops a p) e"
proof -
  have u: "undoable r e e' \<Longrightarrow> wp (report_size d) (\<lambda>_. undoable r e) (\<lambda>_. same e) e'" for d e'
    by (auto simp: report_size_def wp_simps out_def put_def undoable_def dot_ok_def n_lines_def)
  have i: "wp (insert_after a ls) (\<lambda>_ e''. wp (report_size d) (\<lambda>_. undoable r e) (\<lambda>_. same e) e'') (\<lambda>_. same e) e'" if "same e e'" for ls d e'
    by (rule wp_mono [OF insert_after_edits]) (use that in \<open>auto intro!: u intro: undoable_same same_trans\<close>)
  show ?thesis
    unfolding command_read_def Let_def
    by (auto simp: wp_bind wp_gets wp_if wp_raise intro!: wp_mono [OF on_vfs_same [OF same_refl]] i)
qed

subsection \<open>Addresses and ranges\<close>

lemma parse_number_set: "parse_number s = Inr (n, r) \<Longrightarrow> set r \<subseteq> set s"
  by (auto simp: parse_number_def split: sum.splits dest: set_dropWhileD)

lemma skip_spaces_set: "set (skip_spaces s) \<subseteq> set s"
  by (auto simp: skip_spaces_def dest: set_dropWhileD)

lemma parse_offsets_set: "parse_offsets v s = Inr (w, r) \<Longrightarrow> set r \<subseteq> set s"
proof (induction v s rule: parse_offsets.induct)
  case (1 v s)
  show ?case
  proof (cases "skip_spaces s")
    case (Cons c t)
    then have t: "set (c # t) \<subseteq> set s" "set (skip_spaces t) \<subseteq> set s"
      using skip_spaces_set [of s] skip_spaces_set [of t] by auto
    show ?thesis
    proof (cases "c \<noteq> CHR ''+'' \<and> c \<noteq> CHR ''-''")
      case True
      then show ?thesis using 1(3) Cons t(1) by (subst (asm) parse_offsets.simps) auto
    next
      case False
      let ?r = "skip_spaces t"
      show ?thesis
      proof (cases "?r \<noteq> [] \<and> py_isdigit (hd ?r)")
        case True
        with 1(3) Cons False obtain n r' where n: "parse_number ?r = Inr (n, r')"
            "parse_offsets (v + (if c = CHR ''+'' then 1 else -1) * n) r' = Inr (w, r)"
          by (subst (asm) parse_offsets.simps) (auto simp: Let_def split: sum.splits)
        then have "set r \<subseteq> set r'" by (rule 1(1) [OF Cons False refl refl True _ refl])
        then show ?thesis using parse_number_set [OF n(1)] t(2) by blast
      next
        case no: False
        then have "parse_offsets (v + (if c = CHR ''+'' then 1 else -1) * 1) ?r = Inr (w, r)"
          using 1(3) Cons False by (subst (asm) parse_offsets.simps) (auto simp: Let_def)
        then have "set r \<subseteq> set ?r" by (rule 1(2) [OF Cons False refl refl no])
        then show ?thesis using t(2) by blast
      qed
    qed
  qed (use 1(3) in \<open>subst (asm) parse_offsets.simps, auto\<close>)
qed

lemma parse_address_set:
  assumes "parse_address s e = Inr (x, r)"
  shows "set r \<subseteq> set s"
proof (cases "skip_spaces s")
  case (Cons c t)
  have w: "set r \<subseteq> set u" if "with_offsets v u = Inr (x, r)" for v u
    using that parse_offsets_set [of v u _ r] by (cases "parse_offsets v u") (auto simp: with_offsets_def)
  have "set r \<subseteq> set (c # t)"
    using assms unfolding parse_address_def Cons list.case
    by (auto split: if_splits list.splits option.splits sum.splits prod.splits dest!: w dest: parse_number_set [THEN subsetD])
  then show ?thesis using skip_spaces_set [of s] Cons by auto
qed (use assms in \<open>simp add: parse_address_def\<close>)

text \<open>After \<open>parse_range\<close>; the dot moves only behind a semicolon.\<close>

definition unranged :: "string \<Rightarrow> ('f, 's, 'd) Editor \<Rightarrow> ('f, 's, 'd) Editor \<Rightarrow> bool" where
  "unranged raw e e' \<longleftrightarrow> texts e' = texts e \<and> (CHR '';'' \<notin> set raw \<longrightarrow> dot e' = dot e)"

definition ranged :: "string \<Rightarrow> ('f, 's, 'd) Editor \<Rightarrow> (int \<times> int) option \<Rightarrow> ('f, 's, 'd) Editor \<Rightarrow> bool" where
  "ranged raw e rng e' \<longleftrightarrow> unranged raw e e' \<and> (dot_ok e \<longrightarrow> dot_ok e' \<and> (\<forall>a b. rng = Some (a, b) \<longrightarrow> range_ok a b e'))"

lemma check_range_wp:
  assumes "texts e' = texts e" "CHR '';'' \<notin> set raw \<longrightarrow> dot e' = dot e" "dot e' = dot e \<or> dot e' = a"
  shows "wp (check_range a b rest) (\<lambda>(rng, _). ranged raw e rng) (\<lambda>_. unranged raw e) e'"
  using assms by (auto simp: check_range_def wp_simps ranged_def unranged_def range_ok_def dot_ok_def n_lines_def texts_def)

lemma parse_address_wp: "wp (\<lambda>e. (parse_address s e, e)) Q E e = (case parse_address s e of Inl x \<Rightarrow> E x e | Inr p \<Rightarrow> Q p e)"
  by (simp add: wp_def split: sum.split)

lemma parse_range_wp: "wp (parse_range raw) (\<lambda>(rng, _). ranged raw e rng) (\<lambda>_. unranged raw e) e"
proof -
  let ?s = "skip_spaces raw"
  have k: "ranged raw e None e" "unranged raw e e" by (simp_all add: ranged_def unranged_def)
  have w: "ranged raw e (Some (whole_range e)) e" "ranged raw e (Some (dot e, n_lines e)) e"
    by (auto simp: ranged_def unranged_def whole_range_def range_ok_def dot_ok_def n_lines_def Suc_le_eq)
  have semi: "CHR '';'' \<in> set raw" if "parse_address ?s e = Inr (x, s2)" "skip_spaces s2 \<noteq> []" "hd (skip_spaces s2) = CHR '';''" for x s2
    using parse_address_set [OF that(1)] skip_spaces_set [of s2] skip_spaces_set [of raw] hd_in_set [OF that(2)] that(3) by auto
  have p: "wp (bind (\<lambda>e. (parse_address t e, e)) (\<lambda>(second, s4). bind (gets n_lines) (\<lambda>n. check_range a (case second of None \<Rightarrow> n | Some x \<Rightarrow> x) s4)))
      (\<lambda>(rng, _). ranged raw e rng) (\<lambda>_. unranged raw e) e'"
    if "texts e' = texts e" "CHR '';'' \<notin> set raw \<longrightarrow> dot e' = dot e" "dot e' = dot e \<or> dot e' = a" for e' t a
    unfolding wp_bind parse_address_wp
    using that check_range_wp [OF that] by (auto simp: wp_bind wp_gets unranged_def split: sum.splits)
  have q: "wp (if s3 \<noteq> [] \<and> (hd s3 = CHR '','' \<or> hd s3 = CHR '';'') then
             bind (if hd s3 = CHR '';'' then modify (\<lambda>e. e\<lparr>dot := first\<rparr>) else ret ()) (\<lambda>_.
             bind (\<lambda>e. (parse_address (tl s3) e, e)) (\<lambda>(second, s4).
             bind (gets n_lines) (\<lambda>n. check_range first (case second of None \<Rightarrow> n | Some x \<Rightarrow> x) s4)))
           else check_range first first s3) (\<lambda>(rng, _). ranged raw e rng) (\<lambda>_. unranged raw e) e"
    if "s3 \<noteq> [] \<Longrightarrow> hd s3 = CHR '';'' \<Longrightarrow> CHR '';'' \<in> set raw" for s3 first
  proof (cases "s3 \<noteq> [] \<and> (hd s3 = CHR '','' \<or> hd s3 = CHR '';'')")
    case True
    show ?thesis
      unfolding if_P [OF True] wp_bind [of "if _ then _ else _"]
      using True that by (auto simp: wp_modify wp_ret texts_def intro!: p)
  next
    case False
    show ?thesis unfolding if_not_P [OF False] by (rule check_range_wp) simp_all
  qed
  consider "?s \<noteq> [] \<and> hd ?s = CHR '',''" | "?s \<noteq> [] \<and> hd ?s = CHR '';''"
    | "\<not> (?s \<noteq> [] \<and> hd ?s = CHR '','')" "\<not> (?s \<noteq> [] \<and> hd ?s = CHR '';'')" by blast
  then show ?thesis
  proof cases
    case 3
    show ?thesis
      unfolding parse_range_def Let_def if_not_P [OF 3(1)] if_not_P [OF 3(2)] wp_bind [of "\<lambda>e. (parse_address _ e, e)"] parse_address_wp
    proof (cases "parse_address ?s e")
      case (Inr z)
      obtain first s2 where z: "z = (first, s2)" by fastforce
      show "case parse_address ?s e of Inl x \<Rightarrow> unranged raw e e | Inr p \<Rightarrow> wp ((\<lambda>(first, s2). case first of
          None \<Rightarrow> ret (None, ?s)
        | Some first \<Rightarrow> if skip_spaces s2 \<noteq> [] \<and> (hd (skip_spaces s2) = CHR '','' \<or> hd (skip_spaces s2) = CHR '';'') then
             bind (if hd (skip_spaces s2) = CHR '';'' then modify (\<lambda>e. e\<lparr>dot := first\<rparr>) else ret ()) (\<lambda>_.
             bind (\<lambda>e. (parse_address (tl (skip_spaces s2)) e, e)) (\<lambda>(second, s4).
             bind (gets n_lines) (\<lambda>n. check_range first (case second of None \<Rightarrow> n | Some x \<Rightarrow> x) s4)))
           else check_range first first (skip_spaces s2)) p) (\<lambda>(rng, _). ranged raw e rng) (\<lambda>_. unranged raw e) e"
      proof (cases first)
        case None
        then show ?thesis using k by (simp only: Inr z sum.case prod.case option.case wp_ret)
      next
        case (Some x)
        show ?thesis
          unfolding Inr z sum.case prod.case Some option.case
          by (rule q) (use semi [of _ s2] Inr z in blast)
      qed
    qed (use k in simp)
  qed (simp_all add: parse_range_def wp_gets w)
qed

subsection \<open>A command line\<close>

lemma target_address_same: "wp (target_address arg) (\<lambda>_. same e) (\<lambda>_. same e) e"
  unfolding target_address_def wp_bind parse_address_wp
  by (auto simp: wp_raise wp_ret split: sum.splits option.splits)

lemma gets_same: "wp (gets f) (\<lambda>_. same e) (\<lambda>_. same e) e"
  by (simp add: wp_gets)

lemma range_ok_same: "range_ok a b e \<Longrightarrow> same e e' \<Longrightarrow> range_ok a b e'"
  by (simp add: range_ok_def same_lines)

lemma write_quit_edits: "edits r (bind (write_file ops p a b app) (\<lambda>_. modify (\<lambda>e. e\<lparr>running := False\<rparr>))) e"
  unfolding wp_bind wp_modify
  by (rule wp_mono [OF write_file_edits]) (auto simp: undoable_def dot_ok_def n_lines_def)

lemma edits_if: "edits r x e \<Longrightarrow> edits r y e \<Longrightarrow> edits r (if b then x else y) e"
  by simp

lemma plain_edits:
  "edits r (ret ()) e" "edits r (raise x) e" "edits r (out t) e"
  "edits r (modify (\<lambda>e. e\<lparr>marks := m e\<rparr>)) e" "edits r (modify (\<lambda>e. e\<lparr>cut := c e\<rparr>)) e"
  "edits r (modify (\<lambda>e. e\<lparr>prompting := p e\<rparr>)) e" "edits r (modify (\<lambda>e. e\<lparr>verbose := p e\<rparr>)) e" "edits r (modify (\<lambda>e. e\<lparr>running := p e\<rparr>)) e"
  by (simp_all add: wp_simps out_def put_def undoable_def dot_ok_def n_lines_def)

lemma ranged_command_edits:
  assumes "r \<Longrightarrow> range_ok a b e"
  shows "edits r (ranged_command n ops c arg addressed a b) e"
proof -
  have d: "edits r (delete_range a b) e" using assms by (intro delete_range_edits) (simp add: range_ok_def)
  have g: "edits r (bind (gets n_lines) (\<lambda>k. out (f k))) e" for f
    by (rule edits_bind [OF gets_same plain_edits(3)])
  have b: "edits r (bind (gets cut) (insert_after b)) e" "edits r (bind (target_address arg) (command_move a b)) e"
      "edits r (bind (target_address arg) (command_copy a b)) e"
    by (intro edits_bind gets_same target_address_same insert_after_edits command_move_edits command_copy_edits)+
  show ?thesis
    unfolding ranged_command_def command_insert_def
    by (intro edits_if d g b plain_edits command_append_edits command_change_edits command_join_edits print_range_edits
        command_read_edits write_file_edits write_quit_edits assms)
qed

lemma pred_option_if: "pred_option P x \<Longrightarrow> pred_option P y \<Longrightarrow> pred_option P (if b then x else y)"
  by simp

lemma simple_command_edits:
  assumes "simple_command n ops c arg = Some m" "c \<noteq> CHR ''e''" "c \<noteq> CHR ''E''"
  shows "edits r m e"
proof -
  have u: "edits r (bind (modify (\<lambda>e. e\<lparr>ed_lines := undo_lines e, undo_lines := ed_lines e\<rparr>)) (\<lambda>_.
      bind (gets (\<lambda>e. min (dot e) (n_lines e))) set_dot)) e"
    by (auto simp: set_dot_def wp_simps undoable_def dot_ok_def n_lines_def Suc_le_eq)
  have f: "edits r (bind (if arg \<noteq> [] then modify (\<lambda>e. e\<lparr>ed_file := abspath arg (ed_cwd e)\<rparr>) else ret ()) (\<lambda>_. bind (gets ed_file) out)) e"
    by (rule edits_quiet) (simp add: wp_bind wp_if wp_modify wp_ret wp_gets same_def texts_def out_def put_def)
  have h: "edits r (bind (gets last_error) (\<lambda>m. if m \<noteq> [] then out m else ret ())) e"
      "edits r (bind (gets changed) (\<lambda>c. if c then raise (EdError ''unsaved changes'') else modify (\<lambda>e. e\<lparr>running := False\<rparr>))) e"
    by (intro edits_bind gets_same edits_if plain_edits)+
  have "pred_option (\<lambda>m. edits r m e) (simple_command n ops c arg)"
    unfolding simple_command_def if_not_P [OF assms(2)] if_not_P [OF assms(3)]
    by (intro pred_option_if option.pred_inject(1) option.pred_inject(2) [THEN iffD2] u f h plain_edits)
  then show ?thesis using assms(1) by simp
qed

lemma simple_command_load:
  assumes "simple_command n ops c arg = Some m" "c = CHR ''e'' \<or> c = CHR ''E''"
  shows "wp m (\<lambda>_. dot_ok) (\<lambda>_. same e) e"
  using assms by (auto simp: simple_command_def wp_raise load_file_keeps split: if_splits)

text \<open>The letter of the command in a line, if the line has one.\<close>

definition command_letter :: "string \<Rightarrow> ('f, 's, 'd) Editor \<Rightarrow> string" where
  "command_letter raw e = (case fst (parse_range raw e) of Inl _ \<Rightarrow> [] | Inr (_, suffix) \<Rightarrow> take 1 (trim suffix))"

definition executed :: "string \<Rightarrow> ('f, 's, 'd) Editor \<Rightarrow> ('f, 's, 'd) Editor \<Rightarrow> bool" where
  "executed raw e e' \<longleftrightarrow> (command_letter raw e \<notin> {''e'', ''E''} \<longrightarrow> ed_lines e' = ed_lines e \<or> undo_lines e' = ed_lines e)
     \<and> (dot_ok e \<longrightarrow> dot_ok e')"

lemma default_range_ok:
  assumes "dot_ok e" "\<And>a b. rng = Some (a, b) \<Longrightarrow> range_ok a b e" "default_range c rng e = (a, b)"
  shows "range_ok a b e"
  using assms by (cases rng) (auto simp: default_range_def range_ok_def dot_ok_def whole_range_def n_lines_def Suc_le_eq split: if_splits)

lemma ranged_edits:
  assumes "ranged raw e rng e1" "edits (dot_ok e) m e1"
  shows "wp m (\<lambda>_. executed raw e) (\<lambda>_. unranged raw e) e1"
proof (rule wp_mono [OF assms(2)])
  show "executed raw e e'" if "undoable (dot_ok e) e1 e'" for e'
    using that assms(1) by (auto simp: ranged_def unranged_def executed_def undoable_def texts_def)
  show "unranged raw e e'" if "same e1 e'" for e'
    using that assms(1) by (auto simp: ranged_def unranged_def same_def)
qed

lemma print_next_edits: "edits r print_next e"
  unfolding print_next_def by (rule edits_bind [OF gets_same]) (auto simp: wp_raise print_range_edits)

lemma execute_wp: "wp (execute n ops raw) (\<lambda>_. executed raw e) (\<lambda>_. unranged raw e) e"
proof (cases "parse_range raw e")
  case (Pair r e1)
  show ?thesis
  proof (cases r)
    case (Inl x)
    then show ?thesis using Pair parse_range_wp [of raw e] by (simp add: execute_def wp_bind) (simp add: wp_def)
  next
    case (Inr y)
    obtain rng suffix where y: "y = (rng, suffix)" by fastforce
    let ?rest = "trim suffix"
    have k: "ranged raw e rng e1" using Pair Inr y parse_range_wp [of raw e] by (simp add: wp_def)
    have run: "wp (execute n ops raw) Q E e = wp (if ?rest = [] then (case rng of Some (a, b) \<Rightarrow> print_range a b False False | None \<Rightarrow> print_next)
        else (case simple_command n ops (hd ?rest) (trim (tl ?rest)) of
          Some m \<Rightarrow> m
        | None \<Rightarrow> bind (gets (default_range (hd ?rest) rng)) (\<lambda>(a, b). ranged_command n ops (hd ?rest) (trim (tl ?rest)) (rng \<noteq> None) a b))) Q E e1" for Q E
      by (simp add: execute_def wp_def bind_Inr [where m = "parse_range raw", OF Pair [unfolded Inr y]] Let_def)
    show ?thesis
    proof (cases "?rest = []")
      case True
      then show ?thesis
        unfolding run by (cases rng) (auto intro!: ranged_edits [OF k] print_range_edits print_next_edits)
    next
      case False
      show ?thesis
      proof (cases "simple_command n ops (hd ?rest) (trim (tl ?rest))")
        case None
        have "edits (dot_ok e) (ranged_command n ops (hd ?rest) (trim (tl ?rest)) (rng \<noteq> None) a b) e1"
          if "default_range (hd ?rest) rng e1 = (a, b)" for a b
          using k by (intro ranged_command_edits default_range_ok [OF _ _ that]) (auto simp: ranged_def)
        then show ?thesis
          unfolding run using False None by (auto simp: wp_bind wp_gets intro!: ranged_edits [OF k] split: prod.split)
      next
        case (Some m)
        have l: "command_letter raw e = [hd ?rest]"
          using Pair Inr y False by (cases ?rest) (auto simp: command_letter_def)
        show ?thesis
        proof (cases "hd ?rest = CHR ''e'' \<or> hd ?rest = CHR ''E''")
          case True
          have "wp m (\<lambda>_. executed raw e) (\<lambda>_. unranged raw e) e1"
            by (rule wp_mono [OF simple_command_load [OF Some True]]) (use l True k in \<open>auto simp: executed_def ranged_def unranged_def same_def\<close>)
          then show ?thesis unfolding run using False Some by simp
        next
          case no: False
          then show ?thesis unfolding run using False Some ranged_edits [OF k simple_command_edits [OF Some]] by simp
        qed
      qed
    qed
  qed
qed

definition two_lines :: "(nat, tmp_heap, nat) Editor" where
  "two_lines = (new_editor [] ''/'' [] (vfs_new []))\<lparr>ed_lines := [''a'', ''b''], dot := 2\<rparr>"

text \<open>
  C26. A command line that fails leaves the text alone: when \<open>execute\<close> raises, whatever the exception, the lines of
  the buffer, the saved lines, the undo buffer and the cut buffer are as before, and so is the current line
  unless the line had a semicolon.
\<close>

theorem failed_command_keeps_text:
  assumes "execute n ops raw e = (Inl x, e')"
  shows "ed_lines e' = ed_lines e \<and> saved_lines e' = saved_lines e \<and> undo_lines e' = undo_lines e \<and> cut e' = cut e
    \<and> (CHR '';'' \<notin> set raw \<longrightarrow> dot e' = dot e)"
  using execute_wp [of n ops raw e] assms by (simp add: wp_def unranged_def texts_def)

theorem failed_command_keeps_text_witness:
  "fst (execute 2 tmp_fs ''9d'' two_lines) = Inl (EdError ''invalid address'') \<and> ed_lines (snd (execute 2 tmp_fs ''9d'' two_lines)) = [''a'', ''b'']"
proof -
  have f: "fst (execute 2 tmp_fs ''9d'' two_lines) = Inl (EdError ''invalid address'')" by code_simp
  then have "execute 2 tmp_fs ''9d'' two_lines = (Inl (EdError ''invalid address''), snd (execute 2 tmp_fs ''9d'' two_lines))" by (metis prod.collapse)
  from failed_command_keeps_text [OF this] show ?thesis using f by (simp add: two_lines_def)
qed

lemma undo_run:
  "execute n ops ''u'' e = (Inr (), e\<lparr>ed_lines := undo_lines e, undo_lines := ed_lines e,
     dot := (if undo_lines e = [] then 0 else max 1 (min (dot e) (int (length (undo_lines e)))))\<rparr>)"
proof -
  have "parse_range ''u'' e = (Inr (None, ''u''), e)"
    by (simp add: parse_range_def skip_spaces_def parse_address_def py_isdigit_def is_digit_def bind_def Let_def)
  moreover have "trim ''u'' = ''u''" by code_simp
  ultimately show ?thesis
    by (simp add: execute_def bind_Inr [where m = "parse_range ''u''"] Let_def simple_command_def)
      (simp add: bind_def set_dot_def n_lines_def)
qed

text \<open>
  C27. Undo: whenever a command other than \<open>e\<close> and \<open>E\<close> has changed the buffer, \<open>u\<close> brings the old
  lines back.
\<close>

theorem undo_restores_text:
  assumes "execute n ops raw e = (Inr (), e')" "command_letter raw e \<notin> {''e'', ''E''}" "ed_lines e' \<noteq> ed_lines e"
  shows "\<exists>e''. execute n ops ''u'' e' = (Inr (), e'') \<and> ed_lines e'' = ed_lines e \<and> undo_lines e'' = ed_lines e'"
  using execute_wp [of n ops raw e] assms by (auto simp: wp_def executed_def undo_run)

theorem undo_restores_text_witness:
  "\<exists>e'. execute 2 tmp_fs ''1d'' two_lines = (Inr (), e') \<and> ed_lines e' = [''b''] \<and>
     (\<exists>e''. execute 2 tmp_fs ''u'' e' = (Inr (), e'') \<and> ed_lines e'' = [''a'', ''b''])"
proof -
  have f: "fst (execute 2 tmp_fs ''1d'' two_lines) = Inr ()" "ed_lines (snd (execute 2 tmp_fs ''1d'' two_lines)) = [''b'']"
    "command_letter ''1d'' two_lines = ''d''" "ed_lines two_lines = [''a'', ''b'']" by code_simp+
  have e: "execute 2 tmp_fs ''1d'' two_lines = (Inr (), snd (execute 2 tmp_fs ''1d'' two_lines))" using f(1) by (metis prod.collapse)
  from undo_restores_text [OF e] show ?thesis using e f by (intro exI [of _ "snd (execute 2 tmp_fs ''1d'' two_lines)"]) auto
qed

text \<open>
  C29. The current line: from a state whose current line lies in the buffer, every command line without a
  semicolon leaves it there, whether it succeeds or fails, and so does every command line that succeeds.
\<close>

theorem current_line_in_buffer:
  assumes "0 \<le> dot e" "dot e \<le> n_lines e" "CHR '';'' \<notin> set raw \<or> \<not> isl (fst (execute n ops raw e))"
  shows "0 \<le> dot (snd (execute n ops raw e)) \<and> dot (snd (execute n ops raw e)) \<le> n_lines (snd (execute n ops raw e))"
  using execute_wp [of n ops raw e] assms
  by (cases "execute n ops raw e") (auto simp: wp_def executed_def unranged_def dot_ok_def n_lines_def texts_def split: sum.splits)

theorem current_line_in_buffer_witness:
  "dot two_lines = 2 \<and> dot (snd (execute 2 tmp_fs ''2d'' two_lines)) \<le> n_lines (snd (execute 2 tmp_fs ''2d'' two_lines))
     \<and> n_lines (snd (execute 2 tmp_fs ''2d'' two_lines)) = 1"
proof -
  have "n_lines (snd (execute 2 tmp_fs ''2d'' two_lines)) = 1" by code_simp
  then show ?thesis using current_line_in_buffer [of two_lines "''2d''" 2 tmp_fs] by (simp add: two_lines_def n_lines_def)
qed


subsection \<open>Text and bytes\<close>

lemma split_join_lines:
  assumes "list_all (\<lambda>l. newline \<notin> set l) ls" "ls \<noteq> []"
  shows "split_on newline (join_with [newline] ls @ [newline]) = ls @ [[]]"
proof -
  have "join_with [newline] ls @ [newline] = join_with [newline] (ls @ [[]])"
    using assms(2) by (induction ls rule: join_with.induct [of _ "[newline]"]) (auto simp: neq_Nil_conv)
  then show ?thesis using split_on_join [of "ls @ [[]]" newline] assms by (auto simp: list_all_iff)
qed

text \<open>
  C40. Lines go through a file unchanged: the lines read from the bytes that were written for some lines are
  those lines, empty lines and a last empty line included.
\<close>

theorem text_roundtrip:
  assumes "list_all (\<lambda>l. newline \<notin> set l) ls"
  shows "lines_from_text (utf8_decode (text_from_lines ls)) = ls"
  using assms split_join_lines [of ls]
  by (cases "ls = []") (simp_all add: lines_from_text_def text_from_lines_def utf8_decode_encode Let_def)

theorem text_roundtrip_witness:
  "lines_from_text (utf8_decode (text_from_lines [''a'', [], [CHR 0xE9], []])) = [''a'', [], [CHR 0xE9], []]"
  using text_roundtrip [of "[''a'', [], [CHR 0xE9], []]"] by simp

subsection \<open>The command loop ends\<close>

text \<open>No operation gives input back.\<close>

definition shrinks :: "('f, 's, 'd, 'a) ed \<Rightarrow> bool" where
  "shrinks m \<longleftrightarrow> (\<forall>e. length (ed_input (snd (m e))) \<le> length (ed_input e))"

named_theorems shrinks_intros

lemma shrinks_plain [shrinks_intros]:
  "shrinks (ret x)" "shrinks (raise err)" "shrinks (gets g)" "shrinks (on_vfs v)" "shrinks (\<lambda>e. (pure e, e))"
  "(\<And>e. ed_input (h e) = ed_input e) \<Longrightarrow> shrinks (modify h)"
  by (simp_all add: shrinks_def on_vfs_def Let_def split: prod.split)

lemma shrinks_bind [shrinks_intros]: "shrinks m \<Longrightarrow> (\<And>x. shrinks (f x)) \<Longrightarrow> shrinks (bind m f)"
  unfolding shrinks_def bind_def by (auto split: prod.split sum.split) (metis le_trans snd_conv)+

lemma shrinks_catch [shrinks_intros]: "shrinks m \<Longrightarrow> (\<And>x. shrinks (f x)) \<Longrightarrow> shrinks (catch m f)"
  unfolding shrinks_def catch_def by (auto split: prod.split sum.split) (metis le_trans snd_conv)+

lemma shrinks_cases [shrinks_intros]:
  "shrinks m \<Longrightarrow> shrinks m' \<Longrightarrow> shrinks (if c then m else m')"
  "shrinks m \<Longrightarrow> (\<And>x. shrinks (f x)) \<Longrightarrow> shrinks (case o' of None \<Rightarrow> m | Some x \<Rightarrow> f x)"
  "(\<And>x y. shrinks (g x y)) \<Longrightarrow> shrinks (case p of (x, y) \<Rightarrow> g x y)"
  by (simp_all split: option.split prod.split)

lemma shrinks_for_each [shrinks_intros]: "(\<And>x. shrinks (g x)) \<Longrightarrow> shrinks (for_each xs g)"
  by (induction xs) (auto intro!: shrinks_intros)

lemma line_loop_le: "length (fst (snd (line_loop inp buf))) \<le> length inp"
  by (induction inp buf rule: line_loop.induct) (auto split: prod.splits)

lemma text_loop_le: "length (fst (snd (text_loop inp))) \<le> length inp"
proof (induction inp rule: text_loop.induct)
  case (1 inp)
  then show ?case
    using line_loop_le [of inp "[]"]
    by (subst text_loop.simps) (fastforce split: prod.splits option.splits)
qed

lemma shrinks_read:
  assumes "\<And>s. length (fst (snd (loop s))) \<le> length s"
  shows "shrinks (\<lambda>e. case loop (ed_input e) of (Some x, rest, echo) \<Rightarrow> (Inr x, e\<lparr>ed_input := rest, ed_output := ed_output e @ echo\<rparr>)
    | (None, rest, echo) \<Rightarrow> (Inl EOFError, e\<lparr>ed_input := rest, ed_output := ed_output e @ echo\<rparr>))"
  unfolding shrinks_def
proof
  fix e
  show "length (ed_input (snd (case loop (ed_input e) of (Some x, rest, echo) \<Rightarrow> (Inr x, e\<lparr>ed_input := rest, ed_output := ed_output e @ echo\<rparr>)
    | (None, rest, echo) \<Rightarrow> (Inl EOFError, e\<lparr>ed_input := rest, ed_output := ed_output e @ echo\<rparr>)))) \<le> length (ed_input e)"
    using assms [of "ed_input e"] by (auto split: prod.splits option.splits)
qed

lemma shrinks_input [shrinks_intros]: "shrinks read_text" "shrinks (read_line pr)"
  unfolding read_text_def read_line_def put_def by (intro shrinks_intros shrinks_read line_loop_le text_loop_le; simp)+

lemma shrinks_output [shrinks_intros]: "shrinks (put t)" "shrinks (out t)" "shrinks (report_size d)" "shrinks (set_dot i)" "shrinks snapshot"
  "shrinks (ed_error m)"
  by (auto simp: out_def put_def report_size_def set_dot_def snapshot_def ed_error_def intro!: shrinks_intros)

lemma shrinks_files [shrinks_intros]: "shrinks (load_file n ops p force)" "shrinks (write_file ops p a b app)"
  by (auto simp: load_file_def write_file_def Let_def intro!: shrinks_intros)

lemma shrinks_range [shrinks_intros]: "shrinks (parse_range s)" "shrinks (print_range a b nb lt)" "shrinks (insert_after a ls)" "shrinks (delete_range a b)"
  "shrinks (target_address arg)"
  by (auto simp: parse_range_def check_range_def print_range_def print_line_def py_nth_def insert_after_def delete_range_def
      target_address_def Let_def intro!: shrinks_intros)

lemma shrinks_ranged_command [shrinks_intros]: "shrinks (ranged_command n ops c arg addressed a b)"
  unfolding ranged_command_def command_append_def command_insert_def command_change_def command_join_def command_move_def command_copy_def
    command_read_def Let_def
  by (intro shrinks_intros) simp_all

lemma shrinks_simple_command: "simple_command n ops c arg = Some m \<Longrightarrow> shrinks m"
proof -
  have "pred_option shrinks (simple_command n ops c arg)"
    unfolding simple_command_def
    by (intro pred_option_if option.pred_inject(1) option.pred_inject(2) [THEN iffD2] shrinks_intros) simp_all
  then show "simple_command n ops c arg = Some m \<Longrightarrow> shrinks m" by simp
qed

lemma shrinks_execute [shrinks_intros]: "shrinks (execute n ops raw)"
  unfolding execute_def Let_def print_next_def
proof (intro shrinks_bind shrinks_range shrinks_cases(3))
  fix rng :: "(int \<times> int) option" and suffix
  let ?rest = "trim suffix"
  have "shrinks (case simple_command n ops (hd ?rest) (trim (tl ?rest)) of Some m \<Rightarrow> m
      | None \<Rightarrow> bind (gets (default_range (hd ?rest) rng)) (\<lambda>(a, b). ranged_command n ops (hd ?rest) (trim (tl ?rest)) (rng \<noteq> None) a b))"
    using shrinks_simple_command [of n ops "hd ?rest" "trim (tl ?rest)"] by (auto intro!: shrinks_intros split: option.split)
  then show "shrinks (if ?rest = [] then case rng of None \<Rightarrow> bind (gets (\<lambda>e. (dot e + 1, n_lines e))) (\<lambda>(target, k).
        if target > k then raise (EdError ''invalid address'') else print_range target target False False)
      | Some (a, b) \<Rightarrow> print_range a b False False
    else case simple_command n ops (hd ?rest) (trim (tl ?rest)) of Some m \<Rightarrow> m
      | None \<Rightarrow> bind (gets (default_range (hd ?rest) rng)) (\<lambda>(a, b). ranged_command n ops (hd ?rest) (trim (tl ?rest)) (rng \<noteq> None) a b))"
    by (auto intro!: shrinks_intros)
qed




end
