(* ===== verification/Spec2Isabelle.thy ===== *)
theory Spec2Isabelle
  imports NetWire Vfs Ext2Spec AsyncSync Kernel EdSpec
begin

text \<open>
  A verification library for PythonOS, an operating system whose kernel is written in Python.
  Paths are relative to the source tree.

  \<^bold>\<open>The program.\<close> The kernel is one Python process. Its only concurrency is the event loop of
  \<^verbatim>\<open>asyncio/\<close>: processes of \<^verbatim>\<open>kernel/scheduler.py\<close> are tasks of that loop, and interrupts are drained
  and dispatched by \<^verbatim>\<open>kernel/interrupts/router.py\<close> at the start of a turn. Below are the
  memory managers (\<^verbatim>\<open>kernel/memory/\<close>), the filesystems behind one switch (\<^verbatim>\<open>kernel/fs/\<close>) and the
  network stack (\<^verbatim>\<open>kernel/net/\<close>); above is the line editor \<^verbatim>\<open>kernel/ed.py\<close>, a client of the switch.

  \<^bold>\<open>How code is modelled.\<close> A class is a record with the same fields, an exception a value of
  \<open>py_error\<close>, a method a function in the state-and-exception monad \<open>('s, 'a) io\<close> of \<open>Prelude\<close>, in which
  an exception keeps the changes made before it, as in Python. A dictionary whose order
  matters is an association list, an object that is shared an index into a heap. Integers are unbounded, as in
  Python, and masks are written where the code has them; bytes are 8-bit words. Strings hold
  code points below 256.
  A coroutine that awaits is split at its awaits, or is a tree of the calls it makes (\<open>coro\<close>).
  Calls of the filesystems run to completion, one at a time.
  \<open>wp\<close> and the collection \<open>wp_simps\<close> compute weakest preconditions over the combinators and carry most
  proofs about methods.

  \<^bold>\<open>The theories.\<close>
  \<^item> \<open>Prelude\<close>, \<open>PyString\<close>: the monad, slices, dictionaries, \<open>struct\<close> fields, string methods, UTF-8.
  \<^item> \<open>Memory\<close> (\<^verbatim>\<open>memory/pmm.py\<close>): \<open>pmm_init\<close>, \<open>pmm_alloc\<close>, \<open>pmm_alloc_n\<close>, \<open>pmm_free\<close>, \<open>pmm_free_many\<close>. The
    multiset of free frames is the abstraction; the locale \<open>frame_allocator\<close> is its contract. A trace
    of allocations and frees accounts for every frame, also with double frees; under the discipline
    \<open>lawful\<close> no frame is out twice.
  \<^item> \<open>Vmm\<close> (\<^verbatim>\<open>memory/vmm.py\<close>): address spaces and \<open>region\<close>, split at its yield into \<open>region_enter\<close> and
    \<open>region_exit\<close>. Regions and spaces give back what they took; destroying a space inside a
    region breaks the discipline above.
  \<^item> \<open>Packets\<close>, \<open>Arp\<close>, \<open>Tcp\<close>, \<open>NetStack\<close> (\<^verbatim>\<open>net/ethernet.py\<close>, \<^verbatim>\<open>ip.py\<close>, \<^verbatim>\<open>arp.py\<close>, \<^verbatim>\<open>tcp.py\<close>, \<^verbatim>\<open>stack.py\<close>): codecs under
    the locale \<open>codec\<close>, the address cache under \<open>neighbour_cache\<close>, connections, timers and the
    receive loop. The driver is the parameter \<open>NIC\<close>, with the laws of the locale \<open>nic_driver\<close>. \<open>NetInv\<close> has the
    step relation \<open>net_step\<close> of all interleavings and its invariant, \<open>NetWire\<close> the queue driver
    \<open>wire_nic\<close> that loses nothing, on which delivery of a TCP stream is proved.
  \<^item> \<open>Paths\<close> (\<^verbatim>\<open>tools/stdlib_stubs/pathlib.py\<close>), \<open>Tmpfs\<close> (\<^verbatim>\<open>fs/tmpfs.py\<close>, and the locale \<open>file_node\<close>), \<open>Vfs\<close>
    (\<^verbatim>\<open>fs/vfs.py\<close>): mounts, resolution, descriptors and directory operations for any backend given as a
    record \<open>fs_ops\<close>; the locale \<open>vfs_files\<close> lifts a file contract through the descriptors. Covering
    of a path by a mount point is specified apart from the code's string tests. What is stored by
    a write through the switch is proved for tmpfs backends.
  \<^item> \<open>Ext2Disk\<close>, \<open>Ext2File\<close>, \<open>Ext2Dir\<close> (\<^verbatim>\<open>fs/ext2.py\<close>): device, superblock, block cache, bitmaps, inodes, block
    mapping, directories, the node operations. \<open>Ext2Inv\<close> shows the cache coherent with the
    device, \<open>Ext2Spec\<close> the functional properties of allocation, directory blocks and the superblock.
  \<^item> \<open>Asyncio\<close>, \<open>AsyncRun\<close> (\<^verbatim>\<open>asyncio/*.py\<close>): futures, tasks, handles, timers, events, locks, semaphores, queues,
    \<open>sleep\<close>, \<open>wait_for\<close>, \<open>gather\<close>, one turn \<open>run_once\<close> and \<open>run_until_complete\<close>. An interrupt
    drained in a turn makes a call or creates a task. \<open>AsyncInv\<close> and \<open>AsyncOps\<close> have the contract of
    each operation, \<open>AsyncLoop\<close> the reachable states of the loop, \<open>AsyncSync\<close> bounds, the locale
    \<open>bounded_buffer\<close>, clean failures and the exact time at which a sleeper returns.
  \<^item> \<open>Kernel\<close> (\<^verbatim>\<open>kernel/scheduler.py\<close>, \<^verbatim>\<open>interrupts/router.py\<close>, \<^verbatim>\<open>interrupts/handlers.py\<close>, \<^verbatim>\<open>timekeeper.py\<close>): the process table
    over the event loop, the interrupt table and the session clock, with a step relation
    \<open>kernel_step\<close> and its invariant.
  \<^item> \<open>Ed\<close>, \<open>EdSpec\<close> (\<^verbatim>\<open>kernel/ed.py\<close>): the editor with all its commands, over any filesystem; failing commands keep
    the text, undo, the current line, the bytes of a file, and the end of the command loop.

  \<^bold>\<open>Loops and bounds.\<close> \<open>run_while\<close>, \<open>poll_all\<close> and \<open>run_loop\<close> are partial functions with value \<open>None\<close>
  when the loop does not end; that they end is proved where it is claimed. \<open>read_chunks\<close>, which reads a file of any backend to its
  end, has a bound on the number of chunks; the theorems about the editor hold for every bound.
  All other loops are recursive functions with termination proofs.

  \<^bold>\<open>What is not modelled.\<close> Log output, hardware registers, and the C code below the interpreter.
  The drivers enter as parameters. \<open>loop_close\<close> has a definition but is not a step of the loop:
  nothing in the kernel calls it. The shell, the importer and the REPL server execute Python
  source; the graphical parts, sound and chipset produce pixels and samples.
\<close>

end
